(* ===== verification/Go_Prelude.thy ===== *)
theory Go_Prelude
  imports Main "HOL-Library.Word" "HOL-Library.AList" "HOL-Library.Multiset" "HOL-Library.Sublist"
begin

text \<open>
  Shared vocabulary of the development: Go's fixed-width integers, the error-and-state
  discipline of Go functions that return an \<open>error\<close>, sequential composition of such
  functions with a small Hoare calculus, Go maps as association lists, and the upload/download
  totals with which traffic is counted.
\<close>

named_theorems go_simps \<open>equations that evaluate the control flow of the model\<close>
named_theorems hoare_rules \<open>rules of the Hoare calculus for error-returning functions\<close>

section \<open>Fixed-width integers\<close>

type_synonym u8 = "8 word"
type_synonym u16 = "16 word"
type_synonym u32 = "32 word"
type_synonym u64 = "64 word"

text \<open>
  Go's \<open>int\<close> (on a 64-bit platform) and \<open>int64\<close> are integers in two's complement; an
  arithmetic result is reduced to the representable range.
\<close>

definition wrap64 :: "int \<Rightarrow> int" where
  "wrap64 x = (x + 2 ^ 63) mod 2 ^ 64 - 2 ^ 63"

definition in_int64 :: "int \<Rightarrow> bool" where
  "in_int64 x \<longleftrightarrow> - (2 ^ 63) \<le> x \<and> x < 2 ^ 63"

lemma wrap64_id [simp]: "in_int64 x \<Longrightarrow> wrap64 x = x"
  by (simp add: wrap64_def in_int64_def)

lemma in_int64_wrap64 [simp]: "in_int64 (wrap64 x)"
proof -
  have "0 \<le> (x + 2 ^ 63) mod 2 ^ 64" and "(x + 2 ^ 63) mod 2 ^ 64 < (2 ^ 64 :: int)"
    by simp_all
  then show ?thesis by (simp add: wrap64_def in_int64_def)
qed

lemma in_int64_0 [simp]: "in_int64 0"
  by (simp add: in_int64_def)

text \<open>The conversion \<open>int64(x)\<close> of a \<open>uint64\<close>.\<close>

definition int64_of_u64 :: "u64 \<Rightarrow> int" where
  "int64_of_u64 x = sint x"

section \<open>Errors and sequential composition\<close>

text \<open>
  A Go function that returns an error is a function into \<open>('e + 'a) \<times> 's\<close>: \<open>Inl e\<close> is a
  non-nil error, \<open>Inr a\<close> the results with a nil error, \<open>'s\<close> the state after the call. The
  idiom \<open>x, err := f(); if err != nil { return err }\<close> is \<open>bindE\<close>.
\<close>

definition bindE :: "('e + 'a) \<times> 's \<Rightarrow> ('a \<Rightarrow> 's \<Rightarrow> ('e + 'b) \<times> 's) \<Rightarrow> ('e + 'b) \<times> 's" where
  "bindE m k = (case m of (Inl e, s) \<Rightarrow> (Inl e, s) | (Inr a, s) \<Rightarrow> k a s)"

definition ok :: "'a \<Rightarrow> 's \<Rightarrow> ('e + 'a) \<times> 's" where
  "ok a s = (Inr a, s)"

definition fail :: "'e \<Rightarrow> 's \<Rightarrow> ('e + 'a) \<times> 's" where
  "fail e s = (Inl e, s)"

lemma bindE_simps [simp, go_simps]:
  "bindE (Inl e, s) k = (Inl e, s)"
  "bindE (Inr a, s) k = k a s"
  "bindE (ok a s) k = k a s"
  "bindE (fail e s) k = (Inl e, s)"
  by (simp_all add: bindE_def ok_def fail_def)

lemma bindE_Inr_iff:
  "bindE m k = (Inr b, s') \<longleftrightarrow> (\<exists>a t. m = (Inr a, t) \<and> k a t = (Inr b, s'))"
  by (auto simp: bindE_def split: prod.splits sum.splits)

lemma bindE_Inl_iff:
  "bindE m k = (Inl e, s') \<longleftrightarrow> m = (Inl e, s') \<or> (\<exists>a t. m = (Inr a, t) \<and> k a t = (Inl e, s'))"
  by (auto simp: bindE_def split: prod.splits sum.splits)

lemma bindE_cases:
  assumes "bindE m k = (r, t)"
  obtains (err) e where "m = (Inl e, t)" "r = Inl e"
    | (ok) a s where "m = (Inr a, s)" "k a s = (r, t)"
  using assms by (cases m; cases "fst m") (auto simp: bindE_def)

lemma bindE_cong [fundef_cong]:
  "m = m' \<Longrightarrow> (\<And>a t. m' = (Inr a, t) \<Longrightarrow> k a t = k' a t) \<Longrightarrow> bindE m k = bindE m' k'"
  by (auto simp: bindE_def split: prod.splits sum.splits)

text \<open>
  A triple \<open>hoare P f Q E\<close>: from a state that satisfies \<open>P\<close>, \<open>f\<close> ends with results and a
  state that satisfy \<open>Q\<close>, or with an error and a state that satisfy \<open>E\<close>.
\<close>

definition hoare ::
  "('s \<Rightarrow> bool) \<Rightarrow> ('s \<Rightarrow> ('e + 'a) \<times> 's) \<Rightarrow> ('a \<Rightarrow> 's \<Rightarrow> bool) \<Rightarrow> ('e \<Rightarrow> 's \<Rightarrow> bool) \<Rightarrow> bool"
where
  "hoare P f Q E \<longleftrightarrow>
     (\<forall>s. P s \<longrightarrow> (case f s of (Inl e, t) \<Rightarrow> E e t | (Inr a, t) \<Rightarrow> Q a t))"

lemma hoareI:
  assumes "\<And>s a t. P s \<Longrightarrow> f s = (Inr a, t) \<Longrightarrow> Q a t"
    and "\<And>s e t. P s \<Longrightarrow> f s = (Inl e, t) \<Longrightarrow> E e t"
  shows "hoare P f Q E"
  using assms by (auto simp: hoare_def split: prod.splits sum.splits)

lemma hoareD_Inr: "hoare P f Q E \<Longrightarrow> P s \<Longrightarrow> f s = (Inr a, t) \<Longrightarrow> Q a t"
  by (auto simp: hoare_def split: prod.splits sum.splits)

lemma hoareD_Inl: "hoare P f Q E \<Longrightarrow> P s \<Longrightarrow> f s = (Inl e, t) \<Longrightarrow> E e t"
  by (auto simp: hoare_def split: prod.splits sum.splits)

lemma hoare_bind [hoare_rules]:
  assumes "hoare P f R E" and "\<And>a. hoare (R a) (g a) Q E"
  shows "hoare P (\<lambda>s. bindE (f s) g) Q E"
proof (rule hoareI)
  show "Q b t" if "P s" and "bindE (f s) g = (Inr b, t)" for s b t
    using that assms by (auto simp: bindE_Inr_iff dest: hoareD_Inr)
  show "E e t" if "P s" and "bindE (f s) g = (Inl e, t)" for s e t
    using that assms by (auto simp: bindE_Inl_iff dest: hoareD_Inr hoareD_Inl)
qed

lemma hoare_ok: "(\<And>s. P s \<Longrightarrow> Q a s) \<Longrightarrow> hoare P (ok a) Q E"
  by (auto simp: hoare_def ok_def)

lemma hoare_fail: "(\<And>s. P s \<Longrightarrow> E e s) \<Longrightarrow> hoare P (fail e) Q E"
  by (auto simp: hoare_def fail_def)

lemma hoare_if [hoare_rules]:
  assumes "hoare (\<lambda>s. P s \<and> c s) f Q E" and "hoare (\<lambda>s. P s \<and> \<not> c s) g Q E"
  shows "hoare P (\<lambda>s. if c s then f s else g s) Q E"
  using assms by (auto simp: hoare_def)

lemma hoare_weaken:
  assumes "hoare P' f Q' E'" and "\<And>s. P s \<Longrightarrow> P' s"
    and "\<And>a s. Q' a s \<Longrightarrow> Q a s" and "\<And>e s. E' e s \<Longrightarrow> E e s"
  shows "hoare P f Q E"
  using assms by (fastforce simp: hoare_def split: prod.splits sum.splits)

lemma hoare_pre: "hoare P' f Q E \<Longrightarrow> (\<And>s. P s \<Longrightarrow> P' s) \<Longrightarrow> hoare P f Q E"
  by (rule hoare_weaken)

lemma hoare_conj:
  "hoare P f Q E \<Longrightarrow> hoare P' f Q' E' \<Longrightarrow>
     hoare (\<lambda>s. P s \<and> P' s) f (\<lambda>a s. Q a s \<and> Q' a s) (\<lambda>e s. E e s \<and> E' e s)"
  by (fastforce simp: hoare_def split: prod.splits sum.splits)

section \<open>Go maps as association lists\<close>

text \<open>
  A Go map or \<open>sync.Map\<close> is an association list with distinct keys: reading is \<open>map_of\<close>,
  writing \<open>AList.update\<close>, deleting \<open>AList.delete\<close>. A range loop visits the entries in the
  list's order; since Go leaves the order open, theorems about such loops speak of sets,
  multisets or sums only.
\<close>

type_synonym ('k, 'v) gomap = "('k \<times> 'v) list"

abbreviation gomap_ok :: "('k, 'v) gomap \<Rightarrow> bool" where
  "gomap_ok m \<equiv> distinct (map fst m)"

lemma map_of_update [simp]: "map_of (AList.update k v m) = (map_of m)(k \<mapsto> v)"
  by (rule update_conv')

lemma map_of_delete [simp]: "map_of (AList.delete k m) = (map_of m)(k := None)"
  by (simp add: delete_conv')

lemma gomap_ok_update [simp]: "gomap_ok m \<Longrightarrow> gomap_ok (AList.update k v m)"
  by (rule distinct_update)

lemma gomap_ok_delete [simp]: "gomap_ok m \<Longrightarrow> gomap_ok (AList.delete k m)"
  by (rule distinct_delete)

lemma gomap_ok_in_set: "gomap_ok m \<Longrightarrow> (k, v) \<in> set m \<longleftrightarrow> map_of m k = Some v"
  by (auto dest: map_of_SomeD)

section \<open>Totals of upload and download\<close>

datatype usage = Usage (used_up: int) (used_down: int)

instantiation usage :: ab_group_add
begin

definition zero_usage :: usage where
  "0 = Usage 0 0"

definition plus_usage :: "usage \<Rightarrow> usage \<Rightarrow> usage" where
  "a + b = Usage (used_up a + used_up b) (used_down a + used_down b)"

definition uminus_usage :: "usage \<Rightarrow> usage" where
  "- a = Usage (- used_up a) (- used_down a)"

definition minus_usage :: "usage \<Rightarrow> usage \<Rightarrow> usage" where
  "a - b = Usage (used_up a - used_up b) (used_down a - used_down b)"

instance
  by standard (auto simp: zero_usage_def plus_usage_def uminus_usage_def minus_usage_def)

end

lemma usage_simps [simp]:
  "used_up 0 = 0" "used_down 0 = 0"
  "used_up (a + b) = used_up a + used_up b" "used_down (a + b) = used_down a + used_down b"
  "used_up (a - b) = used_up a - used_up b" "used_down (a - b) = used_down a - used_down b"
  by (simp_all add: zero_usage_def plus_usage_def minus_usage_def)

lemma usage_eq_iff: "a = b \<longleftrightarrow> used_up a = used_up b \<and> used_down a = used_down b"
  by (cases a; cases b) auto

lemma sum_list_mset_eq:
  "mset xs = mset ys \<Longrightarrow> sum_list (map f xs) = sum_list (map (f :: 'a \<Rightarrow> 'b::comm_monoid_add) ys)"
  by (metis mset_map sum_mset_sum_list)

end
