(* ===== verification/Outbox.thy ===== *)
theory Outbox
  imports Go_Prelude
begin

text \<open>
  The data of the durable traffic outbox (\<open>api/v2board/traffic.go\<close>, \<open>traffic_conflict.go\<close>,
  \<open>traffic_isolation.go\<close>) and its pure operations: the batch selection, the validation of a
  state file, of an acknowledgement and of a conflict, and the bounded list of held batches.
  The stateful operations are in the theories Outbox\_Store and Outbox\_Flush.
\<close>

section \<open>Data\<close>

definition maxTrafficRows :: nat where
  "maxTrafficRows = 500"

record trafficRow =
  row_UID :: int
  row_Upload :: int
  row_Download :: int
  row_UUID :: string

record trafficBatch =
  batch_Sequence :: u64
  batch_Rows :: "trafficRow list"

record TrafficAck =
  ack_Accepted :: bool
  ack_Sequence :: u64
  ack_Digest :: string
  ack_Revoked :: "int list option"

record trafficConflict =
  conflict_Kind :: string
  conflict_Sequence :: u64
  conflict_Digest :: string
  conflict_Next :: u64
  conflict_RequestSequence :: u64
  conflict_RequestDigest :: string

definition maxTrafficHolds :: nat where
  "maxTrafficHolds = 16"

definition trafficHoldTTL :: int where
  "trafficHoldTTL = 7 * 24 * 60 * 60"

record trafficResolution =
  res_Next :: u64
  res_At :: int

record trafficHold =
  hold_At :: int
  hold_Batch :: "trafficBatch option"

record reportState =
  rs_Version :: int
  rs_Next :: u64
  rs_Pending :: "trafficBatch option"
  rs_Buffered :: "trafficRow list"
  rs_Failures :: int
  rs_Resolution :: "trafficResolution option"
  rs_Held :: "trafficHold list"

record UserTraffic =
  ut_UID :: int
  ut_Upload :: int
  ut_Download :: int
  ut_UUID :: string

text \<open>
  Error values. \<open>Wrap\<close> is an error built with \<open>fmt.Errorf\<close> and \<open>%w\<close>; \<open>Unconfirmed\<close> and
  \<open>Conflict\<close> are the two error types of the package; \<open>NotExist\<close> is \<open>os.ErrNotExist\<close>.
  \<open>Panic\<close> stands for a run-time panic (a nil dereference or an index out of range), which no
  handler of the package recovers.
\<close>

datatype goerr =
    Err string
  | Wrap string goerr
  | NotExist
  | Unconfirmed goerr
  | Conflict trafficConflict
  | Panic string

text \<open>\<open>errors.As\<close> for the two error types: the first error of that type in the chain.\<close>

fun as_unconfirmed :: "goerr \<Rightarrow> goerr option" where
  "as_unconfirmed (Unconfirmed e) = Some e"
| "as_unconfirmed (Wrap _ e) = as_unconfirmed e"
| "as_unconfirmed _ = None"

fun as_conflict :: "goerr \<Rightarrow> trafficConflict option" where
  "as_conflict (Conflict c) = Some c"
| "as_conflict (Unconfirmed e) = as_conflict e"
| "as_conflict (Wrap _ e) = as_conflict e"
| "as_conflict _ = None"

text \<open>
  The tag \<open>json:"-"\<close> keeps a row's UUID out of every serialisation: what a file or the panel
  sees of a batch or a state is its stripped form.
\<close>

definition strip_row :: "trafficRow \<Rightarrow> trafficRow" where
  "strip_row r = r\<lparr>row_UUID := []\<rparr>"

definition strip_batch :: "trafficBatch \<Rightarrow> trafficBatch" where
  "strip_batch b = b\<lparr>batch_Rows := map strip_row (batch_Rows b)\<rparr>"

definition strip_hold :: "trafficHold \<Rightarrow> trafficHold" where
  "strip_hold h = h\<lparr>hold_Batch := map_option strip_batch (hold_Batch h)\<rparr>"

definition strip_state :: "reportState \<Rightarrow> reportState" where
  "strip_state s = s\<lparr>rs_Pending := map_option strip_batch (rs_Pending s),
     rs_Buffered := map strip_row (rs_Buffered s), rs_Held := map strip_hold (rs_Held s)\<rparr>"

lemma strip_row_fields [simp]:
  "row_UID (strip_row r) = row_UID r" "row_Upload (strip_row r) = row_Upload r"
  "row_Download (strip_row r) = row_Download r" "row_UUID (strip_row r) = []"
  by (simp_all add: strip_row_def)

lemma strip_batch_fields [simp]:
  "batch_Sequence (strip_batch b) = batch_Sequence b"
  "batch_Rows (strip_batch b) = map strip_row (batch_Rows b)"
  by (simp_all add: strip_batch_def)

lemma strip_state_fields [simp]:
  "rs_Version (strip_state s) = rs_Version s" "rs_Next (strip_state s) = rs_Next s"
  "rs_Pending (strip_state s) = map_option strip_batch (rs_Pending s)"
  "rs_Buffered (strip_state s) = map strip_row (rs_Buffered s)"
  "rs_Failures (strip_state s) = rs_Failures s"
  "rs_Resolution (strip_state s) = rs_Resolution s"
  "rs_Held (strip_state s) = map strip_hold (rs_Held s)"
  by (simp_all add: strip_state_def)

definition row_usage :: "trafficRow \<Rightarrow> usage" where
  "row_usage r = Usage (row_Upload r) (row_Download r)"

definition rows_usage :: "trafficRow list \<Rightarrow> usage" where
  "rows_usage rs = sum_list (map row_usage rs)"

lemma rows_usage_simps [simp]:
  "rows_usage [] = 0" "rows_usage (r # rs) = row_usage r + rows_usage rs"
  "rows_usage (rs @ qs) = rows_usage rs + rows_usage qs"
  by (simp_all add: rows_usage_def)

definition row_of_user :: "UserTraffic \<Rightarrow> trafficRow" where
  "row_of_user u = \<lparr>row_UID = ut_UID u, row_Upload = ut_Upload u, row_Download = ut_Download u,
     row_UUID = ut_UUID u\<rparr>"

definition user_of_row :: "trafficRow \<Rightarrow> UserTraffic" where
  "user_of_row r = \<lparr>ut_UID = row_UID r, ut_Upload = row_Upload r, ut_Download = row_Download r,
     ut_UUID = row_UUID r\<rparr>"

lemma row_of_user_of_row [simp]: "row_of_user (user_of_row r) = r"
  by (simp add: row_of_user_def user_of_row_def)

lemma user_of_row_of_user [simp]: "user_of_row (row_of_user u) = u"
  by (simp add: row_of_user_def user_of_row_def)

section \<open>Selecting a batch\<close>

definition bad_row :: "trafficRow \<Rightarrow> bool" where
  "bad_row r \<longleftrightarrow> row_UID r \<le> 0 \<or> row_Upload r < 0 \<or> row_Download r < 0"

fun select_loop ::
  "trafficRow list \<Rightarrow> trafficRow list \<Rightarrow> trafficRow list \<Rightarrow> int list \<Rightarrow>
     goerr + (trafficRow list \<times> trafficRow list)" where
  "select_loop [] selected rest seen = Inr (selected, rest)"
| "select_loop (r # rs) selected rest seen =
     (if bad_row r then Inl (Err ''invalid traffic counters'')
      else if length selected = maxTrafficRows \<or> row_UID r \<in> set seen
      then select_loop rs selected (rest @ [r]) seen
      else select_loop rs (selected @ [r]) rest (row_UID r # seen))"

definition selectTrafficBatch ::
  "trafficRow list \<Rightarrow> goerr + (trafficRow list \<times> trafficRow list)" where
  "selectTrafficBatch rows = select_loop rows [] [] []"

text \<open>Invariant of the loop: what is selected so far and what is left over.\<close>

definition select_inv :: "trafficRow list \<Rightarrow> trafficRow list \<Rightarrow> int list \<Rightarrow> bool" where
  "select_inv selected rest seen \<longleftrightarrow>
     length selected \<le> maxTrafficRows \<and> distinct (map row_UID selected) \<and>
     set seen = row_UID ` set selected \<and>
     (length selected < maxTrafficRows \<longrightarrow> row_UID ` set rest \<subseteq> row_UID ` set selected)"

lemma select_inv_start [simp]: "select_inv [] [] []"
  by (simp add: select_inv_def)

lemma select_inv_rest:
  "select_inv selected rest seen \<Longrightarrow> length selected = maxTrafficRows \<or> row_UID r \<in> set seen \<Longrightarrow>
     select_inv selected (rest @ [r]) seen"
  by (auto simp: select_inv_def)

lemma select_inv_take:
  "select_inv selected rest seen \<Longrightarrow> length selected \<noteq> maxTrafficRows \<Longrightarrow> row_UID r \<notin> set seen \<Longrightarrow>
     select_inv (selected @ [r]) rest (row_UID r # seen)"
  by (auto simp: select_inv_def)

lemma select_loop_inv:
  assumes "select_loop rows selected rest seen = Inr (sel', rest')"
    and "select_inv selected rest seen"
  shows "(\<exists>seen'. select_inv sel' rest' seen') \<and> mset sel' + mset rest' = mset rows + mset selected + mset rest
     \<and> (rows \<noteq> [] \<longrightarrow> sel' \<noteq> []) \<and> (selected \<noteq> [] \<longrightarrow> sel' \<noteq> []) \<and> list_all (\<lambda>r. \<not> bad_row r) rows"
  using assms
proof (induction rows arbitrary: selected rest seen)
  case Nil
  then show ?case by auto
next
  case (Cons r rows)
  from Cons.prems(1) have good: "\<not> bad_row r"
    by (auto split: if_splits)
  show ?case
  proof (cases "length selected = maxTrafficRows \<or> row_UID r \<in> set seen")
    case True
    then have "selected \<noteq> []"
      using Cons.prems(2) by (auto simp: select_inv_def maxTrafficRows_def)
    moreover from True good Cons.prems have "select_loop rows selected (rest @ [r]) seen = Inr (sel', rest')"
      by auto
    moreover from Cons.prems(2) True have "select_inv selected (rest @ [r]) seen"
      by (rule select_inv_rest)
    ultimately show ?thesis
      using Cons.IH [of selected "rest @ [r]" seen] good by auto
  next
    case False
    with good Cons.prems have "select_loop rows (selected @ [r]) rest (row_UID r # seen) = Inr (sel', rest')"
      by auto
    moreover from Cons.prems(2) False have "select_inv (selected @ [r]) rest (row_UID r # seen)"
      by (auto intro: select_inv_take)
    ultimately show ?thesis
      using Cons.IH [of "selected @ [r]" rest "row_UID r # seen"] good by auto
  qed
qed

lemma select_loop_error:
  "(\<exists>e. select_loop rows selected rest seen = Inl e) \<longleftrightarrow> list_ex bad_row rows"
  by (induction rows arbitrary: selected rest seen) auto

lemma select_batch_mset:
  "selectTrafficBatch rows = Inr (sel, rest) \<Longrightarrow> mset sel + mset rest = mset rows"
  using select_loop_inv [of rows "[]" "[]" "[]" sel rest] by (simp add: selectTrafficBatch_def)

lemma select_batch_length:
  assumes "selectTrafficBatch rows = Inr (sel, rest)"
  shows "length sel + length rest = length rows"
  by (metis assms select_batch_mset size_mset size_union)

lemma select_batch_nonempty:
  "selectTrafficBatch rows = Inr (sel, rest) \<Longrightarrow> rows \<noteq> [] \<Longrightarrow> sel \<noteq> []"
  using select_loop_inv [of rows "[]" "[]" "[]" sel rest] by (simp add: selectTrafficBatch_def)

lemma select_batch_shorter:
  "selectTrafficBatch rows = Inr (sel, rest) \<Longrightarrow> rows \<noteq> [] \<Longrightarrow> length rest < length rows"
  using select_batch_length [of rows sel rest] select_batch_nonempty [of rows sel rest]
  by (cases sel) auto

lemma select_batch_bounds:
  assumes "selectTrafficBatch rows = Inr (sel, rest)"
  shows "length sel \<le> maxTrafficRows" "distinct (map row_UID sel)" "list_all (\<lambda>r. \<not> bad_row r) rows"
    "length sel < maxTrafficRows \<Longrightarrow> row_UID ` set rest \<subseteq> row_UID ` set sel"
  using select_loop_inv [of rows "[]" "[]" "[]" sel rest] assms
  by (auto simp: selectTrafficBatch_def select_inv_def)

lemma select_batch_usage:
  "selectTrafficBatch rows = Inr (sel, rest) \<Longrightarrow> rows_usage sel + rows_usage rest = rows_usage rows"
  using sum_list_mset_eq [of "sel @ rest" rows row_usage] select_batch_mset [of rows sel rest]
  by (simp add: rows_usage_def)

section \<open>Hexadecimal digests\<close>

text \<open>\<open>hex.DecodeString\<close> and \<open>hex.EncodeToString\<close>; a decoded byte is a number below 256.\<close>

definition fromHexChar :: "char \<Rightarrow> nat option" where
  "fromHexChar c =
     (let n = of_char c :: nat in
      if 48 \<le> n \<and> n \<le> 57 then Some (n - 48)
      else if 97 \<le> n \<and> n \<le> 102 then Some (n - 97 + 10)
      else if 65 \<le> n \<and> n \<le> 70 then Some (n - 65 + 10)
      else None)"

definition hexDigit :: "nat \<Rightarrow> char" where
  "hexDigit n = char_of (if n < 10 then n + 48 else n + 87)"

fun hexDecode :: "string \<Rightarrow> nat list option" where
  "hexDecode [] = Some []"
| "hexDecode [c] = None"
| "hexDecode (a # b # s) =
     (case (fromHexChar a, fromHexChar b, hexDecode s) of
        (Some x, Some y, Some bs) \<Rightarrow> Some ((16 * x + y) # bs)
      | _ \<Rightarrow> None)"

fun hexEncode :: "nat list \<Rightarrow> string" where
  "hexEncode [] = []"
| "hexEncode (n # bs) = hexDigit (n div 16) # hexDigit (n mod 16) # hexEncode bs"

definition sha256_Size :: nat where
  "sha256_Size = 32"

definition validTrafficDigest :: "string \<Rightarrow> bool" where
  "validTrafficDigest digest \<longleftrightarrow>
     (case hexDecode digest of None \<Rightarrow> False
      | Some decoded \<Rightarrow> length decoded = sha256_Size \<and> hexEncode decoded = digest)"

definition lowerHex :: "char \<Rightarrow> bool" where
  "lowerHex c \<longleftrightarrow> (let n = of_char c :: nat in (48 \<le> n \<and> n \<le> 57) \<or> (97 \<le> n \<and> n \<le> 102))"

lemma fromHexChar_less: "fromHexChar c = Some x \<Longrightarrow> x < 16"
  by (auto simp: fromHexChar_def Let_def split: if_splits)

lemma lowerHex_hexDigit: "x < 16 \<Longrightarrow> lowerHex (hexDigit x)"
  by (auto simp: lowerHex_def hexDigit_def)

lemma fromHexChar_lower: "lowerHex c \<Longrightarrow> \<exists>x. fromHexChar c = Some x \<and> hexDigit x = c"
  by (auto simp: lowerHex_def fromHexChar_def hexDigit_def Let_def split: if_splits)

lemma hexDecode_lower:
  "list_all lowerHex s \<Longrightarrow> length s = 2 * n \<Longrightarrow>
     \<exists>bs. hexDecode s = Some bs \<and> length bs = n \<and> hexEncode bs = s"
proof (induction s arbitrary: n rule: hexDecode.induct)
  case (3 a b s)
  then obtain m where n: "n = Suc m" and "length s = 2 * m"
    by (cases n) auto
  with 3 obtain bs where bs: "hexDecode s = Some bs" "length bs = m" "hexEncode bs = s"
    by auto
  from 3(2) obtain x y where "fromHexChar a = Some x" "hexDigit x = a" "fromHexChar b = Some y" "hexDigit y = b"
    using fromHexChar_lower [of a] fromHexChar_lower [of b] by auto
  moreover from this have "x < 16" "y < 16"
    by (auto dest: fromHexChar_less)
  ultimately show ?case
    using bs n by auto
qed auto

lemma hexEncode_lower: "list_all (\<lambda>n. n < 256) bs \<Longrightarrow> list_all lowerHex (hexEncode bs)"
  by (induction bs) (auto intro!: lowerHex_hexDigit)

lemma length_hexEncode [simp]: "length (hexEncode bs) = 2 * length bs"
  by (induction bs) auto

lemma hexDecode_byte: "hexDecode s = Some bs \<Longrightarrow> list_all (\<lambda>n. n < 256) bs"
proof (induction s arbitrary: bs rule: hexDecode.induct)
  case (3 a b s)
  then show ?case
    by (auto split: option.splits dest!: fromHexChar_less)
qed auto

section \<open>Acknowledgements and conflicts\<close>

definition validateTrafficAck :: "TrafficAck \<Rightarrow> u64 \<Rightarrow> string \<Rightarrow> goerr option" where
  "validateTrafficAck ack seq digest =
     (if \<not> ack_Accepted ack \<or> ack_Sequence ack \<noteq> seq \<or> ack_Digest ack \<noteq> digest \<or> ack_Revoked ack = None
      then Some (Err ''traffic acknowledgement mismatch'')
      else if list_ex (\<lambda>uid. uid \<le> 0) (the (ack_Revoked ack))
      then Some (Err ''invalid revoked user'')
      else None)"

abbreviation maxInt63 :: u64 where
  "maxInt63 \<equiv> 9223372036854775807"

definition canRebaseTraffic :: "trafficConflict \<Rightarrow> u64 \<Rightarrow> string \<Rightarrow> bool" where
  "canRebaseTraffic c seq digest \<longleftrightarrow>
     conflict_Sequence c = seq \<and> conflict_RequestSequence c = seq \<and>
     conflict_RequestDigest c = digest \<and> validTrafficDigest (conflict_Digest c) \<and>
     conflict_Digest c \<noteq> digest \<and>
     conflict_Next c = seq + 1 \<and> conflict_Next c \<noteq> 0 \<and> conflict_Next c \<le> maxInt63"

text \<open>The digest of the batch's bytes is passed in: \<open>fmt.Sprintf("%x", sha256.Sum256(body))\<close>.\<close>

definition canIsolateTraffic :: "trafficConflict \<Rightarrow> trafficBatch option \<Rightarrow> (trafficBatch \<Rightarrow> string) \<Rightarrow> bool" where
  "canIsolateTraffic c batch digestOf =
     (case batch of None \<Rightarrow> False
      | Some b \<Rightarrow>
          (if conflict_Sequence c \<le> batch_Sequence b \<or> conflict_Next c \<noteq> conflict_Sequence c + 1 \<or>
              conflict_Next c > maxInt63 \<or> conflict_Next c = 0 \<or>
              \<not> validTrafficDigest (conflict_Digest c) \<or> conflict_RequestSequence c \<noteq> batch_Sequence b
           then False
           else conflict_RequestDigest c = digestOf b))"

section \<open>Held batches\<close>

definition trimTrafficHolds :: "trafficHold list \<Rightarrow> int \<Rightarrow> trafficHold list" where
  "trimTrafficHolds held now =
     (let result = filter (\<lambda>h. hold_At h > wrap64 (now - trafficHoldTTL)) held in
      if length result > maxTrafficHolds then drop (length result - maxTrafficHolds) result else result)"

lemma length_trim: "length (trimTrafficHolds held now) \<le> maxTrafficHolds"
  by (simp add: trimTrafficHolds_def Let_def)

lemma set_trim: "set (trimTrafficHolds held now) \<subseteq> set held"
  by (auto simp: trimTrafficHolds_def Let_def dest: in_set_dropD)

section \<open>Validity of a stored state\<close>

definition validTrafficHold :: "trafficHold \<Rightarrow> bool" where
  "validTrafficHold h \<longleftrightarrow>
     \<not> (hold_At h \<le> 0 \<or> (case hold_Batch h of None \<Rightarrow> True
          | Some b \<Rightarrow> length (batch_Rows b) = 0 \<or> length (batch_Rows b) > maxTrafficRows))"

definition validTrafficIsolation :: "reportState \<Rightarrow> bool" where
  "validTrafficIsolation s =
     (if rs_Failures s < 0 \<or> rs_Failures s > 3 \<or> length (rs_Held s) > maxTrafficHolds then False
      else if (case rs_Resolution s of None \<Rightarrow> False
               | Some r \<Rightarrow> rs_Pending s = None \<or> res_Next r = 0 \<or> res_Next r > maxInt63 \<or> res_At r \<le> 0)
      then False
      else list_all validTrafficHold (rs_Held s))"

text \<open>The condition under which \<open>loadReportState\<close> accepts a state file.\<close>

definition validReportState :: "reportState \<Rightarrow> bool" where
  "validReportState s \<longleftrightarrow>
     \<not> (rs_Version s \<noteq> 1 \<or> rs_Next s = 0 \<or> length (rs_Buffered s) > 200000 \<or>
        \<not> validTrafficIsolation s \<or>
        (case rs_Pending s of None \<Rightarrow> False
         | Some b \<Rightarrow> batch_Sequence b \<noteq> rs_Next s \<or> length (batch_Rows b) > maxTrafficRows \<or>
             length (batch_Rows b) = 0))"

lemma validTrafficHold_strip [simp]: "validTrafficHold (strip_hold h) = validTrafficHold h"
  by (auto simp: validTrafficHold_def strip_hold_def split: option.splits)

lemma validReportState_strip [simp]: "validReportState (strip_state s) = validReportState s"
  by (auto simp: validReportState_def validTrafficIsolation_def list_all_iff split: option.splits)

lemma valid_pending_rows:
  "validReportState s \<Longrightarrow> rs_Pending s = Some b \<Longrightarrow> batch_Rows b \<noteq> []"
  by (auto simp: validReportState_def)

lemma valid_held_nil: "validReportState s \<Longrightarrow> validReportState (s\<lparr>rs_Held := []\<rparr>)"
  by (auto simp: validReportState_def validTrafficIsolation_def split: if_splits option.splits)

lemma valid_trim:
  "list_all validTrafficHold held \<Longrightarrow> list_all validTrafficHold (trimTrafficHolds held now)"
  using set_trim by (auto simp: list_all_iff)

end
