(* ===== verification/Go_Strings.thy ===== *)
theory Go_Strings
  imports Go_Prelude
begin

text \<open>
  The functions of Go's \<open>strings\<close> and \<open>strconv\<close> packages that the code uses, on byte strings.
  Letters and white space are the ASCII ones: the panel's fields that go through these functions
  are host names, IP addresses, header values and tags.
\<close>

definition lowerChar :: "char \<Rightarrow> char" where
  "lowerChar c = (let n = of_char c :: nat in if 65 \<le> n \<and> n \<le> 90 then char_of (n + 32) else c)"

definition toLower :: "string \<Rightarrow> string" where
  "toLower = map lowerChar"

definition spaceChar :: "char \<Rightarrow> bool" where
  "spaceChar c \<longleftrightarrow> (let n = of_char c :: nat in n = 32 \<or> (9 \<le> n \<and> n \<le> 13))"

definition trimSpace :: "string \<Rightarrow> string" where
  "trimSpace s = rev (dropWhile spaceChar (rev (dropWhile spaceChar s)))"

definition trimPrefix :: "string \<Rightarrow> string \<Rightarrow> string" where
  "trimPrefix s p = (if prefix p s then drop (length p) s else s)"

definition trimSuffix :: "string \<Rightarrow> string \<Rightarrow> string" where
  "trimSuffix s p = (if suffix p s then take (length s - length p) s else s)"

text \<open>\<open>strings.TrimRight(s, "c")\<close> for a cutset of one byte.\<close>

definition trimRightChar :: "string \<Rightarrow> char \<Rightarrow> string" where
  "trimRightChar s c = rev (dropWhile (\<lambda>x. x = c) (rev s))"

fun splitOn :: "char \<Rightarrow> string \<Rightarrow> string list" where
  "splitOn c [] = [[]]"
| "splitOn c (x # s) =
     (if x = c then [] # splitOn c s
      else (case splitOn c s of [] \<Rightarrow> [[x]] | w # ws \<Rightarrow> (x # w) # ws))"

text \<open>\<open>strings.SplitN(s, "c", 2)\<close>.\<close>

definition splitN2 :: "char \<Rightarrow> string \<Rightarrow> string list" where
  "splitN2 c s = (if c \<in> set s then [takeWhile (\<lambda>x. x \<noteq> c) s, drop 1 (dropWhile (\<lambda>x. x \<noteq> c) s)] else [s])"

fun joinWith :: "string \<Rightarrow> string list \<Rightarrow> string" where
  "joinWith sep [] = []"
| "joinWith sep [w] = w"
| "joinWith sep (w # ws) = w @ sep @ joinWith sep ws"

fun contains :: "string \<Rightarrow> string \<Rightarrow> bool" where
  "contains [] t = (t = [])"
| "contains (x # s) t = (prefix t (x # s) \<or> contains s t)"

section \<open>Decimal numbers\<close>

fun natDigits :: "nat \<Rightarrow> string" where
  "natDigits n = (if n < 10 then [char_of (48 + n)] else natDigits (n div 10) @ [char_of (48 + n mod 10)])"

declare natDigits.simps [simp del]

definition itoa :: "int \<Rightarrow> string" where
  "itoa i = (if i < 0 then CHR ''-'' # natDigits (nat (- i)) else natDigits (nat i))"

definition digitVal :: "char \<Rightarrow> nat option" where
  "digitVal c = (let n = of_char c :: nat in if 48 \<le> n \<and> n \<le> 57 then Some (n - 48) else None)"

fun parseDigits :: "nat \<Rightarrow> string \<Rightarrow> nat option" where
  "parseDigits acc [] = Some acc"
| "parseDigits acc (c # s) = (case digitVal c of None \<Rightarrow> None | Some d \<Rightarrow> parseDigits (10 * acc + d) s)"

definition parseNat :: "string \<Rightarrow> nat option" where
  "parseNat s = (if s = [] then None else parseDigits 0 s)"

text \<open>\<open>strconv.ParseInt(s, 10, 64)\<close> and \<open>strconv.Atoi\<close>: an optional sign, digits, in range.\<close>

definition parseInt64 :: "string \<Rightarrow> int option" where
  "parseInt64 s =
     (let (neg, digits) = (case s of [] \<Rightarrow> (False, [])
        | c # r \<Rightarrow> if c = CHR ''-'' then (True, r) else if c = CHR ''+'' then (False, r) else (False, c # r))
      in case parseNat digits of None \<Rightarrow> None
         | Some n \<Rightarrow> (let i = if neg then - int n else int n in if in_int64 i then Some i else None))"

text \<open>\<open>strconv.ParseUint(s, 10, bits)\<close>: digits only, in range.\<close>

definition parseUint :: "nat \<Rightarrow> string \<Rightarrow> nat option" where
  "parseUint bits s = (case parseNat s of None \<Rightarrow> None | Some n \<Rightarrow> if n < 2 ^ bits then Some n else None)"

lemma digitVal_digit [simp]: "d < 10 \<Longrightarrow> digitVal (char_of (48 + d)) = Some d"
  by (simp add: digitVal_def)

lemma parseDigits_append:
  "parseDigits acc (s @ t) = (case parseDigits acc s of None \<Rightarrow> None | Some a \<Rightarrow> parseDigits a t)"
  by (induction s arbitrary: acc) (auto split: option.splits)

lemma parseDigits_natDigits: "parseDigits 0 (natDigits n) = Some n"
proof (induction n rule: natDigits.induct)
  case (1 n)
  show ?case
  proof (cases "n < 10")
    case True
    then show ?thesis by (subst natDigits.simps) simp
  next
    case False
    with 1 show ?thesis by (subst natDigits.simps) (simp add: parseDigits_append)
  qed
qed

lemma natDigits_nonempty [simp]: "natDigits n \<noteq> []"
  by (subst natDigits.simps) simp

lemma natDigits_digits: "c \<in> set (natDigits n) \<Longrightarrow> digitVal c \<noteq> None"
proof (induction n rule: natDigits.induct)
  case (1 n)
  then show ?case
    by (subst (asm) natDigits.simps) (auto split: if_splits)
qed

lemma parseNat_natDigits [simp]: "parseNat (natDigits n) = Some n"
  by (simp add: parseNat_def parseDigits_natDigits)

lemma natDigits_no_sign: "natDigits n = c # s \<Longrightarrow> c \<noteq> CHR ''-'' \<and> c \<noteq> CHR ''+''"
  using natDigits_digits [of c n] by (auto simp: digitVal_def Let_def)

lemma parseInt64_itoa: "in_int64 i \<Longrightarrow> parseInt64 (itoa i) = Some i"
proof (cases "i < 0")
  case True
  assume "in_int64 i"
  with True show ?thesis by (simp add: itoa_def parseInt64_def)
next
  case False
  assume i: "in_int64 i"
  obtain c s where cs: "natDigits (nat i) = c # s"
    by (cases "natDigits (nat i)") auto
  have "parseNat (c # s) = Some (nat i)"
    by (metis cs parseNat_natDigits)
  with cs natDigits_no_sign [OF cs] False i show ?thesis
    by (simp add: itoa_def parseInt64_def)
qed

lemma parseUint_natDigits [simp]: "n < 2 ^ bits \<Longrightarrow> parseUint bits (natDigits n) = Some n"
  by (simp add: parseUint_def)

lemma lowerChar_idem [simp]: "lowerChar (lowerChar c) = lowerChar c"
  by (auto simp: lowerChar_def Let_def)

lemma toLower_idem [simp]: "toLower (toLower s) = toLower s"
  by (simp add: toLower_def)

lemma length_toLower [simp]: "length (toLower s) = length s"
  by (simp add: toLower_def)

lemma trimSpace_Nil [simp]: "trimSpace [] = []"
  by (simp add: trimSpace_def)

lemma trimSpace_ends:
  "trimSpace s \<noteq> [] \<Longrightarrow> \<not> spaceChar (hd (trimSpace s)) \<and> \<not> spaceChar (last (trimSpace s))"
proof
  let ?d = "dropWhile spaceChar s"
  assume ne: "trimSpace s \<noteq> []"
  then have r: "dropWhile spaceChar (rev ?d) \<noteq> []"
    by (simp add: trimSpace_def)
  then show "\<not> spaceChar (last (trimSpace s))"
    by (simp add: trimSpace_def last_rev hd_dropWhile)
  have "suffix (dropWhile spaceChar (rev ?d)) (rev ?d)"
    by (rule suffix_dropWhile)
  then have "prefix (trimSpace s) ?d"
    by (simp add: trimSpace_def suffix_to_prefix)
  then obtain z where z: "?d = trimSpace s @ z"
    by (auto simp: prefix_def)
  with ne have "hd (trimSpace s) = hd ?d" and "?d \<noteq> []"
    unfolding z by simp_all
  then show "\<not> spaceChar (hd (trimSpace s))"
    by (simp add: hd_dropWhile)
qed

lemma trimSpace_id:
  "s = [] \<or> (\<not> spaceChar (hd s) \<and> \<not> spaceChar (last s)) \<Longrightarrow> trimSpace s = s"
proof (cases "s = []")
  case False
  assume "s = [] \<or> (\<not> spaceChar (hd s) \<and> \<not> spaceChar (last s))"
  with False have h: "\<not> spaceChar (hd s)" "\<not> spaceChar (last s)" by auto
  from False h(1) have "dropWhile spaceChar s = s" by (cases s) auto
  moreover from False h(2) have "dropWhile spaceChar (rev s) = rev s"
    by (cases "rev s") (auto simp: last_rev [symmetric] dest: arg_cong [of _ _ rev])
  ultimately show ?thesis by (simp add: trimSpace_def)
qed simp

lemma trimSpace_idem [simp]: "trimSpace (trimSpace s) = trimSpace s"
  using trimSpace_ends [of s] by (intro trimSpace_id) auto

lemma contains_char [simp]: "contains s [c] \<longleftrightarrow> c \<in> set s"
  by (induction s) auto

end
