(* ===== verification/Panel_Client.thy ===== *)
theory Panel_Client
  imports Outbox Go_Strings
begin

text \<open>
  The panel client (\<open>api/v2board/panel.go\<close>, \<open>api/v2board/user.go\<close>): its state, the checked
  HTTP request every exchange goes through, and the user and online-device calls.

  The state record holds the fields of \<open>Client\<close> (the two mutexes are not modelled: each
  operation below is the body of one critical section) together with the world the client acts
  on: the content of its state file, the count of environment interactions and the history of
  visible effects. Serialised documents are values of a type parameter \<open>'b\<close>; the JSON codec,
  SHA-256, the panel, the file system's failures, the lock, the request context and the clock
  are the fields of the record \<open>env\<close>.
\<close>

section \<open>Data\<close>

record OnlineUser =
  online_UID :: int
  online_IP :: string

record UserInfo =
  user_Id :: int
  user_Uuid :: string
  user_SpeedLimit :: int
  user_DeviceLimit :: int

record UserSnapshot =
  snap_Users :: "UserInfo list"
  snap_ETag :: string

record panelCache =
  nodeEtag :: string
  userEtag :: string
  responseBodyHash :: string

text \<open>
  A response: status, the three headers the client reads, the body and, when reading it fails
  after these bytes, the read error.
\<close>

record 'b httpResponse =
  http_status :: int
  http_contract :: string
  http_ctype :: string
  http_etag :: string
  http_body :: 'b
  http_readErr :: "string option"

datatype 'b transport =
    TransportError string
  | MissingResponse
  | Response "'b httpResponse"

text \<open>
  The effects others can see: a request with its reply, the state file replaced by a rename,
  and the two callbacks of the runtime with whether they succeeded.
\<close>

datatype 'b event =
    EvRequest string string string "'b option" "'b transport"
  | EvRename 'b
  | EvCommit "UserTraffic list" bool
  | EvRevoke "int list" bool

record 'b env =
  env_panel :: "'b event list \<Rightarrow> string \<Rightarrow> string \<Rightarrow> string \<Rightarrow> 'b option \<Rightarrow> 'b transport"
  env_fs :: "nat \<Rightarrow> string option"
  env_lock :: "nat \<Rightarrow> goerr + bool"
  env_ctx :: "nat \<Rightarrow> goerr option"
  env_now :: "nat \<Rightarrow> int"
  bsize :: "'b \<Rightarrow> nat"
  sha256_hex :: "'b \<Rightarrow> string"
  json_state :: "reportState \<Rightarrow> 'b"
  unjson_state :: "'b \<Rightarrow> reportState option"
  json_batch :: "trafficBatch \<Rightarrow> 'b"
  unjson_ack :: "'b \<Rightarrow> TrafficAck option"
  unjson_conflict :: "'b \<Rightarrow> trafficConflict option"
  unjson_next :: "'b \<Rightarrow> u64 option"
  unjson_cursor :: "'b \<Rightarrow> (u64 option \<times> u64 \<times> string) option"
  unjson_users :: "'b \<Rightarrow> UserInfo list option option"
  unjson_alive :: "'b \<Rightarrow> (int, int) gomap option option"
  json_online :: "(int, string list) gomap \<Rightarrow> 'b"
  unjson_accepted :: "'b \<Rightarrow> bool option"

record ('b, 'r) client =
  APIHost :: string
  NodeId :: int
  cache :: panelCache
  outboxPath :: string
  outbox :: "reportState option"
  unsynced :: "reportState option"
  recovered :: bool
  committed :: bool
  draining :: bool
  drainSaved :: bool
  drainBase :: "trafficRow list"
  lastTrafficUID :: int
  runtime :: 'r
  disk :: "'b option"
  tick :: nat
  trace :: "'b event list"

section \<open>The checked request\<close>

definition contractVersion :: string where
  "contractVersion = ''hy2-1''"

definition maxResponseBytes :: nat where
  "maxResponseBytes = 16 * 2 ^ 20"

definition decodeTrafficConflict :: "'b env \<Rightarrow> 'b \<Rightarrow> goerr" where
  "decodeTrafficConflict env data =
     (case unjson_conflict env data of
        None \<Rightarrow> Err ''panel traffic: status 409 without a verifiable cursor; unconfirmed traffic retained''
      | Some c \<Rightarrow>
          (if conflict_Kind c \<noteq> ''traffic_sequence_conflict''
           then Err ''panel traffic: status 409 without a verifiable cursor; unconfirmed traffic retained''
           else Conflict c))"

text \<open>
  What \<open>request\<close> makes of a reply: \<open>io.ReadAll\<close> over a reader limited to one byte more than
  the bound reports a read error only when it occurs within these bytes.
\<close>

definition requestResult ::
  "'b env \<Rightarrow> string \<Rightarrow> string \<Rightarrow> string \<Rightarrow> 'b transport \<Rightarrow> goerr + ('b option \<times> string \<times> bool)" where
  "requestResult env meth action etag reply =
     (case reply of
        TransportError e \<Rightarrow> Inl (Wrap (''panel '' @ action @ '' transport'') (Err e))
      | MissingResponse \<Rightarrow> Inl (Err (''panel '' @ action @ '': missing response''))
      | Response r \<Rightarrow>
          (let conflict = http_status r = 409 \<and> meth = ''POST'' \<and> action = ''traffic'' in
           if http_status r \<noteq> 200 \<and> http_status r \<noteq> 304 \<and> \<not> conflict
           then Inl (Err (''panel '' @ action @ '': status '' @ itoa (http_status r)))
           else if http_contract r \<noteq> contractVersion
           then Inl (Err (''panel '' @ action @ '': incompatible contract; install matching HY2 panel first''))
           else if http_status r = 304
           then (if meth \<noteq> ''GET'' \<or> etag = [] then Inl (Err (''panel '' @ action @ '': unexpected 304''))
                 else Inr (None, etag, True))
           else if \<not> prefix ''application/json'' (toLower (http_ctype r))
           then Inl (Err (''panel '' @ action @ '': expected JSON''))
           else if http_readErr r \<noteq> None \<and> bsize env (http_body r) \<le> maxResponseBytes
           then Inl (Wrap (''panel '' @ action @ '' body'') (Err (the (http_readErr r))))
           else if bsize env (http_body r) > maxResponseBytes
           then Inl (Err (''panel '' @ action @ '': response too large''))
           else if conflict
           then Inl (decodeTrafficConflict env (http_body r))
           else Inr (Some (http_body r), http_etag r, False)))"

definition request ::
  "'b env \<Rightarrow> string \<Rightarrow> string \<Rightarrow> string \<Rightarrow> 'b option \<Rightarrow> ('b, 'r) client \<Rightarrow>
     (goerr + ('b option \<times> string \<times> bool)) \<times> ('b, 'r) client" where
  "request env meth action etag body s =
     (let reply = env_panel env (trace s) meth action etag body in
      (requestResult env meth action etag reply,
       s\<lparr>trace := trace s @ [EvRequest meth action etag body reply], tick := Suc (tick s)\<rparr>))"

lemma requestResult_unchanged:
  "requestResult env meth action etag reply = Inr (d, next, True) \<Longrightarrow>
     meth = ''GET'' \<and> etag \<noteq> [] \<and> next = etag \<and> d = None"
  by (auto simp: requestResult_def Let_def split: transport.splits if_splits)

lemma requestResult_data:
  "requestResult env meth action etag reply = Inr (d, next, False) \<Longrightarrow>
     \<exists>r. reply = Response r \<and> http_status r = 200 \<and> http_contract r = contractVersion \<and>
       d = Some (http_body r) \<and> next = http_etag r \<and> bsize env (http_body r) \<le> maxResponseBytes"
  by (auto simp: requestResult_def Let_def split: transport.splits if_splits)

lemma requestResult_conflict:
  "requestResult env meth action etag reply = Inl (Conflict c) \<Longrightarrow>
     meth = ''POST'' \<and> action = ''traffic'' \<and> conflict_Kind c = ''traffic_sequence_conflict''"
  by (auto simp: requestResult_def decodeTrafficConflict_def Let_def
      split: transport.splits if_splits option.splits)

lemma requestResult_no_panic:
  "requestResult env meth action etag reply \<noteq> Inl (Panic m)"
  "requestResult env meth action etag reply \<noteq> Inl (Unconfirmed e)"
  by (auto simp: requestResult_def decodeTrafficConflict_def Let_def
      split: transport.splits if_splits option.splits)

section \<open>Users and online devices\<close>

fun usersOk :: "UserInfo list \<Rightarrow> int list \<Rightarrow> string list \<Rightarrow> bool" where
  "usersOk [] ids uuids = True"
| "usersOk (u # us) ids uuids =
     (if user_Id u \<le> 0 \<or> user_Uuid u = [] \<or> user_SpeedLimit u < 0 \<or> user_DeviceLimit u < 0 \<or>
         user_Id u \<in> set ids \<or> user_Uuid u \<in> set uuids
      then False
      else usersOk us (user_Id u # ids) (user_Uuid u # uuids))"

definition getUsers ::
  "'b env \<Rightarrow> string \<Rightarrow> ('b, 'r) client \<Rightarrow> (goerr + UserSnapshot option) \<times> ('b, 'r) client" where
  "getUsers env etag s =
     bindE (request env ''GET'' ''users'' etag None s) (\<lambda>(body, next, unchanged) s.
       if unchanged then ok None s
       else (case Option.bind body (unjson_users env) of
              None \<Rightarrow> fail (Wrap ''decode users'' (Err ''json'')) s
            | Some None \<Rightarrow> fail (Err ''missing or null users array'') s
            | Some (Some us) \<Rightarrow>
                (if usersOk us [] [] then ok (Some \<lparr>snap_Users = us, snap_ETag = next\<rparr>) s
                 else fail (Err ''invalid or duplicate user'') s)))"

definition GetUsers ::
  "'b env \<Rightarrow> ('b, 'r) client \<Rightarrow> (goerr + UserSnapshot option) \<times> ('b, 'r) client" where
  "GetUsers env s = getUsers env (userEtag (cache s)) s"

definition CommitUsers :: "UserSnapshot option \<Rightarrow> panelCache \<Rightarrow> panelCache" where
  "CommitUsers snapshot c =
     (case snapshot of None \<Rightarrow> c | Some sn \<Rightarrow> c\<lparr>userEtag := snap_ETag sn\<rparr>)"

definition InvalidateUsers :: "panelCache \<Rightarrow> panelCache" where
  "InvalidateUsers c = c\<lparr>userEtag := []\<rparr>"

definition GetUserAlive ::
  "'b env \<Rightarrow> ('b, 'r) client \<Rightarrow> (goerr + (int, int) gomap) \<times> ('b, 'r) client" where
  "GetUserAlive env s =
     bindE (request env ''GET'' ''alive'' [] None s) (\<lambda>(body, next, unchanged) s.
       (case Option.bind body (unjson_alive env) of
             None \<Rightarrow> fail (Wrap ''decode alive'' (Err ''json'')) s
           | Some None \<Rightarrow> fail (Err ''missing alive object'') s
           | Some (Some alive) \<Rightarrow>
               (if list_ex (\<lambda>(uid, n). uid \<le> 0 \<or> n < 0) alive then fail (Err ''invalid alive count'') s
                else ok alive s)))"

definition ReportNodeOnlineUsers ::
  "'b env \<Rightarrow> (int, string list) gomap \<Rightarrow> ('b, 'r) client \<Rightarrow> (goerr + unit) \<times> ('b, 'r) client" where
  "ReportNodeOnlineUsers env data s =
     bindE (request env ''POST'' ''alive'' [] (Some (json_online env data)) s) (\<lambda>(body, next, unchanged) s.
       if Option.bind body (unjson_accepted env) = Some True then ok () s
       else fail (Err ''online report was not acknowledged'') s)"

lemma usersOk_iff:
  "usersOk us ids uuids \<longleftrightarrow>
     (\<forall>u\<in>set us. user_Id u > 0 \<and> user_Uuid u \<noteq> [] \<and> user_SpeedLimit u \<ge> 0 \<and> user_DeviceLimit u \<ge> 0 \<and>
        user_Id u \<notin> set ids \<and> user_Uuid u \<notin> set uuids) \<and>
     distinct (map user_Id us) \<and> distinct (map user_Uuid us)"
  by (induction us arbitrary: ids uuids) (auto simp: image_iff)

text \<open>A snapshot is accepted only if identifiers and credentials are positive and unique.\<close>

definition valid_users :: "UserInfo list \<Rightarrow> bool" where
  "valid_users us \<longleftrightarrow>
     list_all (\<lambda>u. user_Id u > 0 \<and> user_Uuid u \<noteq> [] \<and> user_SpeedLimit u \<ge> 0 \<and> user_DeviceLimit u \<ge> 0) us \<and>
     distinct (map user_Id us) \<and> distinct (map user_Uuid us)"

lemma usersOk_valid: "usersOk us [] [] = valid_users us"
  by (auto simp: usersOk_iff valid_users_def list_all_iff)

lemma getUsers_valid:
  "getUsers env etag s = (Inr (Some sn), t) \<Longrightarrow> valid_users (snap_Users sn)"
  by (auto simp: getUsers_def bindE_Inr_iff ok_def fail_def usersOk_valid
      split: prod.splits if_splits option.splits)

text \<open>
  A request touches nothing of the client but its history.
\<close>

definition only_trace :: "('b, 'r) client \<Rightarrow> ('b, 'r) client \<Rightarrow> bool" where
  "only_trace s t \<longleftrightarrow> (\<exists>tr n. t = s\<lparr>trace := tr, tick := n\<rparr>)"

lemma only_trace_fields:
  assumes "only_trace s t"
  shows "outbox t = outbox s" "unsynced t = unsynced s" "recovered t = recovered s"
    "committed t = committed s" "draining t = draining s" "drainSaved t = drainSaved s"
    "drainBase t = drainBase s" "disk t = disk s" "cache t = cache s" "runtime t = runtime s"
    "outboxPath t = outboxPath s" "lastTrafficUID t = lastTrafficUID s"
  using assms by (auto simp: only_trace_def)

lemma only_trace_request: "only_trace s (snd (request env meth action etag body s))"
  by (auto simp: only_trace_def request_def Let_def)

lemma getUsers_snd: "snd (getUsers env etag s) = snd (request env ''GET'' ''users'' etag None s)"
  by (auto simp: getUsers_def bindE_def ok_def fail_def split: prod.splits sum.splits option.splits)

lemma only_trace_getUsers: "only_trace s (snd (getUsers env etag s))"
  by (simp add: getUsers_snd only_trace_request)

end
