(* ===== verification/Outbox_Store.thy ===== *)
theory Outbox_Store
  imports Panel_Client
begin

text \<open>
  The durable side of the outbox (\<open>readReportState\<close>, \<open>loadReportState\<close>, \<open>saveReportState\<close>,
  \<open>finishStateSync\<close> of \<open>api/v2board/traffic.go\<close>). Every call into the file system consults
  \<open>env_fs\<close> at the current tick and may fail there; the only operation that changes the file is
  the atomic rename.
\<close>

section \<open>File system steps\<close>

definition fsop :: "'b env \<Rightarrow> ('b, 'r) client \<Rightarrow> (goerr + unit) \<times> ('b, 'r) client" where
  "fsop env s =
     ((case env_fs env (tick s) of None \<Rightarrow> Inr () | Some e \<Rightarrow> Inl (Err e)), s\<lparr>tick := Suc (tick s)\<rparr>)"

definition stateLimit :: nat where
  "stateLimit = 16 * 2 ^ 20"

definition readReportState :: "'b env \<Rightarrow> ('b, 'r) client \<Rightarrow> (goerr + 'b) \<times> ('b, 'r) client" where
  "readReportState env s =
     bindE (fsop env s) (\<lambda>_ s.
       (case disk s of None \<Rightarrow> fail NotExist s
        | Some b \<Rightarrow>
            bindE (fsop env s) (\<lambda>_ s.
              if bsize env b > stateLimit then fail (Err ''traffic state too large'') s
              else ok b s)))"

text \<open>\<open>syncReportDirectory\<close> opens the directory and synchronises it.\<close>

definition syncReportDirectory :: "'b env \<Rightarrow> ('b, 'r) client \<Rightarrow> (goerr + unit) \<times> ('b, 'r) client" where
  "syncReportDirectory env s = bindE (fsop env s) (\<lambda>_ s. fsop env s)"

definition finishStateSync :: "'b env \<Rightarrow> ('b, 'r) client \<Rightarrow> (goerr + unit) \<times> ('b, 'r) client" where
  "finishStateSync env s =
     bindE (syncReportDirectory env s) (\<lambda>_ s.
       (case unsynced s of
          None \<Rightarrow> fail (Panic ''nil outbox'') (s\<lparr>outbox := None\<rparr>)
        | Some u \<Rightarrow>
            (let s = s\<lparr>outbox := Some u, unsynced := None\<rparr> in
             if rs_Pending u = None then ok () (s\<lparr>recovered := False, committed := False\<rparr>)
             else ok () s)))"

text \<open>The state that is really stored: held batches are dropped when it is too large with them.\<close>

definition fitState :: "'b env \<Rightarrow> reportState \<Rightarrow> reportState" where
  "fitState env st =
     (if bsize env (json_state env st) > stateLimit \<and> length (rs_Held st) > 0
      then st\<lparr>rs_Held := []\<rparr> else st)"

definition writeTemp :: "'b env \<Rightarrow> ('b, 'r) client \<Rightarrow> (goerr + unit) \<times> ('b, 'r) client" where
  "writeTemp env s =
     (let (werr, s) = fsop env s;
          (err, s) = (case werr of Inl e \<Rightarrow> (Inl e, s) | Inr _ \<Rightarrow> fsop env s);
          (closeErr, s) = fsop env s
      in (case err of Inl e \<Rightarrow> (Inl e, s) | Inr _ \<Rightarrow> (closeErr, s)))"

definition saveReportState ::
  "'b env \<Rightarrow> reportState \<Rightarrow> ('b, 'r) client \<Rightarrow> (goerr + unit) \<times> ('b, 'r) client" where
  "saveReportState env state s =
     (if outboxPath s = [] then fail (Err ''traffic state path is required'') s
      else bindE (fsop env s) (\<lambda>_ s.
        (let state = fitState env state; body = json_state env state in
         if bsize env body > stateLimit then fail (Err ''traffic state exceeds durable size bound'') s
         else bindE (fsop env s) (\<lambda>_ s.
           bindE (writeTemp env s) (\<lambda>_ s.
             bindE (fsop env s) (\<lambda>_ s.
               finishStateSync env
                 (s\<lparr>disk := Some body, trace := trace s @ [EvRename body], unsynced := Some state\<rparr>)))))))"

definition loadUnsynced :: "'b env \<Rightarrow> ('b, 'r) client \<Rightarrow> (goerr + unit) \<times> ('b, 'r) client" where
  "loadUnsynced env s =
     (case unsynced s of None \<Rightarrow> ok () s
      | Some u \<Rightarrow>
          bindE (readReportState env s) (\<lambda>file s.
            if file \<noteq> json_state env u then fail (Err ''unconfirmed traffic state changed on disk'') s
            else finishStateSync env s))"

definition loadCurrent :: "'b env \<Rightarrow> reportState \<Rightarrow> ('b, 'r) client \<Rightarrow> (goerr + unit) \<times> ('b, 'r) client" where
  "loadCurrent env ob s =
     bindE (readReportState env s) (\<lambda>file s.
       if file = json_state env ob then ok () s
       else (case unjson_state env file of
           None \<Rightarrow> fail (Err ''traffic state changed by another controller; refusing to overwrite'') s
         | Some saved \<Rightarrow>
             (if committed s \<and> rs_Pending ob \<noteq> None \<and> rs_Version saved = 1 \<and> rs_Pending saved = None \<and>
                 rs_Next saved = rs_Next ob + 1
              then ok () (s\<lparr>outbox := Some saved, committed := False, recovered := False\<rparr>)
              else fail (Err ''traffic state changed by another controller; refusing to overwrite'') s)))"

definition freshState :: "u64 \<Rightarrow> reportState" where
  "freshState n = \<lparr>rs_Version = 1, rs_Next = n, rs_Pending = None, rs_Buffered = [], rs_Failures = 0,
     rs_Resolution = None, rs_Held = []\<rparr>"

definition loadRemote :: "'b env \<Rightarrow> ('b, 'r) client \<Rightarrow> (goerr + unit) \<times> ('b, 'r) client" where
  "loadRemote env s =
     bindE (request env ''GET'' ''state'' [] None s) (\<lambda>(body, _, _) s.
       (case Option.bind body (unjson_next env) of
          None \<Rightarrow> fail (Err ''invalid report cursor'') s
        | Some n \<Rightarrow>
            (if n = 0 then fail (Err ''invalid report cursor'') s
             else saveReportState env (freshState n) s)))"

definition loadFile :: "'b env \<Rightarrow> ('b, 'r) client \<Rightarrow> (goerr + unit) \<times> ('b, 'r) client" where
  "loadFile env s =
     (case readReportState env s of
        (Inr body, s) \<Rightarrow>
          (case unjson_state env body of
             None \<Rightarrow> fail (Err ''invalid traffic outbox; refusing to discard unconfirmed traffic'') s
           | Some state \<Rightarrow>
               (if \<not> validReportState state
                then fail (Err ''invalid traffic outbox; refusing to discard unconfirmed traffic'') s
                else ok () (s\<lparr>outbox := Some state, recovered := (rs_Pending state \<noteq> None)\<rparr>)))
      | (Inl e, s) \<Rightarrow>
          (if e \<noteq> NotExist then fail (Wrap ''read traffic outbox'' e) s else loadRemote env s))"

definition loadReportState :: "'b env \<Rightarrow> ('b, 'r) client \<Rightarrow> (goerr + unit) \<times> ('b, 'r) client" where
  "loadReportState env s =
     bindE (loadUnsynced env s) (\<lambda>_ s.
       (case outbox s of Some ob \<Rightarrow> loadCurrent env ob s | None \<Rightarrow> loadFile env s))"

section \<open>What a file system step and a save can do\<close>

lemma ex_tick [simp]: "\<exists>n. s\<lparr>tick := m\<rparr> = s\<lparr>tick := n\<rparr>"
  by blast

lemma ex_tick_same [simp]: "\<exists>n. s = s\<lparr>tick := n\<rparr>"
  by (rule exI [of _ "tick s"]) simp

lemma fsop_cases:
  "fsop env s = (r, t) \<Longrightarrow> t = s\<lparr>tick := Suc (tick s)\<rparr> \<and> (r = Inr () \<or> (\<exists>m. r = Inl (Err m)))"
  by (auto simp: fsop_def split: option.splits)

lemma fsop_Inr: "fsop env s = (Inr u, t) \<longleftrightarrow> env_fs env (tick s) = None \<and> t = s\<lparr>tick := Suc (tick s)\<rparr>"
  by (auto simp: fsop_def split: option.splits)

lemma syncReportDirectory_cases:
  "syncReportDirectory env s = (r, t) \<Longrightarrow>
     (\<exists>n. t = s\<lparr>tick := n\<rparr>) \<and> (r = Inr () \<or> (\<exists>m. r = Inl (Err m)))"
  by (cases r) (auto simp: syncReportDirectory_def bindE_Inr_iff bindE_Inl_iff dest!: fsop_cases)

lemma writeTemp_cases:
  "writeTemp env s = (r, t) \<Longrightarrow> (\<exists>n. t = s\<lparr>tick := n\<rparr>) \<and> (r = Inr () \<or> (\<exists>m. r = Inl (Err m)))"
  by (auto simp: writeTemp_def fsop_def split: option.splits sum.splits)

lemma readReportState_cases:
  "readReportState env s = (r, t) \<Longrightarrow> (\<exists>n. t = s\<lparr>tick := n\<rparr>) \<and>
     (case r of Inr b \<Rightarrow> disk s = Some b | Inl e \<Rightarrow> (e = NotExist \<and> disk s = None) \<or> (\<exists>m. e = Err m))"
  by (cases r)
    (auto simp: readReportState_def bindE_Inr_iff bindE_Inl_iff ok_def fail_def
      split: option.splits if_splits dest!: fsop_cases)

text \<open>The states a save can end in: untouched, renamed but not yet synchronised, and stored.\<close>

definition renamed :: "'b env \<Rightarrow> reportState \<Rightarrow> ('b, 'r) client \<Rightarrow> nat \<Rightarrow> ('b, 'r) client" where
  "renamed env st s n =
     s\<lparr>disk := Some (json_state env st), trace := trace s @ [EvRename (json_state env st)],
       unsynced := Some st, tick := n\<rparr>"

definition settled :: "reportState \<Rightarrow> ('b, 'r) client \<Rightarrow> nat \<Rightarrow> ('b, 'r) client" where
  "settled st s n =
     s\<lparr>outbox := Some st, unsynced := None, recovered := (recovered s \<and> rs_Pending st \<noteq> None),
       committed := (committed s \<and> rs_Pending st \<noteq> None), tick := n\<rparr>"

lemma renamed_tick [simp]: "(renamed env st s n)\<lparr>tick := n'\<rparr> = renamed env st s n'"
  by (simp add: renamed_def)

lemma finishStateSync_cases:
  assumes "finishStateSync env s = (r, t)" and "unsynced s = Some u"
  obtains (ok) n where "r = Inr ()" "t = settled u s n"
    | (err) n m where "r = Inl (Err m)" "t = s\<lparr>tick := n\<rparr>"
proof (cases "syncReportDirectory env s")
  case (Pair r' s')
  with syncReportDirectory_cases [OF this] obtain n
    where s': "s' = s\<lparr>tick := n\<rparr>" and r': "r' = Inr () \<or> (\<exists>m. r' = Inl (Err m))"
    by auto
  show thesis
  proof (cases r')
    case (Inl e)
    with assms(1) Pair s' r' err [of _ n] show ?thesis
      by (auto simp: finishStateSync_def)
  next
    case (Inr u')
    have "t = settled u s n" and "r = Inr ()"
      using assms Pair s' Inr
      by (auto simp: finishStateSync_def settled_def ok_def Let_def split: if_splits)
    then show ?thesis by (intro ok)
  qed
qed

lemma finish_renamed:
  assumes "finishStateSync env (s\<lparr>tick := n, disk := Some (json_state env st),
      trace := trace s @ [EvRename (json_state env st)], unsynced := Some st\<rparr>) = (r, t)"
  shows "(r = Inr () \<and> (\<exists>n'. t = settled st (renamed env st s n) n')) \<or>
    ((\<exists>m. r = Inl (Err m)) \<and> (\<exists>n'. t = renamed env st s n'))"
proof -
  have eq: "s\<lparr>tick := n, disk := Some (json_state env st),
      trace := trace s @ [EvRename (json_state env st)], unsynced := Some st\<rparr> = renamed env st s n"
    by (simp add: renamed_def)
  have "unsynced (renamed env st s n) = Some st"
    by (simp add: renamed_def)
  from assms [unfolded eq] this show ?thesis
    by (rule finishStateSync_cases) auto
qed

lemma saveReportState_cases:
  assumes "saveReportState env st s = (r, t)"
  obtains (ok) n n' where "r = Inr ()" "t = settled (fitState env st) (renamed env (fitState env st) s n) n'"
      "bsize env (json_state env (fitState env st)) \<le> stateLimit"
    | (unsync) m n where "r = Inl (Err m)" "t = renamed env (fitState env st) s n"
      "bsize env (json_state env (fitState env st)) \<le> stateLimit"
    | (err) m n where "r = Inl (Err m)" "t = s\<lparr>tick := n\<rparr>"
proof (cases r)
  case (Inr u)
  with assms ok show thesis
    by (auto simp: saveReportState_def bindE_Inr_iff fail_def Let_def
        split: if_splits dest!: fsop_cases writeTemp_cases finish_renamed)
next
  case (Inl e)
  with assms have "(\<exists>m n. r = Inl (Err m) \<and> t = renamed env (fitState env st) s n \<and>
        bsize env (json_state env (fitState env st)) \<le> stateLimit) \<or>
      (\<exists>m n. r = Inl (Err m) \<and> t = s\<lparr>tick := n\<rparr>)"
    by (auto simp: saveReportState_def bindE_Inl_iff fail_def Let_def
        split: if_splits dest!: fsop_cases writeTemp_cases finish_renamed)
  with unsync err show thesis by blast
qed

lemma renamed_fields [simp]:
  "outbox (renamed env st s n) = outbox s" "unsynced (renamed env st s n) = Some st"
  "disk (renamed env st s n) = Some (json_state env st)"
  "trace (renamed env st s n) = trace s @ [EvRename (json_state env st)]"
  "recovered (renamed env st s n) = recovered s" "committed (renamed env st s n) = committed s"
  "draining (renamed env st s n) = draining s" "drainSaved (renamed env st s n) = drainSaved s"
  "drainBase (renamed env st s n) = drainBase s" "runtime (renamed env st s n) = runtime s"
  "cache (renamed env st s n) = cache s" "lastTrafficUID (renamed env st s n) = lastTrafficUID s"
  "outboxPath (renamed env st s n) = outboxPath s"
  by (simp_all add: renamed_def)

lemma settled_fields [simp]:
  "outbox (settled st s n) = Some st" "unsynced (settled st s n) = None"
  "disk (settled st s n) = disk s" "trace (settled st s n) = trace s"
  "recovered (settled st s n) = (recovered s \<and> rs_Pending st \<noteq> None)"
  "committed (settled st s n) = (committed s \<and> rs_Pending st \<noteq> None)"
  "draining (settled st s n) = draining s" "drainSaved (settled st s n) = drainSaved s"
  "drainBase (settled st s n) = drainBase s" "runtime (settled st s n) = runtime s"
  "cache (settled st s n) = cache s" "lastTrafficUID (settled st s n) = lastTrafficUID s"
  "outboxPath (settled st s n) = outboxPath s"
  by (simp_all add: settled_def)

lemma fitState_fields [simp]:
  "rs_Version (fitState env st) = rs_Version st" "rs_Next (fitState env st) = rs_Next st"
  "rs_Pending (fitState env st) = rs_Pending st" "rs_Buffered (fitState env st) = rs_Buffered st"
  "rs_Failures (fitState env st) = rs_Failures st" "rs_Resolution (fitState env st) = rs_Resolution st"
  by (simp_all add: fitState_def)

lemma fitState_valid [simp]: "validReportState st \<Longrightarrow> validReportState (fitState env st)"
  by (auto simp: fitState_def valid_held_nil)

lemma valid_freshState [simp]: "n \<noteq> 0 \<Longrightarrow> validReportState (freshState n)"
  by (simp add: freshState_def validReportState_def validTrafficIsolation_def maxTrafficHolds_def)

end
