(* ===== verification/Outbox_Flush.thy ===== *)
theory Outbox_Flush
  imports Outbox_Store
begin

text \<open>
  The reporting side of the outbox: sending the pending batch, rebasing it after a proven
  sequence collision, isolating a batch whose fate cannot be proved, the bounded reporting
  round \<open>FlushTrafficLimit\<close> and the final drain \<open>PersistTraffic\<close>. The three callbacks of the
  runtime act on the part of the state they can reach: the cached ETags and the runtime.
\<close>

section \<open>Callbacks\<close>

record 'r hooks =
  capture :: "panelCache \<times> 'r \<Rightarrow> (goerr + UserTraffic list) \<times> (panelCache \<times> 'r)"
  commit :: "UserTraffic list \<Rightarrow> panelCache \<times> 'r \<Rightarrow> (goerr + unit) \<times> (panelCache \<times> 'r)"
  revoke :: "int list \<Rightarrow> panelCache \<times> 'r \<Rightarrow> (goerr + unit) \<times> (panelCache \<times> 'r)"

definition succeeded :: "'e + 'a \<Rightarrow> bool" where
  "succeeded r = (case r of Inl _ \<Rightarrow> False | Inr _ \<Rightarrow> True)"

definition callCapture ::
  "'r hooks \<Rightarrow> ('b, 'r) client \<Rightarrow> (goerr + UserTraffic list) \<times> ('b, 'r) client" where
  "callCapture hk s =
     (let (r, (c, rt)) = capture hk (cache s, runtime s) in (r, s\<lparr>cache := c, runtime := rt\<rparr>))"

definition callCommit ::
  "'r hooks \<Rightarrow> UserTraffic list \<Rightarrow> ('b, 'r) client \<Rightarrow> (goerr + unit) \<times> ('b, 'r) client" where
  "callCommit hk rows s =
     (let (r, (c, rt)) = commit hk rows (cache s, runtime s) in
      (r, s\<lparr>cache := c, runtime := rt, trace := trace s @ [EvCommit rows (succeeded r)]\<rparr>))"

definition callRevoke ::
  "'r hooks \<Rightarrow> int list \<Rightarrow> ('b, 'r) client \<Rightarrow> (goerr + unit) \<times> ('b, 'r) client" where
  "callRevoke hk ids s =
     (let (r, (c, rt)) = revoke hk ids (cache s, runtime s) in
      (r, s\<lparr>cache := c, runtime := rt, trace := trace s @ [EvRevoke ids (succeeded r)]\<rparr>))"

text \<open>The guarded commit that an acknowledgement and an isolation share.\<close>

definition commitOnce ::
  "'r hooks \<Rightarrow> trafficBatch \<Rightarrow> ('b, 'r) client \<Rightarrow> (goerr + unit) \<times> ('b, 'r) client" where
  "commitOnce hk batch s =
     (if \<not> committed s \<and> \<not> recovered s
      then bindE (callCommit hk (map user_of_row (batch_Rows batch)) s)
             (\<lambda>_ s. ok () (s\<lparr>committed := True\<rparr>))
      else ok () s)"

definition digestOf :: "'b env \<Rightarrow> trafficBatch \<Rightarrow> string" where
  "digestOf env b = sha256_hex env (json_batch env b)"

section \<open>Sending the pending batch once\<close>

definition ackedState :: "trafficBatch \<Rightarrow> reportState \<Rightarrow> int \<Rightarrow> reportState" where
  "ackedState batch ob now =
     \<lparr>rs_Version = 1, rs_Next = batch_Sequence batch + 1, rs_Pending = None,
      rs_Buffered = rs_Buffered ob, rs_Failures = 0, rs_Resolution = None,
      rs_Held = trimTrafficHolds (rs_Held ob) now\<rparr>"

definition finishAck ::
  "'b env \<Rightarrow> 'r hooks \<Rightarrow> reportState \<Rightarrow> trafficBatch \<Rightarrow> TrafficAck \<Rightarrow> ('b, 'r) client \<Rightarrow>
     (goerr + unit) \<times> ('b, 'r) client" where
  "finishAck env hk ob batch ack s =
     bindE (commitOnce hk batch s) (\<lambda>_ s.
     bindE (callRevoke hk (the (ack_Revoked ack)) s) (\<lambda>_ s.
       (let s = (if batch_Rows batch \<noteq> [] then s\<lparr>lastTrafficUID := row_UID (last (batch_Rows batch))\<rparr> else s);
            next = ackedState batch ob (env_now env (tick s)) in
        if rs_Next next = 0 then fail (Err ''report sequence overflow'') s
        else bindE (saveReportState env next s)
               (\<lambda>_ s. ok () (s\<lparr>recovered := False, committed := False\<rparr>)))))"

definition sendPendingOnce ::
  "'b env \<Rightarrow> 'r hooks \<Rightarrow> ('b, 'r) client \<Rightarrow> (goerr + unit) \<times> ('b, 'r) client" where
  "sendPendingOnce env hk s =
     (case outbox s of None \<Rightarrow> fail (Panic ''nil outbox'') s
      | Some ob \<Rightarrow>
        (case rs_Pending ob of None \<Rightarrow> ok () s
         | Some batch \<Rightarrow>
           (case request env ''POST'' ''traffic'' [] (Some (json_batch env batch)) s of
              (Inl e, s) \<Rightarrow> fail (Unconfirmed e) s
            | (Inr (response, _, _), s) \<Rightarrow>
              (case Option.bind response (unjson_ack env) of
                 None \<Rightarrow> fail (Unconfirmed (Wrap ''decode traffic acknowledgement'' (Err ''json''))) s
               | Some ack \<Rightarrow>
                 (case validateTrafficAck ack (batch_Sequence batch) (digestOf env batch) of
                    Some e \<Rightarrow> fail (Unconfirmed e) s
                  | None \<Rightarrow> finishAck env hk ob batch ack s)))))"

section \<open>Rebasing and isolating\<close>

definition rebasedState :: "trafficConflict \<Rightarrow> trafficBatch \<Rightarrow> reportState \<Rightarrow> reportState" where
  "rebasedState c batch ob =
     \<lparr>rs_Version = 1, rs_Next = conflict_Next c,
      rs_Pending = Some \<lparr>batch_Sequence = conflict_Next c, batch_Rows = batch_Rows batch\<rparr>,
      rs_Buffered = rs_Buffered ob, rs_Failures = rs_Failures ob, rs_Resolution = None,
      rs_Held = rs_Held ob\<rparr>"

definition rebaseTrafficConflict ::
  "'b env \<Rightarrow> trafficConflict \<Rightarrow> ('b, 'r) client \<Rightarrow> (goerr + unit) \<times> ('b, 'r) client" where
  "rebaseTrafficConflict env c s =
     (case outbox s of None \<Rightarrow> fail (Panic ''nil outbox'') s
      | Some ob \<Rightarrow>
        (case rs_Pending ob of None \<Rightarrow> fail (Conflict c) s
         | Some batch \<Rightarrow>
           (if committed s then fail (Conflict c) s
            else if \<not> canRebaseTraffic c (batch_Sequence batch) (digestOf env batch)
            then fail (Conflict c) s
            else saveReportState env (rebasedState c batch ob) s)))"

definition readTrafficCursor ::
  "'b env \<Rightarrow> ('b, 'r) client \<Rightarrow> (goerr + u64) \<times> ('b, 'r) client" where
  "readTrafficCursor env s =
     bindE (request env ''GET'' ''state'' [] None s) (\<lambda>(body, _, _) s.
       (case Option.bind body (unjson_cursor env) of
          None \<Rightarrow> fail (Err ''invalid isolation cursor'') s
        | Some (seqOpt, next, digest) \<Rightarrow>
            (case seqOpt of None \<Rightarrow> fail (Err ''invalid isolation cursor'') s
             | Some seq \<Rightarrow>
               (if next = 0 \<or> next > maxInt63 \<or> next \<noteq> seq + 1 \<or>
                   (seq > 0 \<and> \<not> validTrafficDigest digest) \<or> (seq = 0 \<and> digest \<noteq> [])
                then fail (Err ''invalid isolation cursor'') s
                else ok next s))))"

definition isolatedState :: "trafficBatch \<Rightarrow> trafficResolution \<Rightarrow> reportState \<Rightarrow> int \<Rightarrow> reportState" where
  "isolatedState batch res ob now =
     \<lparr>rs_Version = 1, rs_Next = res_Next res, rs_Pending = None, rs_Buffered = rs_Buffered ob,
      rs_Failures = 0, rs_Resolution = None,
      rs_Held = trimTrafficHolds (rs_Held ob @ [\<lparr>hold_At = res_At res, hold_Batch = Some batch\<rparr>]) now\<rparr>"

definition inactiveUIDs :: "UserInfo list \<Rightarrow> trafficRow list \<Rightarrow> int list" where
  "inactiveUIDs users rows = filter (\<lambda>uid. uid \<notin> set (map user_Id users)) (map row_UID rows)"

definition finishTrafficIsolation ::
  "'b env \<Rightarrow> 'r hooks \<Rightarrow> ('b, 'r) client \<Rightarrow> (goerr + unit) \<times> ('b, 'r) client" where
  "finishTrafficIsolation env hk s =
     (case outbox s of None \<Rightarrow> fail (Panic ''nil outbox'') s
      | Some ob \<Rightarrow>
        bindE (getUsers env [] (s\<lparr>cache := InvalidateUsers (cache s)\<rparr>)) (\<lambda>snapshot s.
          (case snapshot of
             None \<Rightarrow> fail (Err ''missing users while resolving traffic'') s
           | Some sn \<Rightarrow>
             (case (rs_Pending ob, rs_Resolution ob) of
                (Some batch, Some res) \<Rightarrow>
                  bindE (callRevoke hk (inactiveUIDs (snap_Users sn) (batch_Rows batch)) s) (\<lambda>_ s.
                  bindE (commitOnce hk batch s) (\<lambda>_ s.
                  bindE (saveReportState env (isolatedState batch res ob (env_now env (tick s))) s) (\<lambda>_ s.
                    if batch_Rows batch = [] then fail (Panic ''index out of range'') s
                    else ok () (s\<lparr>lastTrafficUID := row_UID (last (batch_Rows batch))\<rparr>))))
              | _ \<Rightarrow> fail (Panic ''nil batch or resolution'') s))))"

definition isolateTraffic ::
  "'b env \<Rightarrow> 'r hooks \<Rightarrow> u64 \<Rightarrow> ('b, 'r) client \<Rightarrow> (goerr + unit) \<times> ('b, 'r) client" where
  "isolateTraffic env hk next s =
     (case outbox s of None \<Rightarrow> fail (Panic ''nil outbox'') s
      | Some ob \<Rightarrow>
        bindE (saveReportState env
                 (ob\<lparr>rs_Resolution := Some \<lparr>res_Next = next, res_At = env_now env (tick s)\<rparr>\<rparr>) s)
          (\<lambda>_ s. finishTrafficIsolation env hk s))"

definition isolateAtCursor ::
  "'b env \<Rightarrow> 'r hooks \<Rightarrow> ('b, 'r) client \<Rightarrow> (goerr + unit) \<times> ('b, 'r) client" where
  "isolateAtCursor env hk s =
     (case readTrafficCursor env s of
        (Inl e, s) \<Rightarrow> fail (Wrap ''traffic unresolved; cannot confirm current panel cursor'' e) s
      | (Inr cursor, s) \<Rightarrow> isolateTraffic env hk cursor s)"

section \<open>Sending with retries\<close>

function sendAttempt ::
  "'b env \<Rightarrow> 'r hooks \<Rightarrow> nat \<Rightarrow> ('b, 'r) client \<Rightarrow> (goerr + unit) \<times> ('b, 'r) client" where
  "sendAttempt env hk attempt s =
     (case sendPendingOnce env hk s of
        (Inr _, s) \<Rightarrow> ok () s
      | (Inl err, s) \<Rightarrow>
        (if as_unconfirmed err = None then fail err s
         else (case outbox s of None \<Rightarrow> fail (Panic ''nil outbox'') s
           | Some ob \<Rightarrow>
             bindE (saveReportState env (ob\<lparr>rs_Failures := min (wrap64 (rs_Failures ob + 1)) 3\<rparr>) s) (\<lambda>_ s.
               (case outbox s of None \<Rightarrow> fail (Panic ''nil outbox'') s
                | Some ob \<Rightarrow>
                  (case as_conflict err of
                     Some c \<Rightarrow>
                       (if canIsolateTraffic c (rs_Pending ob) (digestOf env)
                        then isolateTraffic env hk (conflict_Next c) s
                        else if rs_Failures ob \<ge> 3
                        then isolateAtCursor env hk s
                        else if attempt \<noteq> 0 then fail err s
                        else bindE (rebaseTrafficConflict env c s) (\<lambda>_ s. sendAttempt env hk (Suc attempt) s))
                   | None \<Rightarrow>
                       (if rs_Failures ob \<ge> 3
                        then isolateAtCursor env hk s
                        else fail err s)))))))"
  by pat_completeness auto
termination
  by (relation "measure (\<lambda>(env, hk, attempt, s). 1 - attempt)") auto

declare sendAttempt.simps [simp del]

definition sendPending ::
  "'b env \<Rightarrow> 'r hooks \<Rightarrow> ('b, 'r) client \<Rightarrow> (goerr + unit) \<times> ('b, 'r) client" where
  "sendPending env hk s =
     (case outbox s of None \<Rightarrow> fail (Panic ''nil outbox'') s
      | Some ob \<Rightarrow>
        if rs_Resolution ob \<noteq> None then finishTrafficIsolation env hk s
        else sendAttempt env hk 0 s)"

section \<open>A successful send clears the pending batch and keeps the buffer\<close>

definition cleared :: "trafficRow list \<Rightarrow> ('b, 'r) client \<Rightarrow> bool" where
  "cleared buf s \<longleftrightarrow> (\<exists>ob. outbox s = Some ob \<and> rs_Pending ob = None \<and> rs_Buffered ob = buf)"

definition holds_buffer :: "trafficRow list \<Rightarrow> ('b, 'r) client \<Rightarrow> bool" where
  "holds_buffer buf s \<longleftrightarrow> (\<exists>ob. outbox s = Some ob \<and> rs_Buffered ob = buf)"

lemma callCommit_frame:
  assumes "callCommit hk rows s = (r, t)"
  shows "outbox t = outbox s" "unsynced t = unsynced s" "recovered t = recovered s"
    "committed t = committed s" "disk t = disk s" "draining t = draining s" "drainSaved t = drainSaved s"
    "drainBase t = drainBase s" "outboxPath t = outboxPath s"
    "trace t = trace s @ [EvCommit rows (succeeded r)]"
  using assms by (auto simp: callCommit_def split: prod.splits)

lemma callRevoke_frame:
  assumes "callRevoke hk ids s = (r, t)"
  shows "outbox t = outbox s" "unsynced t = unsynced s" "recovered t = recovered s"
    "committed t = committed s" "disk t = disk s" "draining t = draining s" "drainSaved t = drainSaved s"
    "drainBase t = drainBase s" "outboxPath t = outboxPath s"
    "trace t = trace s @ [EvRevoke ids (succeeded r)]"
  using assms by (auto simp: callRevoke_def split: prod.splits)

lemma commitOnce_outbox: "commitOnce hk batch s = (r, t) \<Longrightarrow> outbox t = outbox s"
  by (auto simp: commitOnce_def ok_def elim!: bindE_cases split: if_splits dest: callCommit_frame)

lemma request_frame:
  assumes "request env meth action etag body s = (r, t)"
  shows "outbox t = outbox s" "unsynced t = unsynced s" "recovered t = recovered s"
    "committed t = committed s" "disk t = disk s" "cache t = cache s" "runtime t = runtime s"
    "draining t = draining s" "drainSaved t = drainSaved s" "drainBase t = drainBase s" "outboxPath t = outboxPath s"
    "trace t = trace s @ [EvRequest meth action etag body (env_panel env (trace s) meth action etag body)]"
    "r = requestResult env meth action etag (env_panel env (trace s) meth action etag body)"
  using assms by (auto simp: request_def Let_def)

lemma save_outbox: "saveReportState env st s = (Inr u, t) \<Longrightarrow> outbox t = Some (fitState env st)"
  by (auto elim!: saveReportState_cases)

lemma finishAck_clears:
  "finishAck env hk ob batch ack s = (Inr u, t) \<Longrightarrow> cleared (rs_Buffered ob) t"
  by (auto simp: finishAck_def ok_def fail_def cleared_def ackedState_def Let_def
      elim!: bindE_cases split: if_splits dest!: save_outbox)

lemma sendPendingOnce_clears:
  "sendPendingOnce env hk s = (Inr u, t) \<Longrightarrow> holds_buffer buf s \<Longrightarrow> cleared buf t"
  by (auto simp: sendPendingOnce_def ok_def fail_def holds_buffer_def
      split: option.splits prod.splits sum.splits dest: finishAck_clears)
     (auto simp: cleared_def)

lemma save_error_outbox: "saveReportState env st s = (Inl e, t) \<Longrightarrow> outbox t = outbox s"
  by (auto elim!: saveReportState_cases)

lemma finishAck_error_outbox: "finishAck env hk ob batch ack s = (Inl e, t) \<Longrightarrow> outbox t = outbox s"
  by (auto simp: finishAck_def ok_def fail_def Let_def elim!: bindE_cases split: if_splits
      dest!: save_error_outbox commitOnce_outbox callRevoke_frame(1))

lemma sendPendingOnce_error_outbox: "sendPendingOnce env hk s = (Inl e, t) \<Longrightarrow> outbox t = outbox s"
  by (auto simp: sendPendingOnce_def ok_def fail_def
      split: option.splits prod.splits sum.splits dest!: finishAck_error_outbox request_frame(1))

lemma getUsers_outbox: "getUsers env etag s = (r, t) \<Longrightarrow> outbox t = outbox s"
  using only_trace_getUsers [of s env etag] by (auto dest: only_trace_fields)

lemma finishTrafficIsolation_clears:
  "finishTrafficIsolation env hk s = (Inr u, t) \<Longrightarrow> holds_buffer buf s \<Longrightarrow> cleared buf t"
  by (auto simp: finishTrafficIsolation_def ok_def fail_def cleared_def holds_buffer_def isolatedState_def
      elim!: bindE_cases split: option.splits if_splits dest!: save_outbox)

lemma isolateTraffic_clears:
  assumes iso: "isolateTraffic env hk next s = (Inr u, t)" and "holds_buffer buf s"
  shows "cleared buf t"
proof -
  from assms(2) obtain ob where ob: "outbox s = Some ob" "rs_Buffered ob = buf"
    by (auto simp: holds_buffer_def)
  from iso ob obtain s1 st where "saveReportState env st s = (Inr (), s1)" "rs_Buffered st = buf"
      and fin: "finishTrafficIsolation env hk s1 = (Inr u, t)"
    by (auto simp: isolateTraffic_def bindE_Inr_iff)
  then have "holds_buffer buf s1"
    by (auto simp: holds_buffer_def dest: save_outbox)
  with fin show ?thesis by (rule finishTrafficIsolation_clears)
qed

lemma readTrafficCursor_frame:
  assumes "readTrafficCursor env s = (r, t)"
  shows "t = snd (request env ''GET'' ''state'' [] None s)"
  using assms
  by (auto simp: readTrafficCursor_def ok_def fail_def bindE_def
      split: prod.splits sum.splits option.splits if_splits)

lemma isolateAtCursor_clears:
  assumes "isolateAtCursor env hk s = (Inr u, t)" and "holds_buffer buf s"
  shows "cleared buf t"
proof -
  obtain r s' where c: "readTrafficCursor env s = (r, s')" by fastforce
  then have "outbox s' = outbox s"
    by (auto dest!: readTrafficCursor_frame simp: request_def Let_def)
  with assms c isolateTraffic_clears [of env hk _ s' u t buf] show ?thesis
    by (auto simp: isolateAtCursor_def fail_def holds_buffer_def split: sum.splits)
qed

lemma rebase_buffer:
  "rebaseTrafficConflict env c s = (Inr u, t) \<Longrightarrow> holds_buffer buf s \<Longrightarrow> holds_buffer buf t"
  by (auto simp: rebaseTrafficConflict_def fail_def holds_buffer_def rebasedState_def
      split: option.splits if_splits dest!: save_outbox)

lemma sendAttempt_clears:
  "sendAttempt env hk attempt s = (Inr u, t) \<Longrightarrow> holds_buffer buf s \<Longrightarrow> cleared buf t"
proof (induction env hk attempt s rule: sendAttempt.induct)
  case (1 env hk attempt s)
  obtain r s1 where once: "sendPendingOnce env hk s = (r, s1)" by fastforce
  show ?case
  proof (cases r)
    case (Inr v)
    with 1 once show ?thesis
      by (auto simp: sendAttempt.simps [of env hk attempt s] ok_def dest: sendPendingOnce_clears)
  next
    case (Inl err)
    from 1(3) obtain ob where ob: "outbox s1 = Some ob" "rs_Buffered ob = buf"
      using once Inl by (auto simp: holds_buffer_def dest: sendPendingOnce_error_outbox)
    let ?st = "ob\<lparr>rs_Failures := min (wrap64 (rs_Failures ob + 1)) 3\<rparr>"
    obtain s2 where s2: "saveReportState env ?st s1 = (Inr (), s2)" "as_unconfirmed err \<noteq> None"
      using 1(2) once Inl ob
      by (auto simp: sendAttempt.simps [of env hk attempt s] fail_def bindE_Inr_iff split: if_splits)
    then have buf2: "holds_buffer buf s2" "outbox s2 = Some (fitState env ?st)"
      using ob by (auto simp: holds_buffer_def dest: save_outbox)
    note IH = 1(1) [OF once [symmetric] Inl s2(2) ob(1) s2(1) buf2(2)]
    show ?thesis
      using 1(2) once Inl ob s2 buf2 IH
      by (auto simp: sendAttempt.simps [of env hk attempt s] fail_def bindE_Inr_iff
          split: option.splits if_splits dest: isolateTraffic_clears isolateAtCursor_clears rebase_buffer)
  qed
qed

lemma sendPending_clears:
  "sendPending env hk s = (Inr u, t) \<Longrightarrow> holds_buffer buf s \<Longrightarrow> cleared buf t"
  by (auto simp: sendPending_def fail_def split: option.splits if_splits
      dest: finishTrafficIsolation_clears sendAttempt_clears)

section \<open>The reporting round\<close>

text \<open>
  The loop over the buffered rows of an earlier run. The result says whether the round goes on
  (\<open>Some\<close> of the remaining batch budget) or is over (\<open>None\<close>). It ends because a successful
  iteration leaves fewer buffered rows.
\<close>

definition pendingState :: "reportState \<Rightarrow> trafficRow list \<Rightarrow> trafficRow list \<Rightarrow> reportState" where
  "pendingState ob selected buffered =
     \<lparr>rs_Version = 1, rs_Next = rs_Next ob,
      rs_Pending = Some \<lparr>batch_Sequence = rs_Next ob, batch_Rows = selected\<rparr>,
      rs_Buffered = buffered, rs_Failures = 0, rs_Resolution = None, rs_Held = rs_Held ob\<rparr>"

definition bufferedLen :: "('b, 'r) client \<Rightarrow> nat" where
  "bufferedLen s = (case outbox s of None \<Rightarrow> 0 | Some ob \<Rightarrow> length (rs_Buffered ob))"

function flushBuffered ::
  "'b env \<Rightarrow> 'r hooks \<Rightarrow> int \<Rightarrow> ('b, 'r) client \<Rightarrow> (goerr + int option) \<times> ('b, 'r) client" where
  "flushBuffered env hk batches s =
     (case outbox s of None \<Rightarrow> fail (Panic ''nil outbox'') s
      | Some ob \<Rightarrow>
        (if rs_Buffered ob = [] then ok (Some batches) s
         else (case selectTrafficBatch (rs_Buffered ob) of
             Inl e \<Rightarrow> fail e s
           | Inr (selected, rest) \<Rightarrow>
             bindE (saveReportState env (pendingState ob selected rest) (s\<lparr>recovered := True\<rparr>)) (\<lambda>_ s.
             bindE (sendPending env hk s) (\<lambda>_ s.
               if batches > 0
               then (if batches - 1 = 0 then ok None s else flushBuffered env hk (batches - 1) s)
               else flushBuffered env hk batches s)))))"
  by pat_completeness auto

lemma buffered_decreases:
  assumes "outbox s = Some ob" "rs_Buffered ob \<noteq> []"
    "selectTrafficBatch (rs_Buffered ob) = Inr (selected, rest)"
    "saveReportState env (pendingState ob selected rest) s' = (Inr u, s1)"
    "sendPending env hk s1 = (Inr v, s2)"
  shows "bufferedLen s2 < bufferedLen s"
proof -
  have "holds_buffer rest s1"
    using assms(4) by (auto simp: holds_buffer_def pendingState_def dest!: save_outbox)
  with assms(5) have "cleared rest s2" by (rule sendPending_clears)
  moreover have "length rest < length (rs_Buffered ob)"
    using assms(3,2) by (rule select_batch_shorter)
  ultimately show ?thesis
    using assms(1) by (auto simp: cleared_def bufferedLen_def)
qed

termination flushBuffered
  by (relation "measure (\<lambda>(env, hk, batches, s). bufferedLen s)")
    (auto intro: buffered_decreases)

declare flushBuffered.simps [simp del]

function flushQueue ::
  "'b env \<Rightarrow> 'r hooks \<Rightarrow> int \<Rightarrow> trafficRow list \<Rightarrow> ('b, 'r) client \<Rightarrow> (goerr + unit) \<times> ('b, 'r) client" where
  "flushQueue env hk batches queued s =
     (if queued = [] then ok () s
      else (case env_ctx env (tick s) of
          Some e \<Rightarrow> fail e s
        | None \<Rightarrow>
          (case selectTrafficBatch queued of
             Inl e \<Rightarrow> fail e s
           | Inr (selected, rest) \<Rightarrow>
             (case outbox s of None \<Rightarrow> fail (Panic ''nil outbox'') s
              | Some ob \<Rightarrow>
                bindE (saveReportState env (pendingState ob selected []) s) (\<lambda>_ s.
                bindE (sendPending env hk s) (\<lambda>_ s.
                  if batches > 0
                  then (if batches - 1 = 0 then ok () s else flushQueue env hk (batches - 1) rest s)
                  else flushQueue env hk batches rest s))))))"
  by pat_completeness auto
termination
  by (relation "measure (\<lambda>(env, hk, batches, queued, s). length queued)")
    (auto dest: select_batch_shorter)

declare flushQueue.simps [simp del]

text \<open>\<open>sort.Search(n, f)\<close>: the binary search of Go's library.\<close>

function searchLoop :: "(nat \<Rightarrow> bool) \<Rightarrow> nat \<Rightarrow> nat \<Rightarrow> nat" where
  "searchLoop f i j =
     (if i < j then (let h = (i + j) div 2 in if \<not> f h then searchLoop f (h + 1) j else searchLoop f i h)
      else i)"
  by pat_completeness auto
termination
  by (relation "measure (\<lambda>(f, i, j). j - i)") auto

declare searchLoop.simps [simp del]

definition sortSearch :: "nat \<Rightarrow> (nat \<Rightarrow> bool) \<Rightarrow> nat" where
  "sortSearch n f = searchLoop f 0 n"

text \<open>The captured rows in the order in which a round reports them.\<close>

definition rotateRows :: "int \<Rightarrow> UserTraffic list \<Rightarrow> UserTraffic list" where
  "rotateRows lastUID rows =
     (let rows = sort_key ut_UID rows;
          pivot = sortSearch (length rows) (\<lambda>i. ut_UID (rows ! i) > lastUID)
      in drop pivot rows @ take pivot rows)"

definition flushCaptured ::
  "'b env \<Rightarrow> 'r hooks \<Rightarrow> int \<Rightarrow> ('b, 'r) client \<Rightarrow> (goerr + unit) \<times> ('b, 'r) client" where
  "flushCaptured env hk batches s =
     bindE (callCapture hk s) (\<lambda>rows s.
       flushQueue env hk batches (map row_of_user (rotateRows (lastTrafficUID s) rows)) s)"

definition acquireLock :: "'b env \<Rightarrow> string \<Rightarrow> ('b, 'r) client \<Rightarrow> (goerr + unit) \<times> ('b, 'r) client" where
  "acquireLock env busy s =
     (let t = s\<lparr>tick := Suc (tick s)\<rparr> in
      (case env_lock env (tick s) of
         Inl e \<Rightarrow> fail e t
       | Inr locked \<Rightarrow> (if \<not> locked then fail (Err busy) t else ok () t)))"

definition FlushTrafficLimit ::
  "'b env \<Rightarrow> 'r hooks \<Rightarrow> int \<Rightarrow> ('b, 'r) client \<Rightarrow> (goerr + unit) \<times> ('b, 'r) client" where
  "FlushTrafficLimit env hk batches s =
     (if draining s then fail (Err ''traffic outbox is draining'') s
      else if outboxPath s = [] then fail (Err ''traffic state path is required'') s
      else bindE (fsop env s) (\<lambda>_ s.
        bindE (acquireLock env ''traffic state is already in use'' s) (\<lambda>_ s.
        bindE (loadReportState env s) (\<lambda>_ s.
          (case outbox s of None \<Rightarrow> fail (Panic ''nil outbox'') s
           | Some ob \<Rightarrow>
             bindE (sendPending env hk s) (\<lambda>_ s.
               (let counted = rs_Pending ob \<noteq> None \<and> batches > 0;
                    batches' = (if counted then batches - 1 else batches) in
                if counted \<and> batches' = 0 then ok () s
                else bindE (flushBuffered env hk batches' s) (\<lambda>more s.
                  (case more of None \<Rightarrow> ok () s
                   | Some n \<Rightarrow> flushCaptured env hk n s)))))))))"

definition FlushTraffic ::
  "'b env \<Rightarrow> 'r hooks \<Rightarrow> ('b, 'r) client \<Rightarrow> (goerr + unit) \<times> ('b, 'r) client" where
  "FlushTraffic env hk s = FlushTrafficLimit env hk 0 s"

section \<open>The final drain\<close>

fun subtractPending :: "trafficRow list \<Rightarrow> UserTraffic \<Rightarrow> UserTraffic" where
  "subtractPending [] r = r"
| "subtractPending (p # ps) r =
     subtractPending ps
       (if ut_UUID r = row_UUID p \<and> ut_UID r = row_UID p
        then r\<lparr>ut_Upload := wrap64 (ut_Upload r - row_Upload p),
               ut_Download := wrap64 (ut_Download r - row_Download p)\<rparr>
        else r)"

fun drainRows :: "trafficRow list \<Rightarrow> UserTraffic list \<Rightarrow> trafficRow list \<Rightarrow> goerr + trafficRow list" where
  "drainRows overlap [] buffer = Inr buffer"
| "drainRows overlap (r # rs) buffer =
     (let r = subtractPending overlap r in
      if ut_UID r \<le> 0 \<or> ut_Upload r < 0 \<or> ut_Download r < 0 then Inl (Err ''inconsistent final counters'')
      else if wrap64 (ut_Upload r + ut_Download r) > 0
      then drainRows overlap rs (buffer @ [\<lparr>row_UID = ut_UID r, row_Upload = ut_Upload r,
             row_Download = ut_Download r, row_UUID = []\<rparr>])
      else drainRows overlap rs buffer)"

definition persistRows :: "'b env \<Rightarrow> 'r hooks \<Rightarrow> ('b, 'r) client \<Rightarrow> (goerr + unit) \<times> ('b, 'r) client" where
  "persistRows env hk s =
     bindE (callCapture hk s) (\<lambda>rows s.
       (case outbox s of None \<Rightarrow> fail (Panic ''nil outbox'') s
        | Some ob \<Rightarrow>
          (let overlap = (case rs_Pending ob of None \<Rightarrow> []
                 | Some b \<Rightarrow> if \<not> committed s \<and> \<not> recovered s then batch_Rows b else []) in
           (case drainRows overlap rows (drainBase s) of
              Inl e \<Rightarrow> fail e s
            | Inr buffer \<Rightarrow>
              (if length buffer > 200000 then fail (Err ''final accounting exceeds bounded outbox'') s
               else bindE (saveReportState env (ob\<lparr>rs_Buffered := buffer\<rparr>) s)
                      (\<lambda>_ s. ok () (s\<lparr>drainSaved := True\<rparr>)))))))"

definition PersistTraffic ::
  "'b env \<Rightarrow> 'r hooks \<Rightarrow> ('b, 'r) client \<Rightarrow> (goerr + unit) \<times> ('b, 'r) client" where
  "PersistTraffic env hk s =
     (if outboxPath s = [] then fail (Err ''traffic state path is required'') s
      else bindE (acquireLock env ''traffic state busy'' s) (\<lambda>_ s.
        bindE (loadReportState env s) (\<lambda>_ s.
          if drainSaved s then ok () s
          else (case outbox s of None \<Rightarrow> fail (Panic ''nil outbox'') s
            | Some ob \<Rightarrow>
              persistRows env hk
                (if draining s then s else s\<lparr>drainBase := rs_Buffered ob, draining := True\<rparr>)))))"

end
