(* ===== verification/Outbox_Safety.thy ===== *)
theory Outbox_Safety
  imports Outbox_Flush
begin

text \<open>
  Safety of the outbox. A monitor reads the history of visible effects (requests, renames of
  the state file, commits, revocations) and checks the write-ahead discipline; an invariant
  ties the client's fields to the monitor's state, and every operation of the client preserves
  it, whatever the panel, the file system and the callbacks do.
\<close>

section \<open>What the environment is assumed to do\<close>

text \<open>
  The JSON codec of the state file reads back what it wrote, except for the row UUIDs, which
  are not part of a document.
\<close>

definition codec_ok :: "'b env \<Rightarrow> bool" where
  "codec_ok env \<longleftrightarrow>
     (\<forall>st. unjson_state env (json_state env st) = Some (strip_state st)) \<and>
     (\<forall>b st. unjson_state env b = Some st \<longrightarrow> strip_state st = st) \<and>
     (\<forall>st. json_state env (strip_state st) = json_state env st) \<and>
     (\<forall>b. json_batch env (strip_batch b) = json_batch env b)"

definition clock_ok :: "'b env \<Rightarrow> bool" where
  "clock_ok env \<longleftrightarrow> (\<forall>n. env_now env n > 0)"

fun panics :: "goerr \<Rightarrow> bool" where
  "panics (Panic _) = True"
| "panics (Wrap _ e) = panics e"
| "panics (Unconfirmed e) = panics e"
| "panics _ = False"

definition ctx_ok :: "'b env \<Rightarrow> bool" where
  "ctx_ok env \<longleftrightarrow> (\<forall>n e. env_ctx env n = Some e \<longrightarrow> \<not> panics e) \<and> (\<forall>n e. env_lock env n = Inl e \<longrightarrow> \<not> panics e)"

text \<open>A callback fails with an error of its own: no panic, no error of the outbox's types.\<close>

definition plain_error :: "goerr + 'a \<Rightarrow> bool" where
  "plain_error r \<longleftrightarrow> (case r of Inl e \<Rightarrow> \<not> panics e \<and> as_unconfirmed e = None | Inr _ \<Rightarrow> True)"

definition hooks_ok :: "'r hooks \<Rightarrow> bool" where
  "hooks_ok hk \<longleftrightarrow>
     (\<forall>x. plain_error (fst (capture hk x))) \<and> (\<forall>rows x. plain_error (fst (commit hk rows x))) \<and>
     (\<forall>ids x. plain_error (fst (revoke hk ids x)))"

section \<open>The monitor\<close>

record 'b monitor =
  m_disk :: "'b option"
  m_acked :: bool
  m_owed :: "int list option"
  m_rebase :: "u64 option"
  m_own :: bool
  m_done :: bool
  m_ok :: bool

definition diskState :: "'b env \<Rightarrow> 'b option \<Rightarrow> reportState option" where
  "diskState env d = Option.bind d (unjson_state env)"

definition diskPending :: "'b env \<Rightarrow> 'b option \<Rightarrow> trafficBatch option" where
  "diskPending env d = Option.bind (diskState env d) rs_Pending"

definition diskResolved :: "'b env \<Rightarrow> 'b option \<Rightarrow> bool" where
  "diskResolved env d \<longleftrightarrow> Option.bind (diskState env d) rs_Resolution \<noteq> None"

text \<open>A reply that proves the batch accepted, with the revocations it carries.\<close>

definition ackOf :: "'b env \<Rightarrow> trafficBatch \<Rightarrow> 'b transport \<Rightarrow> TrafficAck option" where
  "ackOf env b reply =
     (case requestResult env ''POST'' ''traffic'' [] reply of
        Inr (d, _, _) \<Rightarrow>
          (case Option.bind d (unjson_ack env) of
             Some ack \<Rightarrow>
               (if validateTrafficAck ack (batch_Sequence b) (digestOf env b) = None then Some ack else None)
           | None \<Rightarrow> None)
      | Inl _ \<Rightarrow> None)"

text \<open>A reply that proves that another batch took the sequence number: the next free number.\<close>

definition rebaseOf :: "'b env \<Rightarrow> trafficBatch \<Rightarrow> 'b transport \<Rightarrow> u64 option" where
  "rebaseOf env b reply =
     (case requestResult env ''POST'' ''traffic'' [] reply of
        Inl (Conflict c) \<Rightarrow>
          (if canRebaseTraffic c (batch_Sequence b) (digestOf env b) then Some (conflict_Next c) else None)
      | _ \<Rightarrow> None)"

definition live_rows :: "reportState \<Rightarrow> trafficRow list" where
  "live_rows st = (case rs_Pending st of None \<Rightarrow> [] | Some b \<Rightarrow> batch_Rows b) @ rs_Buffered st"

text \<open>
  May the state \<open>old\<close> be replaced by \<open>new\<close>? Rows in flight never change; they get another
  sequence number only after a proof of collision and before they were committed; they are
  given up only after an acknowledgement whose revocations were applied, or after the decision
  to isolate them was stored. With \<open>strict\<close>, no row that is not given up disappears.
\<close>

definition pending_ok :: "'b monitor \<Rightarrow> reportState \<Rightarrow> reportState \<Rightarrow> bool" where
  "pending_ok m old new \<longleftrightarrow>
     (case rs_Pending old of None \<Rightarrow> True
      | Some b \<Rightarrow>
          (case rs_Pending new of
             Some b' \<Rightarrow> batch_Rows b' = batch_Rows b \<and>
               (batch_Sequence b' = batch_Sequence b \<or>
                (m_rebase m = Some (batch_Sequence b') \<and> \<not> m_done m))
           | None \<Rightarrow> (m_acked m \<and> m_owed m = None) \<or> rs_Resolution old \<noteq> None))"

definition rows_ok :: "reportState \<Rightarrow> reportState \<Rightarrow> bool" where
  "rows_ok old new \<longleftrightarrow>
     (case (rs_Pending old, rs_Pending new) of
        (Some b, None) \<Rightarrow> mset (rs_Buffered old) \<subseteq># mset (live_rows new)
      | _ \<Rightarrow> mset (live_rows old) \<subseteq># mset (live_rows new))"

definition replace_ok :: "bool \<Rightarrow> 'b monitor \<Rightarrow> reportState \<Rightarrow> reportState \<Rightarrow> bool" where
  "replace_ok strict m old new \<longleftrightarrow> pending_ok m old new \<and> (strict \<longrightarrow> rows_ok old new)"

definition mon_request :: "'b env \<Rightarrow> 'b option \<Rightarrow> 'b transport \<Rightarrow> 'b monitor \<Rightarrow> 'b monitor" where
  "mon_request env body reply m =
     (case diskPending env (m_disk m) of
        None \<Rightarrow> m\<lparr>m_ok := False\<rparr>
      | Some b \<Rightarrow>
          m\<lparr>m_ok := m_ok m \<and> body = Some (json_batch env b),
            m_acked := m_acked m \<or> ackOf env b reply \<noteq> None,
            m_owed := (case ackOf env b reply of None \<Rightarrow> m_owed m | Some ack \<Rightarrow> ack_Revoked ack),
            m_rebase := rebaseOf env b reply\<rparr>)"

definition mon_rename :: "'b env \<Rightarrow> bool \<Rightarrow> 'b \<Rightarrow> 'b monitor \<Rightarrow> 'b monitor" where
  "mon_rename env strict d m =
     (let same = diskPending env (Some d) = diskPending env (m_disk m) in
      m\<lparr>m_disk := Some d,
        m_ok := m_ok m \<and>
          (case unjson_state env d of None \<Rightarrow> False
           | Some new \<Rightarrow> validReportState new \<and> bsize env d \<le> stateLimit \<and>
               (case diskState env (m_disk m) of None \<Rightarrow> m_disk m = None
                | Some old \<Rightarrow> replace_ok strict m old new)),
        m_acked := m_acked m \<and> same,
        m_owed := (if same then m_owed m else None),
        m_rebase := (if same then m_rebase m else None),
        m_own := (case (diskState env (m_disk m), unjson_state env d) of
            (Some old, Some new) \<Rightarrow>
              (if rs_Pending old = None then rs_Buffered new = rs_Buffered old else m_own m)
          | _ \<Rightarrow> m_own m),
        m_done := m_done m \<and> diskPending env (Some d) \<noteq> None\<rparr>)"

definition mon_commit :: "'b env \<Rightarrow> UserTraffic list \<Rightarrow> bool \<Rightarrow> 'b monitor \<Rightarrow> 'b monitor" where
  "mon_commit env rows success m =
     m\<lparr>m_ok := m_ok m \<and>
         (case diskPending env (m_disk m) of None \<Rightarrow> False
          | Some b \<Rightarrow> map (strip_row \<circ> row_of_user) rows = batch_Rows b \<and> m_own m \<and> \<not> m_done m \<and>
              (m_acked m \<or> diskResolved env (m_disk m))),
       m_done := m_done m \<or> success\<rparr>"

fun mon_step :: "'b env \<Rightarrow> bool \<Rightarrow> 'b monitor \<Rightarrow> 'b event \<Rightarrow> 'b monitor" where
  "mon_step env strict m (EvRequest meth action etag body reply) =
     (if meth = ''POST'' \<and> action = ''traffic'' then mon_request env body reply m else m)"
| "mon_step env strict m (EvRename d) = mon_rename env strict d m"
| "mon_step env strict m (EvCommit rows success) = mon_commit env rows success m"
| "mon_step env strict m (EvRevoke ids success) =
     (if success \<and> m_owed m = Some ids then m\<lparr>m_owed := None\<rparr> else m)"

definition monitor_run :: "'b env \<Rightarrow> bool \<Rightarrow> 'b monitor \<Rightarrow> 'b event list \<Rightarrow> 'b monitor" where
  "monitor_run env strict m tr = foldl (mon_step env strict) m tr"

definition mon_start :: "'b option \<Rightarrow> 'b monitor" where
  "mon_start d = \<lparr>m_disk = d, m_acked = False, m_owed = None, m_rebase = None, m_own = False,
     m_done = False, m_ok = True\<rparr>"

lemma monitor_run_simps [simp]:
  "monitor_run env strict m [] = m"
  "monitor_run env strict m (tr @ [e]) = mon_step env strict (monitor_run env strict m tr) e"
  by (simp_all add: monitor_run_def)

lemma mon_step_ok: "m_ok (mon_step env strict m e) \<Longrightarrow> m_ok m"
  by (cases e) (auto simp: mon_request_def mon_rename_def mon_commit_def Let_def split: if_splits option.splits)

lemma monitor_run_prefix_ok: "m_ok (monitor_run env strict m (tr @ tr')) \<Longrightarrow> m_ok (monitor_run env strict m tr)"
  by (induction tr' rule: rev_induct) (auto simp flip: append_assoc dest: mon_step_ok)

section \<open>The invariant\<close>

abbreviation mon :: "'b env \<Rightarrow> bool \<Rightarrow> 'b option \<Rightarrow> ('b, 'r) client \<Rightarrow> 'b monitor" where
  "mon env strict d0 s \<equiv> monitor_run env strict (mon_start d0) (trace s)"

definition outbox_inv :: "'b env \<Rightarrow> bool \<Rightarrow> 'b option \<Rightarrow> ('b, 'r) client \<Rightarrow> bool" where
  "outbox_inv env strict d0 s \<longleftrightarrow>
     m_ok (mon env strict d0 s) \<and> m_disk (mon env strict d0 s) = disk s \<and>
     (m_done (mon env strict d0 s) \<longrightarrow> committed s \<and> diskPending env (disk s) \<noteq> None) \<and>
     (diskPending env (disk s) \<noteq> None \<and> outbox s \<noteq> None \<and> \<not> recovered s \<longrightarrow> m_own (mon env strict d0 s)) \<and>
     (outbox s = None \<longrightarrow> \<not> committed s \<and> (\<forall>u. unsynced s = Some u \<longrightarrow> rs_Pending u = None)) \<and>
     (\<forall>u. unsynced s = Some u \<longrightarrow> disk s = Some (json_state env u) \<and> validReportState u) \<and>
     (\<forall>ob. outbox s = Some ob \<longrightarrow> validReportState ob \<and>
        (rs_Pending ob = None \<longrightarrow> \<not> committed s \<and> (recovered s \<and> \<not> draining s \<longrightarrow> rs_Buffered ob \<noteq> [])) \<and>
        (unsynced s = None \<longrightarrow> diskState env (disk s) = Some (strip_state ob)))"

definition ready :: "'b env \<Rightarrow> bool \<Rightarrow> 'b option \<Rightarrow> reportState \<Rightarrow> ('b, 'r) client \<Rightarrow> bool" where
  "ready env strict d0 ob s \<longleftrightarrow> outbox_inv env strict d0 s \<and> unsynced s = None \<and> outbox s = Some ob"

text \<open>The result of a step: the invariant, and an error that is neither a panic nor an
  unconfirmed delivery.\<close>

definition kept :: "'b env \<Rightarrow> bool \<Rightarrow> 'b option \<Rightarrow> (goerr + 'a) \<times> ('b, 'r) client \<Rightarrow> bool" where
  "kept env strict d0 x \<longleftrightarrow>
     outbox_inv env strict d0 (snd x) \<and> plain_error (fst x) \<and>
     (succeeded (fst x) \<longrightarrow> (\<exists>ob. ready env strict d0 ob (snd x)))"

lemma plain_error_simps [simp]:
  "plain_error (Inr a)" "plain_error (Inl e) \<longleftrightarrow> \<not> panics e \<and> as_unconfirmed e = None"
  by (simp_all add: plain_error_def)

lemma succeeded_simps [simp]: "succeeded (Inr a)" "\<not> succeeded (Inl e)"
  by (simp_all add: succeeded_def)

lemma unjson_json [simp]:
  "codec_ok env \<Longrightarrow> unjson_state env (json_state env st) = Some (strip_state st)"
  "codec_ok env \<Longrightarrow> json_state env (strip_state st) = json_state env st"
  "codec_ok env \<Longrightarrow> json_batch env (strip_batch batch) = json_batch env batch"
  by (auto simp: codec_ok_def)

lemma unjson_stripped: "codec_ok env \<Longrightarrow> unjson_state env b = Some st \<Longrightarrow> strip_state st = st"
  unfolding codec_ok_def by blast

lemma digestOf_strip [simp]: "codec_ok env \<Longrightarrow> digestOf env (strip_batch b) = digestOf env b"
  by (simp add: digestOf_def)

lemma disk_simps [simp]:
  "diskState env None = None" "diskState env (Some b) = unjson_state env b"
  by (simp_all add: diskState_def)

lemma ready_disk:
  assumes "ready env strict d0 ob s"
  shows "diskState env (disk s) = Some (strip_state ob)"
    "diskPending env (disk s) = map_option strip_batch (rs_Pending ob)"
    "diskResolved env (disk s) \<longleftrightarrow> rs_Resolution ob \<noteq> None"
    "m_disk (mon env strict d0 s) = disk s" "validReportState ob"
  using assms by (auto simp: ready_def outbox_inv_def diskPending_def diskResolved_def)

lemma ready_facts:
  assumes "ready env strict d0 ob s"
  shows "outbox s = Some ob" "unsynced s = None" "m_ok (mon env strict d0 s)"
    "m_done (mon env strict d0 s) \<Longrightarrow> committed s" "m_done (mon env strict d0 s) \<Longrightarrow> rs_Pending ob \<noteq> None"
    "rs_Pending ob \<noteq> None \<Longrightarrow> \<not> recovered s \<Longrightarrow> m_own (mon env strict d0 s)"
    "rs_Pending ob = None \<Longrightarrow> \<not> committed s"
    "rs_Pending ob = None \<Longrightarrow> recovered s \<Longrightarrow> \<not> draining s \<Longrightarrow> rs_Buffered ob \<noteq> []"
  using assms by (auto simp: ready_def outbox_inv_def diskPending_def)

lemma readyI:
  assumes "outbox t = Some ob" "unsynced t = None" "m_ok (mon env strict d0 t)"
    "m_disk (mon env strict d0 t) = disk t" "diskState env (disk t) = Some (strip_state ob)" "validReportState ob"
    "m_done (mon env strict d0 t) \<Longrightarrow> committed t \<and> rs_Pending ob \<noteq> None"
    "rs_Pending ob \<noteq> None \<Longrightarrow> \<not> recovered t \<Longrightarrow> m_own (mon env strict d0 t)"
    "rs_Pending ob = None \<Longrightarrow> \<not> committed t \<and> (recovered t \<and> \<not> draining t \<longrightarrow> rs_Buffered ob \<noteq> [])"
  shows "ready env strict d0 ob t"
  using assms unfolding ready_def outbox_inv_def diskPending_def
  by (simp split: option.splits)

lemma mset_strip: "mset xs \<subseteq># mset ys \<Longrightarrow> mset (map strip_row xs) \<subseteq># mset (map strip_row ys)"
  by (simp add: image_mset_subseteq_mono)

lemma live_rows_strip [simp]: "live_rows (strip_state st) = map strip_row (live_rows st)"
  by (auto simp: live_rows_def split: option.splits)

lemma replace_ok_strip:
  "replace_ok strict m old new \<Longrightarrow> replace_ok strict m (strip_state old) (strip_state new)"
  using mset_strip [of "live_rows old" "live_rows new"] mset_strip [of "rs_Buffered old" "live_rows new"]
  by (auto simp: replace_ok_def pending_ok_def rows_ok_def split: option.splits)

lemma live_rows_fit [simp]: "live_rows (fitState env st) = live_rows st"
  by (simp add: live_rows_def)

lemma replace_ok_fit [simp]: "replace_ok strict m old (fitState env new) = replace_ok strict m old new"
  by (simp add: replace_ok_def pending_ok_def rows_ok_def split: option.split)

lemma outbox_inv_tick [simp]: "outbox_inv env strict d0 (s\<lparr>tick := n\<rparr>) = outbox_inv env strict d0 s"
  by (simp add: outbox_inv_def)

lemma ready_tick [simp]: "ready env strict d0 ob (s\<lparr>tick := n\<rparr>) = ready env strict d0 ob s"
  by (simp add: ready_def)

section \<open>A save preserves the invariant\<close>

lemma mon_rename_fields:
  assumes codec: "codec_ok env" and old: "diskState env (m_disk m) = Some (strip_state ob)"
  shows "m_disk (mon_rename env strict (json_state env st) m) = Some (json_state env st)"
    "m_ok (mon_rename env strict (json_state env st) m) \<longleftrightarrow>
       m_ok m \<and> validReportState st \<and> bsize env (json_state env st) \<le> stateLimit \<and> replace_ok strict m (strip_state ob) (strip_state st)"
    "m_own (mon_rename env strict (json_state env st) m) \<longleftrightarrow>
       (if rs_Pending ob = None then map strip_row (rs_Buffered st) = map strip_row (rs_Buffered ob) else m_own m)"
    "m_done (mon_rename env strict (json_state env st) m) \<longleftrightarrow> m_done m \<and> rs_Pending st \<noteq> None"
    "rs_Pending st = rs_Pending ob \<Longrightarrow> m_acked (mon_rename env strict (json_state env st) m) = m_acked m"
    "rs_Pending st = rs_Pending ob \<Longrightarrow> m_owed (mon_rename env strict (json_state env st) m) = m_owed m"
    "rs_Pending st = rs_Pending ob \<Longrightarrow> m_rebase (mon_rename env strict (json_state env st) m) = m_rebase m"
  using assms by (simp_all add: mon_rename_def Let_def diskPending_def)

text \<open>A new pending batch that does not come out of the buffer belongs to this process.\<close>

definition owner_ok :: "('b, 'r) client \<Rightarrow> reportState \<Rightarrow> reportState \<Rightarrow> bool" where
  "owner_ok s ob st \<longleftrightarrow>
     (rs_Pending ob = None \<and> rs_Pending st \<noteq> None \<longrightarrow> recovered s \<or> rs_Buffered st = rs_Buffered ob)"

lemma renamed_inv:
  assumes codec: "codec_ok env" and ready: "ready env strict d0 ob s"
    and valid: "validReportState st" and repl: "replace_ok strict (mon env strict d0 s) ob st"
    and own: "owner_ok s ob st" and size: "bsize env (json_state env st) \<le> stateLimit"
  shows "outbox_inv env strict d0 (renamed env st s n)"
proof -
  note d = ready_disk [OF ready]
  have disk: "diskState env (m_disk (mon env strict d0 s)) = Some (strip_state ob)"
    using d by simp
  note m = mon_rename_fields [OF codec disk]
  have inv: "outbox_inv env strict d0 s" "unsynced s = None" "outbox s = Some ob"
    using ready by (simp_all add: ready_def)
  have "m_own (mon env strict d0 s)" if "rs_Pending ob \<noteq> None" "\<not> recovered s"
    using inv d(2) that by (simp add: outbox_inv_def)
  moreover have "diskPending env (Some (json_state env st)) = map_option strip_batch (rs_Pending st)"
    using codec by (simp add: diskPending_def)
  ultimately show ?thesis
    using inv valid own size replace_ok_strip [OF repl]
    unfolding outbox_inv_def owner_ok_def
    by (simp add: m) auto
qed

lemma settled_ready:
  assumes "outbox_inv env strict d0 s" and "unsynced s = Some u" and "codec_ok env"
  shows "ready env strict d0 u (settled u s n)"
  using assms by (cases "outbox s") (auto simp: outbox_inv_def ready_def diskPending_def)

lemma save_kept:
  assumes "codec_ok env" and "ready env strict d0 ob s"
    and "validReportState st" and "replace_ok strict (mon env strict d0 s) ob st"
    and "owner_ok s ob st" and "saveReportState env st s = (r, t)"
  shows "kept env strict d0 (r, t)"
proof -
  have inv: "outbox_inv env strict d0 (renamed env (fitState env st) s n)"
    if "bsize env (json_state env (fitState env st)) \<le> stateLimit" for n
    using assms that by (intro renamed_inv) (auto simp: owner_ok_def)
  from assms(6) show ?thesis
  proof (cases rule: saveReportState_cases)
    case (ok n n')
    have "ready env strict d0 (fitState env st) (settled (fitState env st) (renamed env (fitState env st) s n) n')"
      using ok(3) by (intro settled_ready [OF inv]) (simp_all add: assms(1))
    with ok show ?thesis by (auto simp: kept_def ready_def)
  next
    case (unsync m n)
    with inv show ?thesis by (simp add: kept_def)
  next
    case (err m n)
    with assms(2) show ?thesis by (simp add: kept_def ready_def)
  qed
qed

section \<open>Loading preserves the invariant\<close>

definition other_request :: "string \<Rightarrow> string \<Rightarrow> bool" where
  "other_request meth action \<longleftrightarrow> \<not> (meth = ''POST'' \<and> action = ''traffic'')"

lemma mon_other_request:
  "request env meth action etag body s = (r, t) \<Longrightarrow> other_request meth action \<Longrightarrow>
     mon env strict d0 t = mon env strict d0 s"
  by (auto simp: request_frame other_request_def)

lemma other_request_inv:
  assumes "request env meth action etag body s = (r, t)" "other_request meth action"
  shows "outbox_inv env strict d0 t = outbox_inv env strict d0 s"
  using mon_other_request [OF assms, of strict d0] request_frame [OF assms(1)]
  by (simp add: outbox_inv_def)

lemma requestResult_plain: "plain_error (requestResult env meth action etag reply)"
  by (auto simp: requestResult_def decodeTrafficConflict_def plain_error_def Let_def
      split: transport.splits if_splits option.splits sum.splits)

lemma request_plain: "request env meth action etag body s = (r, t) \<Longrightarrow> plain_error r"
  using request_frame(13) [of env meth action etag body s r t] by (simp add: requestResult_plain)

lemma renamed_fresh:
  assumes "codec_ok env" "outbox_inv env strict d0 s" "outbox s = None" "disk s = None" "n \<noteq> 0"
    "bsize env (json_state env (freshState n)) \<le> stateLimit"
  shows "outbox_inv env strict d0 (renamed env (freshState n) s k)"
proof -
  have "\<not> m_done (mon env strict d0 s)"
    using assms by (auto simp: outbox_inv_def)
  then show ?thesis
    using assms by (auto simp: outbox_inv_def mon_rename_def Let_def freshState_def [of n])
      (auto simp: freshState_def [symmetric])
qed

lemma save_fresh_kept:
  assumes "codec_ok env" "outbox_inv env strict d0 s" "outbox s = None" "disk s = None" "n \<noteq> 0"
    "saveReportState env (freshState n) s = (r, t)"
  shows "kept env strict d0 (r, t)"
proof -
  have fit: "fitState env (freshState n) = freshState n"
    by (simp add: fitState_def freshState_def)
  note inv = renamed_fresh [OF assms(1-5)]
  from assms(6) show ?thesis
  proof (cases rule: saveReportState_cases)
    case (ok k k')
    have "ready env strict d0 (freshState n) (settled (freshState n) (renamed env (freshState n) s k) k')"
      using ok(3) fit by (intro settled_ready [OF inv]) (simp_all add: assms(1))
    with ok fit show ?thesis by (auto simp: kept_def ready_def)
  next
    case (unsync m k)
    with inv fit show ?thesis by (simp add: kept_def)
  next
    case (err m k)
    with assms(2) show ?thesis by (simp add: kept_def)
  qed
qed

lemma readReportState_ok:
  "readReportState env s = (Inr b, t) \<Longrightarrow> \<exists>n. t = s\<lparr>tick := n\<rparr> \<and> disk s = Some b"
  using readReportState_cases [of env s "Inr b" t] by auto

lemma loadUnsynced_inv:
  assumes "codec_ok env" "outbox_inv env strict d0 s" "loadUnsynced env s = (r, t)"
  shows "outbox_inv env strict d0 t \<and> plain_error r \<and> (succeeded r \<longrightarrow> unsynced t = None)"
proof (cases "unsynced s")
  case None
  with assms show ?thesis by (auto simp: loadUnsynced_def ok_def)
next
  case (Some u)
  from assms(3) [unfolded loadUnsynced_def Some option.case] show ?thesis
  proof (cases rule: bindE_cases)
    case (err e)
    with assms(2) show ?thesis by (auto dest!: readReportState_cases)
  next
    case (ok b s1)
    from readReportState_ok [OF ok(1)] obtain n where s1: "s1 = s\<lparr>tick := n\<rparr>" "disk s = Some b"
      by blast
    with assms(2) Some ok(2) have "finishStateSync env s1 = (r, t)"
      by (auto simp: outbox_inv_def)
    moreover have u: "unsynced s1 = Some u" using s1 Some by simp
    ultimately show ?thesis
      using settled_ready [OF _ u assms(1), of strict d0] assms(2) s1(1)
      by (cases rule: finishStateSync_cases) (auto simp: ready_def)
  qed
qed

lemma loadCurrent_kept:
  assumes "codec_ok env" "ready env strict d0 ob s" "loadCurrent env ob s = (r, t)"
  shows "kept env strict d0 (r, t)"
proof -
  from assms(3) [unfolded loadCurrent_def] show ?thesis
  proof (cases rule: bindE_cases)
    case (err e)
    with assms(2) show ?thesis
      by (auto dest!: readReportState_cases simp: kept_def ready_def plain_error_def)
  next
    case (ok b s1)
    from readReportState_ok [OF ok(1)] obtain n where s1: "s1 = s\<lparr>tick := n\<rparr>" "disk s = Some b"
      by blast
    moreover have "unjson_state env b = Some (strip_state ob)"
      using ready_disk(1) [OF assms(2)] s1 by simp
    ultimately show ?thesis
      using ok(2) assms(2)
      by (auto simp: kept_def fail_def ok_def ready_def split: if_splits)
  qed
qed

lemma loadRemote_kept:
  assumes "codec_ok env" "outbox_inv env strict d0 s" "outbox s = None" "disk s = None"
    "loadRemote env s = (r, t)"
  shows "kept env strict d0 (r, t)"
  using assms(5) [unfolded loadRemote_def]
proof (cases rule: bindE_cases)
  case (err e)
  with assms show ?thesis
    using other_request_inv [of env _ _ _ _ s _ t strict d0] request_plain [OF err(1)]
    by (auto simp: kept_def other_request_def)
next
  case (ok a s1)
  have inv: "outbox_inv env strict d0 s1"
    using other_request_inv [OF ok(1), of strict d0] assms(2) by (auto simp: other_request_def)
  have fr: "outbox s1 = None" "disk s1 = None"
    using request_frame [OF ok(1)] assms by simp_all
  from ok(2) save_fresh_kept [OF assms(1) inv fr] inv show ?thesis
    by (auto simp: kept_def fail_def split: prod.splits option.splits if_splits)
qed

lemma loadFile_kept:
  assumes "codec_ok env" "outbox_inv env strict d0 s" "outbox s = None" "unsynced s = None"
    "loadFile env s = (r, t)"
  shows "kept env strict d0 (r, t)"
proof -
  obtain r1 s1 where rd: "readReportState env s = (r1, s1)" by fastforce
  from readReportState_cases [OF this] obtain n where s1: "s1 = s\<lparr>tick := n\<rparr>" by blast
  have inv: "outbox_inv env strict d0 s1" "outbox s1 = None" using assms s1 by simp_all
  show ?thesis
  proof (cases r1)
    case (Inl e)
    with readReportState_cases [OF rd] s1 have "e = NotExist \<and> disk s1 = None \<or> (\<exists>m. e = Err m)"
      by simp
    with Inl rd assms(5) inv loadRemote_kept [OF assms(1) inv] show ?thesis
      by (auto simp: loadFile_def kept_def fail_def plain_error_def)
  next
    case (Inr b)
    with readReportState_cases [OF rd] have d: "disk s1 = Some b" using s1 by simp
    have "ready env strict d0 st (s1\<lparr>outbox := Some st, recovered := (\<exists>y. rs_Pending st = Some y)\<rparr>)"
      if "unjson_state env b = Some st" "validReportState st" for st
      using that d inv assms(4) s1 unjson_stripped [OF assms(1) that(1)]
      by (simp add: ready_def outbox_inv_def diskPending_def) auto
    with Inr rd assms(5) inv show ?thesis
      by (auto simp: loadFile_def kept_def fail_def ok_def ready_def split: option.splits if_splits)
  qed
qed

lemma loadReportState_kept:
  assumes "codec_ok env" "outbox_inv env strict d0 s" "loadReportState env s = (r, t)"
  shows "kept env strict d0 (r, t)"
  using assms(3) [unfolded loadReportState_def]
proof (cases rule: bindE_cases)
  case (err e)
  with loadUnsynced_inv [OF assms(1,2)] show ?thesis by (auto simp: kept_def)
next
  case (ok a s1)
  from loadUnsynced_inv [OF assms(1,2) ok(1)] have "outbox_inv env strict d0 s1" "unsynced s1 = None"
    by simp_all
  with ok(2) assms(1) show ?thesis
    by (auto simp: ready_def split: option.splits intro: loadFile_kept loadCurrent_kept)
qed

section \<open>Sending preserves the invariant\<close>

lemma ackOf_strip [simp]: "codec_ok env \<Longrightarrow> ackOf env (strip_batch b) reply = ackOf env b reply"
  by (simp add: ackOf_def cong: option.case_cong sum.case_cong)

lemma rebaseOf_strip [simp]: "codec_ok env \<Longrightarrow> rebaseOf env (strip_batch b) reply = rebaseOf env b reply"
  by (simp add: rebaseOf_def cong: option.case_cong sum.case_cong goerr.case_cong)

lemma traffic_request_ready:
  assumes "codec_ok env" "ready env strict d0 ob s" "rs_Pending ob = Some batch"
    "request env ''POST'' ''traffic'' [] (Some (json_batch env batch)) s = (r, t)"
  shows "ready env strict d0 ob t"
    "\<exists>reply. r = requestResult env ''POST'' ''traffic'' [] reply \<and>
       m_rebase (mon env strict d0 t) = rebaseOf env batch reply \<and>
       (\<forall>ack. ackOf env batch reply = Some ack \<longrightarrow>
          m_acked (mon env strict d0 t) \<and> m_owed (mon env strict d0 t) = ack_Revoked ack)"
proof -
  note d = ready_disk [OF assms(2)] and f = request_frame [OF assms(4)]
  have m: "mon env strict d0 t = mon_request env (Some (json_batch env batch))
      (env_panel env (trace s) ''POST'' ''traffic'' [] (Some (json_batch env batch))) (mon env strict d0 s)"
    by (simp add: f)
  show "ready env strict d0 ob t"
    using assms(1,3) by (intro readyI) (simp_all only: m f, simp_all add: mon_request_def d ready_facts [OF assms(2)])
  show "\<exists>reply. r = requestResult env ''POST'' ''traffic'' [] reply \<and>
       m_rebase (mon env strict d0 t) = rebaseOf env batch reply \<and>
       (\<forall>ack. ackOf env batch reply = Some ack \<longrightarrow>
          m_acked (mon env strict d0 t) \<and> m_owed (mon env strict d0 t) = ack_Revoked ack)"
    unfolding m using assms(1,3) d f(13)
    by (intro exI [of _ "env_panel env (trace s) ''POST'' ''traffic'' [] (Some (json_batch env batch))"])
      (simp add: mon_request_def)
qed

lemma ready_updates [simp]:
  "ready env strict d0 ob (s\<lparr>lastTrafficUID := x\<rparr>) = ready env strict d0 ob s"
  "ready env strict d0 ob (s\<lparr>cache := c\<rparr>) = ready env strict d0 ob s"
  "ready env strict d0 ob (s\<lparr>cache := c, runtime := rt\<rparr>) = ready env strict d0 ob s"
  "outbox_inv env strict d0 (s\<lparr>lastTrafficUID := x\<rparr>) = outbox_inv env strict d0 s"
  "outbox_inv env strict d0 (s\<lparr>cache := c\<rparr>) = outbox_inv env strict d0 s"
  "outbox_inv env strict d0 (s\<lparr>drainSaved := b\<rparr>) = outbox_inv env strict d0 s"
  "ready env strict d0 ob (s\<lparr>drainSaved := b\<rparr>) = ready env strict d0 ob s"
  by (simp_all add: ready_def outbox_inv_def)

lemma ready_reset:
  assumes "ready env strict d0 ob s" "rs_Pending ob = None"
  shows "ready env strict d0 ob (s\<lparr>recovered := False, committed := False\<rparr>)"
  using assms(2) ready_facts(5) [OF assms(1)]
  by (intro readyI) (auto simp: ready_disk(1,4,5) [OF assms(1)] ready_facts(1-3) [OF assms(1)])

lemma hooks_okD:
  assumes "hooks_ok hk"
  shows "callCommit hk rows s = (r, t) \<Longrightarrow> plain_error r" "callRevoke hk ids s = (r', t) \<Longrightarrow> plain_error r'"
    "callCapture hk s = (r'', t) \<Longrightarrow> plain_error r''"
proof -
  show "plain_error r" if "callCommit hk rows s = (r, t)"
  proof -
    from that have "r = fst (commit hk rows (cache s, runtime s))"
      by (auto simp: callCommit_def split: prod.splits)
    with assms show ?thesis by (simp add: hooks_ok_def)
  qed
  show "plain_error r'" if "callRevoke hk ids s = (r', t)"
  proof -
    from that have "r' = fst (revoke hk ids (cache s, runtime s))"
      by (auto simp: callRevoke_def split: prod.splits)
    with assms show ?thesis by (simp add: hooks_ok_def)
  qed
  show "plain_error r''" if "callCapture hk s = (r'', t)"
  proof -
    from that have "r'' = fst (capture hk (cache s, runtime s))"
      by (auto simp: callCapture_def split: prod.splits)
    with assms show ?thesis by (simp add: hooks_ok_def)
  qed
qed

lemma revoke_ready:
  assumes "ready env strict d0 ob s" "callRevoke hk ids s = (r, t)"
  shows "ready env strict d0 ob t" "m_acked (mon env strict d0 t) = m_acked (mon env strict d0 s)"
    "r = Inr u \<Longrightarrow> m_owed (mon env strict d0 s) = Some ids \<Longrightarrow> m_owed (mon env strict d0 t) = None"
    "m_rebase (mon env strict d0 t) = m_rebase (mon env strict d0 s)"
  using assms(1) callRevoke_frame [OF assms(2)] by (simp_all add: ready_def outbox_inv_def)

lemma map_row_of_user [simp]: "map (strip_row \<circ> row_of_user) (map user_of_row rows) = map strip_row rows"
  by simp

lemma commit_ready:
  assumes "ready env strict d0 ob s" "rs_Pending ob = Some batch"
    "m_acked (mon env strict d0 s) \<or> rs_Resolution ob \<noteq> None" "\<not> committed s" "\<not> recovered s"
    "callCommit hk (map user_of_row (batch_Rows batch)) s = (r, t)"
  shows "if succeeded r then ready env strict d0 ob (t\<lparr>committed := True\<rparr>) else ready env strict d0 ob t"
    "m_acked (mon env strict d0 t) = m_acked (mon env strict d0 s)"
    "m_owed (mon env strict d0 t) = m_owed (mon env strict d0 s)"
proof -
  note d = ready_disk [OF assms(1)] and f = callCommit_frame [OF assms(6)]
  have m: "mon env strict d0 t = mon_commit env (map user_of_row (batch_Rows batch)) (succeeded r) (mon env strict d0 s)"
    by (simp add: f)
  have st: "m_own (mon env strict d0 s)" "\<not> m_done (mon env strict d0 s)"
    using assms(2,4,5) ready_facts [OF assms(1)] by auto
  have mok: "m_ok (mon env strict d0 t)"
    unfolding m mon_commit_def using assms(2,3) st ready_facts(3) [OF assms(1)] by (simp add: d)
  show "if succeeded r then ready env strict d0 ob (t\<lparr>committed := True\<rparr>) else ready env strict d0 ob t"
    using assms(2,4) st mok
    by (auto intro!: readyI simp: f(1-9) d m mon_commit_def ready_facts(1,2) [OF assms(1)])
  show "m_acked (mon env strict d0 t) = m_acked (mon env strict d0 s)"
    "m_owed (mon env strict d0 t) = m_owed (mon env strict d0 s)"
    by (simp_all add: m mon_commit_def)
qed

lemma commitOnce_ready:
  assumes "ready env strict d0 ob s" "rs_Pending ob = Some batch" "hooks_ok hk"
    "m_acked (mon env strict d0 s) \<or> rs_Resolution ob \<noteq> None" "commitOnce hk batch s = (r, t)"
  shows "ready env strict d0 ob t" "plain_error r"
    "m_acked (mon env strict d0 t) = m_acked (mon env strict d0 s)"
    "m_owed (mon env strict d0 t) = m_owed (mon env strict d0 s)"
proof -
  have "ready env strict d0 ob t \<and> plain_error r \<and>
    m_acked (mon env strict d0 t) = m_acked (mon env strict d0 s) \<and>
    m_owed (mon env strict d0 t) = m_owed (mon env strict d0 s)"
  proof (cases "committed s \<or> recovered s")
    case True
    with assms show ?thesis by (auto simp: commitOnce_def ok_def)
  next
    case False
    with assms(5) have "bindE (callCommit hk (map user_of_row (batch_Rows batch)) s)
             (\<lambda>_ s. ok () (s\<lparr>committed := True\<rparr>)) = (r, t)"
      by (simp add: commitOnce_def)
    then show ?thesis
    proof (cases rule: bindE_cases)
      case (err e)
      with commit_ready [OF assms(1,2,4) _ _ err(1)] False hooks_okD(1) [OF assms(3) err(1)]
      show ?thesis by simp
    next
      case (ok a s1)
      with commit_ready [OF assms(1,2,4) _ _ ok(1)] False show ?thesis
        by (auto simp: ok_def)
    qed
  qed
  then show "ready env strict d0 ob t" "plain_error r"
    "m_acked (mon env strict d0 t) = m_acked (mon env strict d0 s)"
    "m_owed (mon env strict d0 t) = m_owed (mon env strict d0 s)" by simp_all
qed

lemma kept_err:
  "outbox_inv env strict d0 t \<Longrightarrow> plain_error (Inl e :: goerr + 'a) \<Longrightarrow> kept env strict d0 (Inl e :: goerr + 'a, t)"
  by (simp add: kept_def)

lemma kept_ok: "ready env strict d0 ob t \<Longrightarrow> kept env strict d0 (Inr a, t)"
  by (auto simp: kept_def ready_def)

lemma kept_Inl: "kept env strict d0 (Inl e :: goerr + 'a, t) \<Longrightarrow> kept env strict d0 (Inl e :: goerr + 'b, t)"
  by (simp add: kept_def)

lemma ready_inv: "ready env strict d0 ob s \<Longrightarrow> outbox_inv env strict d0 s"
  by (simp add: ready_def)

lemma kept_ready: "kept env strict d0 (Inr a, t) \<Longrightarrow> outbox t = Some ob \<Longrightarrow> ready env strict d0 ob t"
  by (auto simp: kept_def ready_def)

lemma valid_acked:
  assumes "validReportState ob" "rs_Pending ob = Some batch" "batch_Sequence batch + 1 \<noteq> 0"
  shows "validReportState (ackedState batch ob now)"
  using assms length_trim [of "rs_Held ob" now] valid_trim [of "rs_Held ob" now]
  by (auto simp: validReportState_def validTrafficIsolation_def ackedState_def split: if_splits)

lemma save_reset_kept:
  assumes "codec_ok env" "ready env strict d0 ob s" "validReportState st"
    and "replace_ok strict (mon env strict d0 s) ob st" "owner_ok s ob st"
    and none: "rs_Pending st = None"
    and run: "bindE (saveReportState env st s) (\<lambda>_ s. ok () (s\<lparr>recovered := False, committed := False\<rparr>)) = (r, t)"
  shows "kept env strict d0 (r, t)"
  using run
proof (cases rule: bindE_cases)
  case (err e)
  with save_kept [OF assms(1-5) err(1)] show ?thesis by (auto intro: kept_Inl)
next
  case (ok x s')
  from save_kept [OF assms(1-5) ok(1)] save_outbox [of env st s x s'] ok(1)
  have "ready env strict d0 (fitState env st) s'" by (auto intro: kept_ready)
  then have "ready env strict d0 (fitState env st) (s'\<lparr>recovered := False, committed := False\<rparr>)"
    by (rule ready_reset) (simp add: none)
  with ok(2) show ?thesis by (auto simp: ok_def intro: kept_ok)
qed

lemma finishAck_kept:
  assumes env: "codec_ok env" "hooks_ok hk" and ready: "ready env strict d0 ob s"
    and pend: "rs_Pending ob = Some batch"
    and acked: "m_acked (mon env strict d0 s)" "m_owed (mon env strict d0 s) = Some (the (ack_Revoked ack))"
    and run: "finishAck env hk ob batch ack s = (r, t)"
  shows "kept env strict d0 (r, t)"
  using run [unfolded finishAck_def]
proof (cases rule: bindE_cases)
  case (err e)
  with commitOnce_ready [OF ready pend env(2) _ err(1)] acked show ?thesis
    by (auto intro!: kept_err dest: ready_inv)
next
  case (ok a s1)
  note c = commitOnce_ready [OF ready pend env(2) _ ok(1)]
  from ok(2) show ?thesis
  proof (cases rule: bindE_cases)
    case (err e)
    with revoke_ready [OF c(1) err(1)] hooks_okD(2) [OF env(2) err(1)] acked show ?thesis
      by (auto intro!: kept_err dest: ready_inv)
  next
    case (ok b s2)
    let ?s = "if batch_Rows batch \<noteq> [] then s2\<lparr>lastTrafficUID := row_UID (last (batch_Rows batch))\<rparr> else s2"
    let ?st = "ackedState batch ob (env_now env (tick ?s))"
    have s2: "ready env strict d0 ob ?s" "m_acked (mon env strict d0 ?s)" "m_owed (mon env strict d0 ?s) = None"
      using revoke_ready [OF c(1) ok(1)] c acked by auto
    show ?thesis
    proof (cases "rs_Next ?st = 0")
      case True
      with ok(2) s2(1) show ?thesis
        by (auto simp: fail_def Let_def intro!: kept_err split: if_splits dest: ready_inv)
    next
      case False
      then have valid: "validReportState ?st"
        using ready_disk(5) [OF ready] pend by (intro valid_acked) (auto simp: ackedState_def)
      have repl: "replace_ok strict (mon env strict d0 ?s) ob ?st"
        using s2 pend by (simp add: replace_ok_def pending_ok_def rows_ok_def live_rows_def ackedState_def)
      have own: "owner_ok ?s ob ?st" by (simp add: owner_ok_def pend)
      show ?thesis
        using ok(2) False unfolding Let_def
        by (intro save_reset_kept [OF env(1) s2(1) valid repl own]) (simp_all add: ackedState_def)
    qed
  qed
qed

text \<open>What an unconfirmed delivery leaves behind.\<close>

definition unresolved :: "'b env \<Rightarrow> bool \<Rightarrow> 'b option \<Rightarrow> reportState \<Rightarrow> goerr \<Rightarrow> ('b, 'r) client \<Rightarrow> bool" where
  "unresolved env strict d0 ob e t \<longleftrightarrow>
     ready env strict d0 ob t \<and> \<not> panics e \<and>
     (\<exists>b. rs_Pending ob = Some b \<and>
       (\<forall>c. as_conflict e = Some c \<and> canRebaseTraffic c (batch_Sequence b) (digestOf env b) \<longrightarrow>
          m_rebase (mon env strict d0 t) = Some (conflict_Next c)))"

lemma requestResult_as_conflict:
  "requestResult env meth action etag reply = Inl e \<Longrightarrow> as_conflict e = Some c \<Longrightarrow> e = Conflict c"
  by (auto simp: requestResult_def decodeTrafficConflict_def Let_def
      split: transport.splits if_splits option.splits)

lemma validateTrafficAck_error:
  "validateTrafficAck ack seq digest = Some e \<Longrightarrow> \<not> panics e \<and> as_conflict e = None \<and> as_unconfirmed e = None"
  "validateTrafficAck ack seq digest = None \<Longrightarrow> ack_Revoked ack \<noteq> None"
  by (auto simp: validateTrafficAck_def split: if_splits)

lemma rebaseOf_conflict:
  assumes "requestResult env ''POST'' ''traffic'' [] reply = Inl e" "as_conflict e = Some c"
    and "canRebaseTraffic c (batch_Sequence batch) (digestOf env batch)"
  shows "rebaseOf env batch reply = Some (conflict_Next c)"
  using requestResult_as_conflict [OF assms(1,2)] assms(1,3) by (simp add: rebaseOf_def)

text \<open>Answers that are no valid acknowledgement leave the batch unresolved.\<close>

lemma sendPendingOnce_spec:
  assumes env: "codec_ok env" "hooks_ok hk" and ready: "ready env strict d0 ob s"
    and run: "sendPendingOnce env hk s = (r, t)"
  shows "kept env strict d0 (r, t) \<or> (\<exists>e. r = Inl (Unconfirmed e) \<and> unresolved env strict d0 ob e t)"
proof (cases "rs_Pending ob")
  case None
  with ready run ready_facts(1) [OF ready] show ?thesis
    by (auto simp: sendPendingOnce_def ok_def intro: kept_ok)
next
  case (Some batch)
  obtain r1 s1 where req: "request env ''POST'' ''traffic'' [] (Some (json_batch env batch)) s = (r1, s1)"
    by fastforce
  note q = traffic_request_ready [OF env(1) ready Some req]
  then obtain reply where reply: "r1 = requestResult env ''POST'' ''traffic'' [] reply"
    "m_rebase (mon env strict d0 s1) = rebaseOf env batch reply"
    "\<And>ack. ackOf env batch reply = Some ack \<Longrightarrow>
       m_acked (mon env strict d0 s1) \<and> m_owed (mon env strict d0 s1) = ack_Revoked ack"
    by blast
  note run' = run [unfolded sendPendingOnce_def ready_facts(1) [OF ready] option.case Some req prod.case]
  show ?thesis
  proof (cases r1)
    case (Inl e)
    have rr: "requestResult env ''POST'' ''traffic'' [] reply = Inl e" using reply(1) Inl by simp
    have "\<not> panics e" using request_plain [OF req] Inl by simp
    then show ?thesis
      using run' Inl q(1) Some reply(2) rebaseOf_conflict [OF rr] by (auto simp: fail_def unresolved_def)
  next
    case (Inr x)
    obtain d et un where x: "x = (d, et, un)" by (cases x)
    show ?thesis
    proof (cases "Option.bind d (unjson_ack env)")
      case None
      with run' Inr x q(1) Some show ?thesis by (auto simp: fail_def unresolved_def)
    next
      case ack: (Some ack)
      show ?thesis
      proof (cases "validateTrafficAck ack (batch_Sequence batch) (digestOf env batch)")
        case e: (Some e)
        with run' Inr x q(1) Some ack validateTrafficAck_error(1) [OF e] show ?thesis
          by (auto simp: fail_def unresolved_def)
      next
        case None
        have "requestResult env ''POST'' ''traffic'' [] reply = Inr (d, et, un)"
          using reply(1) Inr x by simp
        with ack None have "ackOf env batch reply = Some ack" by (simp add: ackOf_def)
        with reply(3) validateTrafficAck_error(2) [OF None]
        have "m_acked (mon env strict d0 s1)" "m_owed (mon env strict d0 s1) = Some (the (ack_Revoked ack))"
          by auto
        moreover have "finishAck env hk ob batch ack s1 = (r, t)"
          using run' Inr x ack None by simp
        ultimately show ?thesis
          using finishAck_kept [OF env q(1) Some] by blast
      qed
    qed
  qed
qed

section \<open>Rebasing, isolating and retrying preserve the invariant\<close>

lemma valid_rebased:
  "validReportState ob \<Longrightarrow> rs_Pending ob = Some batch \<Longrightarrow> conflict_Next c \<noteq> 0 \<Longrightarrow>
     validReportState (rebasedState c batch ob)"
  by (auto simp: validReportState_def validTrafficIsolation_def rebasedState_def split: if_splits)

lemma rebase_kept:
  assumes "codec_ok env" "unresolved env strict d0 ob e s" "as_conflict e = Some c"
    "rebaseTrafficConflict env c s = (r, t)"
  shows "kept env strict d0 (r, t)"
proof -
  from assms(2) have ready: "ready env strict d0 ob s" by (simp add: unresolved_def)
  from assms(2) obtain batch where pend: "rs_Pending ob = Some batch"
    and mr: "canRebaseTraffic c (batch_Sequence batch) (digestOf env batch) \<Longrightarrow>
      m_rebase (mon env strict d0 s) = Some (conflict_Next c)"
    using assms(3) by (auto simp: unresolved_def)
  note run = assms(4) [unfolded rebaseTrafficConflict_def ready_facts(1) [OF ready] option.case pend]
  show ?thesis
  proof (cases "committed s \<or> \<not> canRebaseTraffic c (batch_Sequence batch) (digestOf env batch)")
    case True
    with run ready_inv [OF ready] show ?thesis by (auto simp: fail_def kept_def split: if_splits)
  next
    case False
    then have "validReportState (rebasedState c batch ob)"
      using ready_disk(5) [OF ready] pend by (intro valid_rebased) (auto simp: canRebaseTraffic_def)
    moreover have "replace_ok strict (mon env strict d0 s) ob (rebasedState c batch ob)"
      using False mr pend ready_facts(4) [OF ready]
      by (auto simp: replace_ok_def pending_ok_def rows_ok_def live_rows_def rebasedState_def)
    ultimately show ?thesis
      using run False by (intro save_kept [OF assms(1) ready]) (auto simp: owner_ok_def pend)
  qed
qed

lemma valid_isolated:
  assumes "validReportState ob" "rs_Pending ob = Some batch" "rs_Resolution ob = Some res"
  shows "validReportState (isolatedState batch res ob now)"
proof -
  let ?held = "rs_Held ob @ [\<lparr>hold_At = res_At res, hold_Batch = Some batch\<rparr>]"
  have "list_all validTrafficHold ?held"
    using assms by (auto simp: validReportState_def validTrafficIsolation_def validTrafficHold_def split: if_splits)
  then have "list_all validTrafficHold (trimTrafficHolds ?held now)" by (rule valid_trim)
  with assms length_trim [of ?held now] show ?thesis
    by (auto simp: validReportState_def validTrafficIsolation_def isolatedState_def split: if_splits)
qed

lemma getUsers_ready:
  assumes "ready env strict d0 ob s" "getUsers env etag s = (r, t)"
  shows "ready env strict d0 ob t" "plain_error r"
proof -
  obtain r1 s1 where q: "request env ''GET'' ''users'' etag None s = (r1, s1)" by fastforce
  have "t = s1" using getUsers_snd [of env etag s] assms(2) q by simp
  with other_request_inv [OF q, of strict d0] request_frame [OF q] assms(1)
  show "ready env strict d0 ob t" by (simp add: ready_def other_request_def)
  show "plain_error r"
    using assms(2) request_plain [OF q] q
    by (auto simp: getUsers_def ok_def fail_def elim!: bindE_cases split: prod.splits if_splits option.splits)
qed

lemma isolated_save_kept:
  assumes env: "codec_ok env" and ready: "ready env strict d0 ob s"
    and pend: "rs_Pending ob = Some batch" "rs_Resolution ob = Some res"
    and run: "bindE (saveReportState env (isolatedState batch res ob (env_now env (tick s))) s) (\<lambda>_ s.
                if batch_Rows batch = [] then fail (Panic ''index out of range'') s
                else ok () (s\<lparr>lastTrafficUID := row_UID (last (batch_Rows batch))\<rparr>)) = (r, t)"
  shows "kept env strict d0 (r, t)"
proof -
  let ?st = "isolatedState batch res ob (env_now env (tick s))"
  have valid: "validReportState ?st"
    using ready_disk(5) [OF ready] pend by (rule valid_isolated)
  have repl: "replace_ok strict (mon env strict d0 s) ob ?st"
    using pend by (simp add: replace_ok_def pending_ok_def rows_ok_def live_rows_def isolatedState_def)
  have own: "owner_ok s ob ?st" by (simp add: owner_ok_def pend)
  have rows: "batch_Rows batch \<noteq> []" using valid_pending_rows [OF ready_disk(5) [OF ready] pend(1)] .
  from run show ?thesis
  proof (cases rule: bindE_cases)
    case (err e)
    with save_kept [OF env ready valid repl own err(1)] show ?thesis by (auto intro: kept_Inl)
  next
    case (ok x s1)
    with save_kept [OF env ready valid repl own ok(1)] rows show ?thesis
      by (auto simp: ok_def kept_def)
  qed
qed

lemma finishTrafficIsolation_kept:
  assumes env: "codec_ok env" "hooks_ok hk" and ready: "ready env strict d0 ob s"
    and pend: "rs_Pending ob = Some batch" "rs_Resolution ob = Some res"
    and run: "finishTrafficIsolation env hk s = (r, t)"
  shows "kept env strict d0 (r, t)"
  using run [unfolded finishTrafficIsolation_def ready_facts(1) [OF ready] option.case pend prod.case]
proof (cases rule: bindE_cases)
  case (err e)
  with getUsers_ready [OF _ err(1), of strict d0 ob] ready show ?thesis
    by (auto intro!: kept_err dest: ready_inv)
next
  case (ok sn s1)
  note s1 = getUsers_ready [OF _ ok(1), of strict d0 ob]
  show ?thesis
  proof (cases sn)
    case None
    with ok(2) s1 ready show ?thesis by (auto simp: fail_def intro!: kept_err dest: ready_inv)
  next
    case (Some snap)
    from ok(2) [unfolded Some option.case] show ?thesis
    proof (cases rule: bindE_cases)
      case (err e)
      with revoke_ready [OF s1(1) err(1)] hooks_okD(2) [OF env(2) err(1)] ready show ?thesis
        by (auto intro!: kept_err dest: ready_inv)
    next
      case (ok x s2)
      note s2 = revoke_ready [OF s1(1) ok(1)]
      from ok(2) show ?thesis
      proof (cases rule: bindE_cases)
        case (err e)
        with commitOnce_ready [OF s2(1) pend(1) env(2) _ err(1)] pend(2) ready show ?thesis
          by (auto intro!: kept_err dest: ready_inv)
      next
        case (ok y s3)
        with commitOnce_ready [OF s2(1) pend(1) env(2) _ ok(1)] pend(2) ready show ?thesis
          by (auto intro: isolated_save_kept [OF env(1) _ pend])
      qed
    qed
  qed
qed

lemma valid_resolution:
  "validReportState ob \<Longrightarrow> rs_Pending ob \<noteq> None \<Longrightarrow> next \<noteq> 0 \<Longrightarrow> next \<le> maxInt63 \<Longrightarrow> at > 0 \<Longrightarrow>
     validReportState (ob\<lparr>rs_Resolution := Some \<lparr>res_Next = next, res_At = at\<rparr>\<rparr>)"
  by (auto simp: validReportState_def validTrafficIsolation_def split: if_splits)

lemma same_pending_replace:
  assumes "rs_Pending st = rs_Pending ob" "mset (rs_Buffered ob) \<subseteq># mset (rs_Buffered st)"
  shows "replace_ok strict m ob st" "owner_ok s ob st"
  using assms
  by (auto simp: replace_ok_def pending_ok_def rows_ok_def live_rows_def owner_ok_def split: option.splits)

lemma isolateTraffic_kept:
  assumes env: "codec_ok env" "hooks_ok hk" "clock_ok env" and ready: "ready env strict d0 ob s"
    and pend: "rs_Pending ob \<noteq> None" and nx: "next \<noteq> 0" "next \<le> maxInt63"
    and run: "isolateTraffic env hk next s = (r, t)"
  shows "kept env strict d0 (r, t)"
proof -
  let ?st = "ob\<lparr>rs_Resolution := Some \<lparr>res_Next = next, res_At = env_now env (tick s)\<rparr>\<rparr>"
  have valid: "validReportState ?st"
    using env(3) by (intro valid_resolution ready_disk(5) [OF ready] pend nx) (simp add: clock_ok_def)
  note repl = same_pending_replace [of ?st ob, simplified]
  from run [unfolded isolateTraffic_def ready_facts(1) [OF ready] option.case] show ?thesis
  proof (cases rule: bindE_cases)
    case (err e)
    with save_kept [OF env(1) ready valid repl err(1)] show ?thesis by (auto intro: kept_Inl)
  next
    case (ok x s1)
    have "ready env strict d0 (fitState env ?st) s1"
      using save_kept [OF env(1) ready valid repl ok(1)] save_outbox [of env ?st s x s1] ok(1)
      by (auto intro: kept_ready)
    with ok(2) pend show ?thesis
      by (auto intro: finishTrafficIsolation_kept [OF env(1,2), of strict d0 "fitState env ?st"])
  qed
qed

lemma readTrafficCursor_bounds:
  "readTrafficCursor env s = (Inr n, t) \<Longrightarrow> n \<noteq> 0 \<and> n \<le> maxInt63"
  by (auto simp: readTrafficCursor_def ok_def fail_def elim!: bindE_cases
      split: prod.splits option.splits if_splits)

lemma readTrafficCursor_plain: "readTrafficCursor env s = (r, t) \<Longrightarrow> plain_error r"
  by (auto simp: readTrafficCursor_def ok_def fail_def elim!: bindE_cases
      split: prod.splits option.splits if_splits dest: request_plain)

lemma isolateAtCursor_kept:
  assumes env: "codec_ok env" "hooks_ok hk" "clock_ok env" and ready: "ready env strict d0 ob s"
    and pend: "rs_Pending ob \<noteq> None" and run: "isolateAtCursor env hk s = (r, t)"
  shows "kept env strict d0 (r, t)"
proof -
  obtain r1 s1 where c: "readTrafficCursor env s = (r1, s1)" by fastforce
  obtain r2 where q: "request env ''GET'' ''state'' [] None s = (r2, s1)"
    using readTrafficCursor_frame [OF c] by (metis prod.collapse)
  have s1: "ready env strict d0 ob s1"
    using ready other_request_inv [OF q, of strict d0] request_frame [OF q]
    by (simp add: ready_def other_request_def)
  show ?thesis
  proof (cases r1)
    case (Inl e)
    with run c readTrafficCursor_plain [OF c] s1 show ?thesis
      by (auto simp: isolateAtCursor_def fail_def kept_def dest: ready_inv)
  next
    case (Inr n)
    with run c readTrafficCursor_bounds [of env s n s1] show ?thesis
      by (auto simp: isolateAtCursor_def intro: isolateTraffic_kept [OF env s1 pend])
  qed
qed

text \<open>
  The outcome of an operation: the invariant and no panic; after a success the client is ready
  for the next step.
\<close>

definition safe :: "'b env \<Rightarrow> bool \<Rightarrow> 'b option \<Rightarrow> (goerr + 'a) \<times> ('b, 'r) client \<Rightarrow> bool" where
  "safe env strict d0 x \<longleftrightarrow>
     outbox_inv env strict d0 (snd x) \<and> (\<forall>e. fst x = Inl e \<longrightarrow> \<not> panics e) \<and>
     (succeeded (fst x) \<longrightarrow> (\<exists>ob. ready env strict d0 ob (snd x)))"

lemma kept_safe: "kept env strict d0 x \<Longrightarrow> safe env strict d0 x"
  by (auto simp: kept_def safe_def plain_error_def split: sum.splits)

lemma kept_Inl_safe: "kept env strict d0 (Inl e :: goerr + 'a, t) \<Longrightarrow> safe env strict d0 (Inl e :: goerr + 'c, t)"
  by (auto simp: kept_def safe_def)

lemma safe_Inl: "safe env strict d0 (Inl e :: goerr + 'a, t) \<Longrightarrow> safe env strict d0 (Inl e :: goerr + 'c, t)"
  by (auto simp: safe_def)

lemma safe_fail: "ready env strict d0 ob s \<Longrightarrow> \<not> panics e \<Longrightarrow> safe env strict d0 (fail e s)"
  by (auto simp: safe_def fail_def ready_def)

lemma safe_ok: "ready env strict d0 ob s \<Longrightarrow> safe env strict d0 (ok a s)"
  by (auto simp: safe_def ok_def ready_def)

lemma safe_ready: "safe env strict d0 (Inr a, t) \<Longrightarrow> outbox t = Some ob \<Longrightarrow> ready env strict d0 ob t"
  by (auto simp: safe_def ready_def)

lemma valid_failures:
  "validReportState ob \<Longrightarrow> validReportState (ob\<lparr>rs_Failures := min (wrap64 (rs_Failures ob + 1)) 3\<rparr>)"
proof -
  assume valid: "validReportState ob"
  then have "0 \<le> rs_Failures ob" "rs_Failures ob \<le> 3"
    by (auto simp: validReportState_def validTrafficIsolation_def split: if_splits)
  then have "in_int64 (rs_Failures ob + 1)" by (simp add: in_int64_def)
  with valid \<open>0 \<le> rs_Failures ob\<close> show ?thesis
    by (auto simp: validReportState_def validTrafficIsolation_def split: if_splits option.splits)
qed

lemma canIsolate_bounds:
  "canIsolateTraffic c b dg \<Longrightarrow> conflict_Next c \<noteq> 0 \<and> conflict_Next c \<le> maxInt63"
  by (auto simp: canIsolateTraffic_def split: option.splits if_splits)

lemma save_unresolved:
  assumes env: "codec_ok env" and un: "unresolved env strict d0 ob e s"
    and run: "saveReportState env (ob\<lparr>rs_Failures := min (wrap64 (rs_Failures ob + 1)) 3\<rparr>) s = (r, t)"
  shows "kept env strict d0 (r, t)"
    "r = Inr u \<Longrightarrow> outbox t = Some ob' \<Longrightarrow> unresolved env strict d0 ob' e t"
proof -
  let ?st = "ob\<lparr>rs_Failures := min (wrap64 (rs_Failures ob + 1)) 3\<rparr>"
  from un have ready: "ready env strict d0 ob s" by (simp add: unresolved_def)
  note repl = same_pending_replace [of ?st ob, simplified]
  show k: "kept env strict d0 (r, t)"
    using run by (intro save_kept [OF env ready _ repl]) (auto intro: valid_failures ready_disk(5) [OF ready])
  show "unresolved env strict d0 ob' e t" if "r = Inr u" "outbox t = Some ob'"
  proof -
    from run that have ob': "ob' = fitState env ?st" by (auto dest: save_outbox)
    have disk: "diskState env (m_disk (mon env strict d0 s)) = Some (strip_state ob)"
      using ready_disk [OF ready] by simp
    from run that(1) have "m_rebase (mon env strict d0 t) = m_rebase (mon env strict d0 s)"
      by (cases rule: saveReportState_cases) (auto simp: mon_rename_fields(7) [OF env disk])
    with un ob' kept_ready [of env strict d0 u t ob'] k that show ?thesis
      by (auto simp: unresolved_def)
  qed
qed

lemma rebase_then_safe:
  assumes "codec_ok env" "unresolved env strict d0 ob e s" "as_conflict e = Some c"
    and "\<And>ob' t. ready env strict d0 ob' t \<Longrightarrow> safe env strict d0 (g t)"
  shows "safe env strict d0 (bindE (rebaseTrafficConflict env c s) (\<lambda>_. g))"
proof -
  obtain r t where rb: "rebaseTrafficConflict env c s = (r, t)" by fastforce
  note k = rebase_kept [OF assms(1-3) rb]
  show ?thesis
  proof (cases r)
    case (Inl e')
    with rb k show ?thesis by (auto intro: kept_Inl_safe)
  next
    case (Inr v)
    with k obtain ob' where "ready env strict d0 ob' t" by (auto simp: kept_def)
    with assms(4) rb Inr show ?thesis by auto
  qed
qed

lemma sendAttempt_safe:
  assumes env: "codec_ok env" "hooks_ok hk" "clock_ok env"
  shows "ready env strict d0 ob s \<Longrightarrow> safe env strict d0 (sendAttempt env hk attempt s)"
proof (induction "1 - attempt" arbitrary: attempt s ob rule: less_induct)
  case less
  obtain r1 s1 where once: "sendPendingOnce env hk s = (r1, s1)" by fastforce
  note spec = sendPendingOnce_spec [OF env(1,2) less.prems once]
  show ?case
  proof (cases "\<exists>e. r1 = Inl e \<and> as_unconfirmed e \<noteq> None")
    case False
    with spec have "kept env strict d0 (r1, s1)" by auto
    moreover from False once have "sendAttempt env hk attempt s = (r1, s1)"
      by (cases r1) (auto simp: sendAttempt.simps [of env hk attempt s] ok_def fail_def)
    ultimately show ?thesis by (simp add: kept_safe)
  next
    case True
    with spec obtain e where e: "r1 = Inl (Unconfirmed e)" and un: "unresolved env strict d0 ob e s1"
      by (auto simp: kept_def)
    then have ob: "outbox s1 = Some ob" by (auto simp: unresolved_def ready_def)
    let ?st = "ob\<lparr>rs_Failures := min (wrap64 (rs_Failures ob + 1)) 3\<rparr>"
    obtain r2 s2 where sv: "saveReportState env ?st s1 = (r2, s2)" by fastforce
    note k = save_unresolved [OF env(1) un sv]
    show ?thesis
    proof (cases r2)
      case (Inl e2)
      with once e ob sv k(1) show ?thesis
        by (auto simp: sendAttempt.simps [of env hk attempt s] intro: kept_Inl_safe)
    next
      case (Inr u)
      let ?ob = "fitState env ?st"
      have ob2: "outbox s2 = Some ?ob" using sv Inr by (auto dest: save_outbox)
      from k(2) [OF Inr this] have un2: "unresolved env strict d0 ?ob e s2" .
      then have r2: "ready env strict d0 ?ob s2" and pend: "rs_Pending ?ob \<noteq> None" and np: "\<not> panics e"
        by (auto simp: unresolved_def)
      have iso: "safe env strict d0 (isolateTraffic env hk n s2)" if "n \<noteq> 0" "n \<le> maxInt63" for n
        using isolateTraffic_kept [OF env r2 pend that] by (metis kept_safe prod.collapse)
      have cur: "safe env strict d0 (isolateAtCursor env hk s2)"
        using isolateAtCursor_kept [OF env r2 pend] by (metis kept_safe prod.collapse)
      have reb: "safe env strict d0 (bindE (rebaseTrafficConflict env c s2) (\<lambda>_ s. sendAttempt env hk (Suc attempt) s))"
        if "as_conflict e = Some c" "attempt = 0" for c
        using less.hyps [of "Suc attempt"] that(2) by (intro rebase_then_safe [OF env(1) un2 that(1)]) simp
      have fl: "safe env strict d0 (fail (Unconfirmed e) s2)"
        using r2 np by (auto intro: safe_fail)
      show ?thesis
        using once e ob sv Inr ob2 iso cur reb fl
        by (auto simp: sendAttempt.simps [of env hk attempt s] split: option.splits dest: canIsolate_bounds)
    qed
  qed
qed

lemma sendPending_safe:
  assumes env: "codec_ok env" "hooks_ok hk" "clock_ok env" and ready: "ready env strict d0 ob s"
  shows "safe env strict d0 (sendPending env hk s)"
proof (cases "rs_Resolution ob")
  case None
  with sendAttempt_safe [OF assms] ready_facts(1) [OF ready] show ?thesis by (simp add: sendPending_def)
next
  case (Some res)
  with ready_disk(5) [OF ready] obtain batch where "rs_Pending ob = Some batch"
    by (auto simp: validReportState_def validTrafficIsolation_def split: if_splits)
  from finishTrafficIsolation_kept [OF env(1,2) ready this Some] Some ready_facts(1) [OF ready] show ?thesis
    by (auto simp: sendPending_def) (metis kept_safe prod.collapse)
qed

section \<open>The reporting round and the drain preserve the invariant\<close>

lemma select_loop_err: "select_loop rows selected rest seen = Inl e \<Longrightarrow> e = Err ''invalid traffic counters''"
  by (induction rows arbitrary: selected rest seen) (auto split: if_splits)

lemma valid_pendingState:
  assumes "validReportState ob" "selectTrafficBatch rows = Inr (sel, rest)" "rows \<noteq> []"
    "length buf \<le> 200000"
  shows "validReportState (pendingState ob sel buf)"
  using assms select_batch_bounds(1) [OF assms(2)] select_batch_nonempty [OF assms(2,3)]
  by (auto simp: validReportState_def validTrafficIsolation_def pendingState_def split: if_splits)

lemma buffered_bound: "validReportState ob \<Longrightarrow> length (rs_Buffered ob) \<le> 200000"
  by (auto simp: validReportState_def)

lemma safe_cleared:
  assumes "safe env strict d0 (Inr u, t)" "cleared buf t"
  obtains ob where "ready env strict d0 ob t" "rs_Pending ob = None" "rs_Buffered ob = buf"
  using assms by (auto simp: cleared_def dest: safe_ready)

lemma send_selected:
  assumes env: "codec_ok env" "hooks_ok hk" "clock_ok env" and ready: "ready env strict d0 ob s"
    and pend: "rs_Pending ob = None" and valid: "validReportState (pendingState ob sel buf)"
    and own: "recovered s \<or> buf = rs_Buffered ob"
    and rows: "mset (rs_Buffered ob) \<subseteq># mset sel + mset buf"
    and run: "bindE (saveReportState env (pendingState ob sel buf) s) (\<lambda>_ s. sendPending env hk s) = (r, t)"
  shows "safe env strict d0 (r, t)" "r = Inr u \<Longrightarrow> cleared buf t"
proof -
  let ?st = "pendingState ob sel buf"
  have repl: "replace_ok strict (mon env strict d0 s) ob ?st"
    using pend rows by (simp add: replace_ok_def pending_ok_def rows_ok_def live_rows_def pendingState_def)
  have own: "owner_ok s ob ?st" using own by (auto simp: owner_ok_def pendingState_def)
  have "safe env strict d0 (r, t) \<and> (r = Inr u \<longrightarrow> cleared buf t)"
    using run
  proof (cases rule: bindE_cases)
    case (err e)
    with save_kept [OF env(1) ready valid repl own err(1)] show ?thesis by (auto intro: kept_Inl_safe)
  next
    case (ok x s1)
    have ob1: "outbox s1 = Some (fitState env ?st)" using ok(1) by (auto dest: save_outbox)
    with save_kept [OF env(1) ready valid repl own ok(1)] have "ready env strict d0 (fitState env ?st) s1"
      by (auto intro: kept_ready)
    moreover have "holds_buffer buf s1" using ob1 by (simp add: holds_buffer_def pendingState_def)
    ultimately show ?thesis
      using ok(2) sendPending_safe [OF env, of strict d0 _ s1] sendPending_clears [of env hk s1 u t buf] by metis
  qed
  then show "safe env strict d0 (r, t)" "r = Inr u \<Longrightarrow> cleared buf t" by simp_all
qed

lemma ready_recovered:
  assumes "ready env strict d0 ob s" "rs_Pending ob = None" "rs_Buffered ob \<noteq> []"
  shows "ready env strict d0 ob (s\<lparr>recovered := True\<rparr>)"
  using assms ready_facts [OF assms(1)] ready_disk [OF assms(1)] by (intro readyI) auto

lemma bindE_assoc2: "bindE m (\<lambda>x s. bindE (f s) k) = bindE (bindE m (\<lambda>_ s. f s)) k"
  by (auto simp: bindE_def split: prod.splits sum.splits)

lemma flushBuffered_safe:
  assumes env: "codec_ok env" "hooks_ok hk" "clock_ok env"
  shows "ready env strict d0 ob s \<Longrightarrow> rs_Pending ob = None \<Longrightarrow>
    safe env strict d0 (flushBuffered env hk batches s) \<and>
    (\<forall>n t. flushBuffered env hk batches s = (Inr (Some n), t) \<longrightarrow> cleared [] t)"
proof (induction "bufferedLen s" arbitrary: batches s ob rule: less_induct)
  case less
  note ob = ready_facts(1) [OF less.prems(1)]
  show ?case
  proof (cases "rs_Buffered ob = [] \<or> (\<exists>e. selectTrafficBatch (rs_Buffered ob) = Inl e)")
    case True
    have "\<not> panics e" if "selectTrafficBatch (rs_Buffered ob) = Inl e" for e
      using that by (auto simp: selectTrafficBatch_def dest: select_loop_err)
    with True ob less.prems show ?thesis
      by (auto simp: flushBuffered.simps [of env hk batches s] cleared_def intro: safe_ok safe_fail)
        (auto simp: ok_def fail_def)
  next
    case False
    then obtain sel rest where sel: "selectTrafficBatch (rs_Buffered ob) = Inr (sel, rest)"
      by (metis obj_sumE prod.exhaust)
    define m where "m = bindE (saveReportState env (pendingState ob sel rest) (s\<lparr>recovered := True\<rparr>))
      (\<lambda>_ s. sendPending env hk s)"
    obtain r t where m: "m = (r, t)" by fastforce
    have "length rest \<le> 200000"
      using buffered_bound [OF ready_disk(5) [OF less.prems(1)]] select_batch_length [OF sel] by simp
    then have valid: "validReportState (pendingState ob sel rest)"
      using False by (intro valid_pendingState [OF _ sel] ready_disk(5) [OF less.prems(1)]) auto
    have ready: "ready env strict d0 ob (s\<lparr>recovered := True\<rparr>)"
      using less.prems False by (intro ready_recovered) auto
    have rows: "mset (rs_Buffered ob) \<subseteq># mset sel + mset rest"
      using select_batch_mset [OF sel] by simp
    note snd = send_selected [OF env ready less.prems(2) valid _ rows m [unfolded m_def], simplified]
    have eq: "flushBuffered env hk batches s = bindE m (\<lambda>_ s.
        if batches > 0
        then (if batches - 1 = 0 then ok None s else flushBuffered env hk (batches - 1) s)
        else flushBuffered env hk batches s)"
      using False ob sel unfolding m_def bindE_assoc2 [symmetric]
      by (simp add: flushBuffered.simps [of env hk batches s])
    show ?thesis
    proof (cases r)
      case (Inl e)
      with eq m snd(1) show ?thesis by (auto intro: safe_Inl)
    next
      case (Inr u)
      with snd have cl: "cleared rest t" "safe env strict d0 (Inr u, t)" by auto
      then obtain ob' where ob': "ready env strict d0 ob' t" "rs_Pending ob' = None"
        by (blast elim: safe_cleared)
      have "bufferedLen t < bufferedLen s"
        using cl(1) ob select_batch_shorter [OF sel] False by (auto simp: cleared_def bufferedLen_def)
      from less.hyps [OF this ob'] ob' show ?thesis
        unfolding eq m Inr by (auto intro: safe_ok) (auto simp: ok_def)
    qed
  qed
qed

lemma flushQueue_safe:
  assumes env: "codec_ok env" "hooks_ok hk" "clock_ok env" "ctx_ok env"
  shows "ready env strict d0 ob s \<Longrightarrow> rs_Pending ob = None \<Longrightarrow> rs_Buffered ob = [] \<Longrightarrow>
    safe env strict d0 (flushQueue env hk batches queued s)"
proof (induction "length queued" arbitrary: batches queued s ob rule: less_induct)
  case less
  note ob = ready_facts(1) [OF less.prems(1)]
  show ?case
  proof (cases "queued = [] \<or> env_ctx env (tick s) \<noteq> None \<or> (\<exists>e. selectTrafficBatch queued = Inl e)")
    case True
    have "\<not> panics e" if "selectTrafficBatch queued = Inl e" for e
      using that by (auto simp: selectTrafficBatch_def dest: select_loop_err)
    moreover have "\<not> panics e" if "env_ctx env (tick s) = Some e" for e
      using that env(4) by (simp add: ctx_ok_def)
    ultimately show ?thesis
      using True ob less.prems
      by (auto simp: flushQueue.simps [of env hk batches queued s] split: option.splits
          intro: safe_ok safe_fail)
  next
    case False
    then obtain sel rest where sel: "selectTrafficBatch queued = Inr (sel, rest)"
      by (metis obj_sumE prod.exhaust)
    define m where "m = bindE (saveReportState env (pendingState ob sel []) s) (\<lambda>_ s. sendPending env hk s)"
    obtain r t where m: "m = (r, t)" by fastforce
    have valid: "validReportState (pendingState ob sel [])"
      using False by (intro valid_pendingState [OF _ sel] ready_disk(5) [OF less.prems(1)]) auto
    note snd = send_selected [OF env(1-3) less.prems(1,2) valid _ _ m [unfolded m_def], simplified less.prems, simplified]
    have eq: "flushQueue env hk batches queued s = bindE m (\<lambda>_ s.
        if batches > 0
        then (if batches - 1 = 0 then ok () s else flushQueue env hk (batches - 1) rest s)
        else flushQueue env hk batches rest s)"
      using False ob sel unfolding m_def bindE_assoc2 [symmetric]
      by (simp add: flushQueue.simps [of env hk batches queued s])
    show ?thesis
    proof (cases r)
      case (Inl e)
      with eq m snd(1) show ?thesis by (auto intro: safe_Inl)
    next
      case (Inr u)
      with snd have "cleared [] t" "safe env strict d0 (Inr u, t)" by auto
      then obtain ob' where ob': "ready env strict d0 ob' t" "rs_Pending ob' = None" "rs_Buffered ob' = []"
        by (blast elim: safe_cleared)
      have "length rest < length queued"
        using select_batch_shorter [OF sel] False by auto
      from less.hyps [OF this ob'] ob' show ?thesis
        unfolding eq m Inr by (auto intro: safe_ok)
    qed
  qed
qed

lemma safe_err: "outbox_inv env strict d0 s \<Longrightarrow> \<not> panics e \<Longrightarrow> safe env strict d0 (fail e s)"
  by (auto simp: safe_def fail_def)

lemma safe_bind:
  assumes "safe env strict d0 m" "\<And>a ob t. m = (Inr a, t) \<Longrightarrow> ready env strict d0 ob t \<Longrightarrow> safe env strict d0 (k a t)"
  shows "safe env strict d0 (bindE m k)"
  using assms(1)
proof (cases m)
  case (Pair r t)
  with assms show ?thesis
    by (cases r) (auto simp: safe_def)
qed

lemma flushCaptured_safe:
  assumes env: "codec_ok env" "hooks_ok hk" "clock_ok env" "ctx_ok env"
    and ready: "ready env strict d0 ob s" "rs_Pending ob = None" "rs_Buffered ob = []"
  shows "safe env strict d0 (flushCaptured env hk batches s)"
proof -
  obtain r t where c: "callCapture hk s = (r, t)" by fastforce
  then obtain ca rt where "t = s\<lparr>cache := ca, runtime := rt\<rparr>"
    by (auto simp: callCapture_def split: prod.splits)
  then have t: "ready env strict d0 ob t" using ready by simp
  with hooks_okD(3) [OF env(2) c] c ready(2,3) show ?thesis
    by (cases r) (auto simp: flushCaptured_def safe_def [of _ _ _ "(Inl _, _)"] ready_inv intro: flushQueue_safe [OF env])
qed

lemma acquireLock_cases:
  "acquireLock env busy s = (r, t) \<Longrightarrow>
     t = s\<lparr>tick := Suc (tick s)\<rparr> \<and> (ctx_ok env \<longrightarrow> (\<forall>e. r = Inl e \<longrightarrow> \<not> panics e))"
  by (auto simp: acquireLock_def fail_def ok_def Let_def ctx_ok_def split: sum.splits if_splits)

lemma fsop_acquire_bind:
  assumes "outbox_inv env strict d0 s" "ctx_ok env"
    "\<And>n. outbox_inv env strict d0 (s\<lparr>tick := n\<rparr>) \<Longrightarrow> safe env strict d0 (k () (s\<lparr>tick := n\<rparr>))"
  shows "safe env strict d0 (bindE (acquireLock env busy s) k)"
    "safe env strict d0 (bindE (fsop env s) (\<lambda>_ s. bindE (acquireLock env busy s) k))"
proof -
  have a: "safe env strict d0 (bindE (acquireLock env busy (s\<lparr>tick := n\<rparr>)) k)" for n
  proof -
    obtain r t where l: "acquireLock env busy (s\<lparr>tick := n\<rparr>) = (r, t)" by fastforce
    from acquireLock_cases [OF l] assms show ?thesis
      by (cases r) (auto simp: l safe_def [of _ _ _ "(Inl _, _)"])
  qed
  from a [of "tick s"] show "safe env strict d0 (bindE (acquireLock env busy s) k)" by simp
  obtain r t where f: "fsop env s = (r, t)" by fastforce
  from fsop_cases [OF f] assms(1) show "safe env strict d0 (bindE (fsop env s) (\<lambda>_ s. bindE (acquireLock env busy s) k))"
    by (auto simp: f a safe_def [of _ _ _ "(Inl _, _)"])
qed

lemma load_safe:
  "codec_ok env \<Longrightarrow> outbox_inv env strict d0 s \<Longrightarrow> safe env strict d0 (loadReportState env s)"
  using loadReportState_kept [of env strict d0 s] kept_safe by (metis prod.collapse)

lemma flush_round_safe:
  assumes env: "codec_ok env" "hooks_ok hk" "clock_ok env" "ctx_ok env"
    and r: "ready env strict d0 ob t" "rs_Pending ob = None"
  shows "safe env strict d0 (bindE (flushBuffered env hk n t) (\<lambda>more s.
    (case more of None \<Rightarrow> ok () s | Some n \<Rightarrow> flushCaptured env hk n s)))"
proof (rule safe_bind)
  note fb = flushBuffered_safe [OF env(1-3) r, of n]
  show "safe env strict d0 (flushBuffered env hk n t)" using fb by simp
  show "safe env strict d0 (case more of None \<Rightarrow> ok () u | Some n \<Rightarrow> flushCaptured env hk n u)"
    if "flushBuffered env hk n t = (Inr more, u)" "ready env strict d0 ob' u" for more ob' u
  proof (cases more)
    case None
    with that show ?thesis by (auto intro: safe_ok)
  next
    case (Some k)
    with that fb have "cleared [] u" by auto
    with that(2) Some show ?thesis
      by (auto simp: cleared_def ready_facts(1) intro!: flushCaptured_safe [OF env])
  qed
qed

lemma flush_loaded_safe:
  assumes env: "codec_ok env" "hooks_ok hk" "clock_ok env" "ctx_ok env"
    and inv: "outbox_inv env strict d0 s"
  shows "safe env strict d0 (bindE (loadReportState env s) (\<lambda>_ s.
    (case outbox s of None \<Rightarrow> fail (Panic ''nil outbox'') s
     | Some ob \<Rightarrow>
       bindE (sendPending env hk s) (\<lambda>_ s.
         (let counted = rs_Pending ob \<noteq> None \<and> batches > 0;
              batches' = (if counted then batches - 1 else batches) in
          if counted \<and> batches' = 0 then ok () s
          else bindE (flushBuffered env hk batches' s) (\<lambda>more s.
            (case more of None \<Rightarrow> ok () s
             | Some n \<Rightarrow> flushCaptured env hk n s)))))))"
proof (rule safe_bind [OF load_safe [OF env(1) inv]], goal_cases)
  case (1 a ob t)
  note ob = ready_facts(1) [OF 1(2)]
  have cl: "rs_Pending ob' = None"
    if "sendPending env hk t = (Inr x, u)" "ready env strict d0 ob' u" for x ob' u
    using sendPending_clears [OF that(1), of "rs_Buffered ob"] ob ready_facts(1) [OF that(2)]
    by (auto simp: holds_buffer_def cleared_def)
  show ?case
    unfolding ob option.case Let_def
    by (rule safe_bind [OF sendPending_safe [OF env(1-3) 1(2)]])
      (auto intro: safe_ok flush_round_safe [OF env] cl)
qed

theorem FlushTrafficLimit_safe:
  assumes env: "codec_ok env" "hooks_ok hk" "clock_ok env" "ctx_ok env"
    and inv: "outbox_inv env strict d0 (s :: ('b, 'r) client)"
  shows "safe env strict d0 (FlushTrafficLimit env hk batches s)"
  unfolding FlushTrafficLimit_def
  using inv by (auto intro!: safe_err fsop_acquire_bind(2) [OF inv env(4)] flush_loaded_safe [OF env])

lemma drainRows_error: "drainRows overlap rows buffer = Inl e \<Longrightarrow> e = Err ''inconsistent final counters''"
  by (induction rows arbitrary: buffer) (auto simp: Let_def split: if_splits)

lemma drainRows_safe:
  "drainRows overlap rows buffer = Inl e \<Longrightarrow> ready env strict d0 ob s \<Longrightarrow> safe env strict d0 (fail e s)"
  by (drule drainRows_error) (simp add: safe_fail)

lemma persistRows_safe:
  assumes env: "codec_ok env" "hooks_ok hk" and ready: "ready env False d0 ob s" and "draining s"
  shows "safe env False d0 (persistRows env hk s)"
proof -
  obtain r t where c: "callCapture hk s = (r, t)" by fastforce
  then obtain ca rt where t': "t = s\<lparr>cache := ca, runtime := rt\<rparr>"
    by (auto simp: callCapture_def split: prod.splits)
  then have t: "ready env False d0 ob t" using ready by simp
  have save: "safe env False d0 (bindE (saveReportState env (ob\<lparr>rs_Buffered := buffer\<rparr>) t)
      (\<lambda>_ s. ok () (s\<lparr>drainSaved := True\<rparr>)))" if "length buffer \<le> 200000" for buffer
  proof -
    have valid: "validReportState (ob\<lparr>rs_Buffered := buffer\<rparr>)"
      using ready_disk(5) [OF t] that
      by (auto simp: validReportState_def validTrafficIsolation_def split: if_splits option.splits)
    have repl: "replace_ok False (mon env False d0 t) ob (ob\<lparr>rs_Buffered := buffer\<rparr>)"
      "owner_ok t ob (ob\<lparr>rs_Buffered := buffer\<rparr>)"
      by (auto simp: replace_ok_def pending_ok_def owner_ok_def split: option.splits)
    obtain r2 t2 where sv: "saveReportState env (ob\<lparr>rs_Buffered := buffer\<rparr>) t = (r2, t2)" by fastforce
    from save_kept [OF env(1) t valid repl sv] sv show ?thesis
      by (cases r2) (auto simp: ok_def safe_def kept_def)
  qed
  show ?thesis
    using c hooks_okD(3) [OF env(2) c] t save ready_facts(1) [OF t]
    by (cases r) (auto simp: persistRows_def Let_def safe_def [of _ _ _ "(Inl _, _)"] ready_inv
        split: sum.splits dest: drainRows_error intro: safe_fail drainRows_safe)
qed

theorem PersistTraffic_safe:
  assumes env: "codec_ok env" "hooks_ok hk" "ctx_ok env" and inv: "outbox_inv env False d0 (s :: ('b, 'r) client)"
  shows "safe env False d0 (PersistTraffic env hk s)"
proof -
  have "safe env False d0 (bindE (loadReportState env s') (\<lambda>_ s.
          if drainSaved s then ok () s
          else (case outbox s of None \<Rightarrow> fail (Panic ''nil outbox'') s
            | Some ob \<Rightarrow>
              persistRows env hk
                (if draining s then s else s\<lparr>drainBase := rs_Buffered ob, draining := True\<rparr>))))"
    if "outbox_inv env False d0 s'" for s'
  proof (rule safe_bind [OF load_safe [OF env(1) that]])
    fix a ob and t :: "('b, 'r) client"
    assume r: "ready env False d0 ob t"
    have "ready env False d0 ob (t\<lparr>drainBase := rs_Buffered ob, draining := True\<rparr>)"
      using r by (auto simp: ready_def outbox_inv_def)
    with r show "safe env False d0 (if drainSaved t then ok () t
          else (case outbox t of None \<Rightarrow> fail (Panic ''nil outbox'') t
            | Some ob \<Rightarrow>
              persistRows env hk
                (if draining t then t else t\<lparr>drainBase := rs_Buffered ob, draining := True\<rparr>)))"
      by (auto simp: ready_facts(1) intro!: safe_ok [OF r] persistRows_safe [OF env(1,2)])
  qed
  then show ?thesis
    unfolding PersistTraffic_def
    using inv by (auto intro!: safe_err fsop_acquire_bind(1) [OF inv env(3)])
qed

end
