(* ===== verification/Outbox_Run.thy ===== *)
theory Outbox_Run
  imports Outbox_Safety
begin

text \<open>
  The life of one client process: any number of reporting rounds, drains, other panel calls
  and runtime activity, in any order, against any panel and any file system. The properties of
  the outbox are read off the history of such a run. A crash is a prefix of the history: what
  a restarted process finds is \<open>disk_after\<close> of that prefix.
\<close>

section \<open>Runs\<close>

definition newClient :: "string \<Rightarrow> int \<Rightarrow> string \<Rightarrow> 'b option \<Rightarrow> 'r \<Rightarrow> ('b, 'r) client" where
  "newClient host nid path d rt =
     \<lparr>APIHost = host, NodeId = nid,
      cache = \<lparr>nodeEtag = [], userEtag = [], responseBodyHash = []\<rparr>,
      outboxPath = path, outbox = None, unsynced = None, recovered = False, committed = False,
      draining = False, drainSaved = False, drainBase = [], lastTrafficUID = 0,
      runtime = rt, disk = d, tick = 0, trace = []\<rparr>"

inductive outbox_run ::
  "'b env \<Rightarrow> bool \<Rightarrow> ('b, 'r) client \<Rightarrow> ('b, 'r) client \<Rightarrow> bool"
  for env :: "'b env" and strict :: bool and s0 :: "('b, 'r) client" where
  start: "outbox_run env strict s0 s0"
| flush: "outbox_run env strict s0 s \<Longrightarrow> hooks_ok hk \<Longrightarrow>
    outbox_run env strict s0 (snd (FlushTrafficLimit env hk batches s))"
| persist: "outbox_run env strict s0 s \<Longrightarrow> hooks_ok hk \<Longrightarrow> \<not> strict \<Longrightarrow>
    outbox_run env strict s0 (snd (PersistTraffic env hk s))"
| users: "outbox_run env strict s0 s \<Longrightarrow> outbox_run env strict s0 (snd (GetUsers env s))"
| alive: "outbox_run env strict s0 s \<Longrightarrow> outbox_run env strict s0 (snd (GetUserAlive env s))"
| online: "outbox_run env strict s0 s \<Longrightarrow> outbox_run env strict s0 (snd (ReportNodeOnlineUsers env data s))"
| config: "outbox_run env strict s0 s \<Longrightarrow> outbox_run env strict s0 (snd (request env ''GET'' ''config'' etag None s))"
| activity: "outbox_run env strict s0 s \<Longrightarrow> outbox_run env strict s0 (s\<lparr>cache := c, runtime := rt\<rparr>)"

inductive_cases outbox_run_startE: "outbox_run env strict s0 s0"

definition rename_of :: "'b event \<Rightarrow> 'b option" where
  "rename_of e = (case e of EvRename d \<Rightarrow> Some d | _ \<Rightarrow> None)"

text \<open>The content of the state file after a history.\<close>

definition disk_after :: "'b option \<Rightarrow> 'b event list \<Rightarrow> 'b option" where
  "disk_after d tr = foldl (\<lambda>d e. case e of EvRename x \<Rightarrow> Some x | _ \<Rightarrow> d) d tr"

lemma disk_after_simps [simp]:
  "disk_after d [] = d"
  "disk_after d (tr @ [e]) = (case e of EvRename x \<Rightarrow> Some x | _ \<Rightarrow> disk_after d tr)"
  by (simp_all add: disk_after_def split: event.split)

lemma monitor_disk: "m_disk (monitor_run env strict (mon_start d) tr) = disk_after d tr"
proof (induction tr rule: rev_induct)
  case (snoc e tr)
  then show ?case
    by (cases e) (auto simp: mon_request_def mon_rename_def mon_commit_def Let_def split: option.splits)
qed (simp add: mon_start_def)

lemma request_only_inv:
  assumes "outbox_inv env strict d0 s" "other_request meth action"
  shows "outbox_inv env strict d0 (snd (request env meth action etag body s))"
proof -
  obtain r t where q: "request env meth action etag body s = (r, t)" by fastforce
  with other_request_inv [OF q assms(2), of strict d0] assms(1) show ?thesis by simp
qed

lemma other_calls_snd:
  "snd (GetUsers env s) = snd (request env ''GET'' ''users'' (userEtag (cache s)) None s)"
  "snd (GetUserAlive env s) = snd (request env ''GET'' ''alive'' [] None s)"
  "snd (ReportNodeOnlineUsers env data s) = snd (request env ''POST'' ''alive'' [] (Some (json_online env data)) s)"
  by (auto simp: GetUsers_def getUsers_snd GetUserAlive_def ReportNodeOnlineUsers_def bindE_def ok_def fail_def
      split: prod.splits sum.splits option.splits)

lemma other_calls_inv:
  assumes "outbox_inv env strict d0 s"
  shows "outbox_inv env strict d0 (snd (GetUsers env s))"
    "outbox_inv env strict d0 (snd (GetUserAlive env s))"
    "outbox_inv env strict d0 (snd (ReportNodeOnlineUsers env data s))"
  unfolding other_calls_snd
  by (rule request_only_inv [OF assms], simp add: other_request_def)+

theorem outbox_run_inv:
  assumes "codec_ok env" "clock_ok env" "ctx_ok env"
    and "outbox_run env strict (newClient host nid path d rt) s"
  shows "outbox_inv env strict d s"
  using assms(4)
proof induction
  case start
  show ?case by (auto simp: outbox_inv_def newClient_def mon_start_def)
next
  case (flush s hk batches)
  with FlushTrafficLimit_safe [of env hk strict d s batches] assms show ?case by (simp add: safe_def)
next
  case (persist s hk)
  with PersistTraffic_safe [of env hk d s] assms show ?case by (simp add: safe_def)
next
  case (config s etag)
  then show ?case by (intro request_only_inv) (simp_all add: other_request_def)
qed (auto simp: other_calls_inv, simp add: outbox_inv_def)

text \<open>Every prefix of the history of a run is accepted by the monitor.\<close>

lemma run_monitor:
  assumes "codec_ok env" "clock_ok env" "ctx_ok env"
    "outbox_run env strict (newClient host nid path d rt) s" "trace s = pre @ e # post"
  shows "m_ok (mon_step env strict (monitor_run env strict (mon_start d) pre) e)"
proof -
  have "m_ok (monitor_run env strict (mon_start d) ((pre @ [e]) @ post))"
    using outbox_run_inv [OF assms(1-4)] assms(5) by (simp add: outbox_inv_def)
  then show ?thesis
    using monitor_run_prefix_ok [of env strict "mon_start d" "pre @ [e]" post] by simp
qed

section \<open>Evidence behind the monitor's flags\<close>

text \<open>
  An acknowledgement of the batch that is on disk, with its revocations applied afterwards when
  nothing is owed any more.
\<close>

definition ack_seen :: "'b env \<Rightarrow> trafficBatch \<Rightarrow> 'b event list \<Rightarrow> bool" where
  "ack_seen env b tr \<longleftrightarrow>
     (\<exists>et body reply. EvRequest ''POST'' ''traffic'' et body reply \<in> set tr \<and> ackOf env b reply \<noteq> None)"

definition ack_applied :: "'b env \<Rightarrow> trafficBatch \<Rightarrow> 'b event list \<Rightarrow> bool" where
  "ack_applied env b tr \<longleftrightarrow>
     (\<exists>tr1 et body reply ack tr2. tr = tr1 @ EvRequest ''POST'' ''traffic'' et body reply # tr2 \<and>
        ackOf env b reply = Some ack \<and> EvRevoke (the (ack_Revoked ack)) True \<in> set tr2)"

definition collision_seen :: "'b env \<Rightarrow> trafficBatch \<Rightarrow> u64 \<Rightarrow> 'b event list \<Rightarrow> bool" where
  "collision_seen env b n tr \<longleftrightarrow>
     (\<exists>et body reply. EvRequest ''POST'' ''traffic'' et body reply \<in> set tr \<and> rebaseOf env b reply = Some n)"

lemma ack_seen_snoc [simp]:
  "ack_seen env b (tr @ [e]) \<longleftrightarrow> ack_seen env b tr \<or>
     (\<exists>et body reply. e = EvRequest ''POST'' ''traffic'' et body reply \<and> ackOf env b reply \<noteq> None)"
  by (auto simp: ack_seen_def)

lemma collision_seen_snoc [simp]:
  "collision_seen env b n (tr @ [e]) \<longleftrightarrow> collision_seen env b n tr \<or>
     (\<exists>et body reply. e = EvRequest ''POST'' ''traffic'' et body reply \<and> rebaseOf env b reply = Some n)"
  by (auto simp: collision_seen_def)

lemma ack_applied_mono:
  assumes "ack_applied env b tr"
  shows "ack_applied env b (tr @ [e])"
proof -
  from assms obtain tr1 et body reply ack tr2
    where "tr @ [e] = tr1 @ EvRequest ''POST'' ''traffic'' et body reply # (tr2 @ [e])"
      "ackOf env b reply = Some ack" "EvRevoke (the (ack_Revoked ack)) True \<in> set (tr2 @ [e])"
    by (auto simp: ack_applied_def)
  then show ?thesis unfolding ack_applied_def by blast
qed

text \<open>Owed revocations: there is an acknowledgement after which exactly they are outstanding.\<close>

definition ack_owing :: "'b env \<Rightarrow> trafficBatch \<Rightarrow> int list \<Rightarrow> 'b event list \<Rightarrow> bool" where
  "ack_owing env b ids tr \<longleftrightarrow>
     (\<exists>et body reply ack. EvRequest ''POST'' ''traffic'' et body reply \<in> set tr \<and>
        ackOf env b reply = Some ack \<and> the (ack_Revoked ack) = ids)"

lemma ack_owing_mono: "ack_owing env b ids tr \<Longrightarrow> ack_owing env b ids (tr @ [e])"
  unfolding ack_owing_def by auto

lemma ack_owing_now:
  "ackOf env b reply = Some ack \<Longrightarrow> ids = the (ack_Revoked ack) \<Longrightarrow>
     ack_owing env b ids (tr @ [EvRequest ''POST'' ''traffic'' et body reply])"
  unfolding ack_owing_def by auto

lemma ack_owing_applied:
  assumes "ack_owing env b ids tr"
  shows "ack_applied env b (tr @ [EvRevoke ids True])"
proof -
  from assms obtain et body reply ack tr1 tr2
    where "tr @ [EvRevoke ids True] = tr1 @ EvRequest ''POST'' ''traffic'' et body reply # (tr2 @ [EvRevoke ids True])"
      "ackOf env b reply = Some ack" "the (ack_Revoked ack) = ids"
    by (auto simp: ack_owing_def in_set_conv_decomp)
  moreover from this(3) have "EvRevoke (the (ack_Revoked ack)) True \<in> set (tr2 @ [EvRevoke ids True])"
    by simp
  ultimately show ?thesis unfolding ack_applied_def by blast
qed

lemma ackOf_revoked: "ackOf env b reply = Some ack \<Longrightarrow> ack_Revoked ack \<noteq> None"
  by (auto simp: ackOf_def dest: validateTrafficAck_error(2) split: sum.splits option.splits if_splits)

definition evidence :: "'b env \<Rightarrow> 'b option \<Rightarrow> 'b event list \<Rightarrow> 'b monitor \<Rightarrow> bool" where
  "evidence env d tr m \<longleftrightarrow>
     (\<forall>b. diskPending env (disk_after d tr) = Some b \<longrightarrow>
        (m_acked m \<longrightarrow> ack_seen env b tr \<and>
           (case m_owed m of None \<Rightarrow> ack_applied env b tr | Some ids \<Rightarrow> ack_owing env b ids tr)) \<and>
        (\<forall>n. m_rebase m = Some n \<longrightarrow> collision_seen env b n tr))"

lemma monitor_evidence:
  "m_ok (monitor_run env strict (mon_start d) tr) \<Longrightarrow> evidence env d tr (monitor_run env strict (mon_start d) tr)"
proof (induction tr rule: rev_induct)
  case Nil
  show ?case by (simp add: evidence_def mon_start_def)
next
  case (snoc e tr)
  let ?m = "monitor_run env strict (mon_start d) tr"
  from snoc have IH: "evidence env d tr ?m" and okm: "m_ok ?m"
    by (auto dest: mon_step_ok)
  have disk: "m_disk ?m = disk_after d tr" by (rule monitor_disk)
  show ?case
  proof (cases e)
    case (EvRequest meth action et body reply)
    with IH disk snoc.prems show ?thesis
      by (auto simp: evidence_def mon_request_def ack_owing_mono ack_applied_mono
          split: option.splits dest: ackOf_revoked intro: ack_owing_now)
  next
    case (EvRename x)
    with IH disk snoc.prems show ?thesis
      by (auto simp: evidence_def mon_rename_def Let_def ack_owing_mono ack_applied_mono split: option.splits)
  next
    case (EvCommit rows success)
    with IH disk snoc.prems show ?thesis
      by (auto simp: evidence_def mon_commit_def ack_owing_mono ack_applied_mono split: option.splits)
  next
    case (EvRevoke ids success)
    with IH disk show ?thesis
      by (auto simp: evidence_def ack_owing_mono ack_applied_mono ack_owing_applied split: option.splits if_splits)
  qed
qed

text \<open>The batch on disk was put there by this process, without taking rows out of the buffer.\<close>

definition created_here :: "'b env \<Rightarrow> 'b option \<Rightarrow> trafficRow list \<Rightarrow> 'b event list \<Rightarrow> bool" where
  "created_here env d rows tr \<longleftrightarrow>
     (\<exists>tr1 y tr2 old new b. tr = tr1 @ EvRename y # tr2 \<and>
        diskState env (disk_after d tr1) = Some old \<and> rs_Pending old = None \<and>
        unjson_state env y = Some new \<and> rs_Pending new = Some b \<and> batch_Rows b = rows \<and>
        rs_Buffered new = rs_Buffered old)"

lemma created_here_mono:
  assumes "created_here env d rows tr"
  shows "created_here env d rows (tr @ [e])"
proof -
  from assms obtain tr1 y tr2 old new b where "tr @ [e] = tr1 @ EvRename y # (tr2 @ [e])"
    "diskState env (disk_after d tr1) = Some old" "rs_Pending old = None"
    "unjson_state env y = Some new" "rs_Pending new = Some b" "batch_Rows b = rows"
    "rs_Buffered new = rs_Buffered old"
    by (auto simp: created_here_def)
  then show ?thesis unfolding created_here_def by blast
qed

lemma created_here_now:
  assumes "diskState env (disk_after d tr) = Some old" "rs_Pending old = None"
    "unjson_state env y = Some new" "rs_Pending new = Some b" "rs_Buffered new = rs_Buffered old"
  shows "created_here env d (batch_Rows b) (tr @ [EvRename y])"
  using assms unfolding created_here_def by blast

lemma own_none:
  assumes "m_ok (monitor_run env strict (mon_start d) tr)" "m_own (monitor_run env strict (mon_start d) tr)"
  shows "disk_after d tr \<noteq> None"
  using assms
proof (induction tr rule: rev_induct)
  case (snoc e tr)
  then show ?case
    by (cases e) (auto simp: mon_request_def mon_commit_def split: option.splits if_splits dest: mon_step_ok)
qed (simp add: mon_start_def)

lemma monitor_own:
  assumes "m_ok (monitor_run env strict (mon_start d) tr)" "m_own (monitor_run env strict (mon_start d) tr)"
    "diskPending env (disk_after d tr) = Some b"
  shows "created_here env d (batch_Rows b) tr"
  using assms
proof (induction tr arbitrary: b rule: rev_induct)
  case Nil
  then show ?case by (simp add: mon_start_def)
next
  case (snoc e tr)
  let ?m = "monitor_run env strict (mon_start d) tr"
  have okm: "m_ok ?m" using snoc.prems(1) by (auto dest: mon_step_ok)
  have disk: "m_disk ?m = disk_after d tr" by (rule monitor_disk)
  show ?case
  proof (cases "\<exists>y. e = EvRename y")
    case False
    then have "m_own ?m" "diskPending env (disk_after d tr) = Some b"
      using snoc.prems by (cases e; auto simp: mon_request_def mon_commit_def split: option.splits if_splits)+
    with snoc.IH [OF okm] show ?thesis by (auto intro: created_here_mono)
  next
    case True
    then obtain y where y: "e = EvRename y" by blast
    from snoc.prems y obtain new where new: "unjson_state env y = Some new" "rs_Pending new = Some b"
      by (auto simp: diskPending_def bind_eq_Some_conv)
    show ?thesis
    proof (cases "\<exists>old. diskState env (disk_after d tr) = Some old \<and> rs_Pending old = None")
      case True
      then obtain old where old: "diskState env (disk_after d tr) = Some old" "rs_Pending old = None" by blast
      with snoc.prems(2) y new disk have "rs_Buffered new = rs_Buffered old"
        by (simp add: mon_rename_def Let_def)
      with old new y show ?thesis by (auto intro: created_here_now)
    next
      case none: False
      show ?thesis
      proof (cases "diskState env (disk_after d tr)")
        case None
        have "diskPending env (disk_after d tr) = None" using None by (simp add: diskPending_def)
        have own: "m_own ?m" using snoc.prems(2) y disk None by (simp add: mon_rename_def Let_def)
        have "disk_after d tr = None" using snoc.prems(1) y disk None by (auto simp: mon_rename_def Let_def split: option.splits)
        with own_none [OF okm own] show ?thesis by simp
      next
        case (Some old)
        with none obtain b' where b': "rs_Pending old = Some b'" by auto
        have own: "m_own ?m" using snoc.prems(2) y disk Some b' new by (simp add: mon_rename_def Let_def)
        have "diskPending env (disk_after d tr) = Some b'" using Some b' by (simp add: diskPending_def)
        from snoc.IH [OF okm own this] have "created_here env d (batch_Rows b') tr" .
        moreover have "batch_Rows b = batch_Rows b'"
          using snoc.prems(1) y disk Some b' new
          by (simp add: mon_rename_def Let_def replace_ok_def pending_ok_def)
        ultimately show ?thesis by (simp add: created_here_mono)
      qed
    qed
  qed
qed

lemma monitor_done:
  assumes "m_ok (monitor_run env strict m (pre @ EvCommit rows True # mid))"
    "\<forall>y. EvRename y \<in> set mid \<longrightarrow> diskPending env (Some y) \<noteq> None"
  shows "m_done (monitor_run env strict m (pre @ EvCommit rows True # mid))"
  using assms
proof (induction mid rule: rev_induct)
  case Nil
  then show ?case using monitor_run_simps(2) [of env strict m pre "EvCommit rows True"]
    by (simp add: mon_commit_def)
next
  case (snoc e mid)
  let ?tr = "pre @ EvCommit rows True # mid"
  have eq: "monitor_run env strict m (pre @ EvCommit rows True # (mid @ [e])) =
      mon_step env strict (monitor_run env strict m ?tr) e"
    using monitor_run_simps(2) [of env strict m ?tr e] by simp
  have "m_ok (monitor_run env strict m ?tr)"
    using snoc.prems(1) unfolding eq by (rule mon_step_ok)
  with snoc have "m_done (monitor_run env strict m ?tr)" by simp
  with snoc.prems(2) show ?case
    unfolding eq by (cases e) (auto simp: mon_request_def mon_rename_def mon_commit_def Let_def split: option.splits)
qed

definition no_panic :: "goerr + 'a \<Rightarrow> bool" where
  "no_panic r \<longleftrightarrow> (case r of Inl e \<Rightarrow> \<not> panics e | Inr _ \<Rightarrow> True)"

section \<open>Properties of every run\<close>

text \<open>C2: Write-ahead. Whenever the client posts traffic, the posted bytes are the serialisation
  of the pending batch that the state file holds at that moment: a batch is durable before the
  panel can see it, and it is never re-sent in another form.\<close>

theorem outbox_write_ahead:
  assumes "codec_ok env" "clock_ok env" "ctx_ok env"
    and "outbox_run env False (newClient host nid path d rt) s"
    and "trace s = pre @ EvRequest ''POST'' ''traffic'' etag body reply # post"
  shows "\<exists>b. diskPending env (disk_after d pre) = Some b \<and> body = Some (json_batch env b)"
  using run_monitor [OF assms]
  by (auto simp: mon_request_def monitor_disk split: option.splits)

text \<open>C3: An unconfirmed batch is never given up or altered. When the state file is replaced
  while it holds a pending batch, the new file either holds the same rows, under the same
  sequence number or under the one the panel named in a proof of collision, or the panel
  acknowledged exactly this batch and the revocations of that acknowledgement were applied, or
  the decision to isolate the batch was on disk already.\<close>

theorem outbox_batch_retained:
  assumes "codec_ok env" "clock_ok env" "ctx_ok env"
    and "outbox_run env False (newClient host nid path d rt) s"
    and "trace s = pre @ EvRename y # post"
    and "diskPending env (disk_after d pre) = Some b"
  shows "(\<exists>b'. diskPending env (Some y) = Some b' \<and> batch_Rows b' = batch_Rows b \<and>
            (batch_Sequence b' = batch_Sequence b \<or> collision_seen env b (batch_Sequence b') pre)) \<or>
         ack_applied env b pre \<or> diskResolved env (disk_after d pre)"
proof -
  let ?m = "monitor_run env False (mon_start d) pre"
  have step: "m_ok (mon_rename env False y ?m)" using run_monitor [OF assms(1-5)] by simp
  then have ev: "evidence env d pre ?m" by (intro monitor_evidence) (simp add: mon_rename_def Let_def)
  from assms(6) obtain old where old: "diskState env (disk_after d pre) = Some old" "rs_Pending old = Some b"
    by (auto simp: diskPending_def bind_eq_Some_conv)
  with step obtain new where new: "unjson_state env y = Some new" and ok: "pending_ok ?m old new"
    by (auto simp: mon_rename_def Let_def monitor_disk replace_ok_def split: option.splits)
  show ?thesis
  proof (cases "rs_Pending new")
    case None
    with ok old ev assms(6) show ?thesis
      by (auto simp: pending_ok_def evidence_def diskResolved_def)
  next
    case (Some b')
    with ok old ev assms(6) new show ?thesis
      by (auto simp: pending_ok_def evidence_def diskPending_def)
  qed
qed

text \<open>C4: Counters are settled only with proof. The runtime is told to deduct rows only when
  these rows are the pending batch on disk and either the panel acknowledged exactly this batch
  or the decision to isolate it is on disk.\<close>

theorem outbox_commit_justified:
  assumes "codec_ok env" "clock_ok env" "ctx_ok env"
    and "outbox_run env False (newClient host nid path d rt) s"
    and "trace s = pre @ EvCommit rows success # post"
  shows "\<exists>b. diskPending env (disk_after d pre) = Some b \<and> map (strip_row \<circ> row_of_user) rows = batch_Rows b \<and>
           (ack_seen env b pre \<or> diskResolved env (disk_after d pre))"
proof -
  let ?m = "monitor_run env False (mon_start d) pre"
  have step: "m_ok (mon_commit env rows success ?m)" using run_monitor [OF assms(1-5)] by simp
  then have ev: "evidence env d pre ?m" by (intro monitor_evidence) (simp add: mon_commit_def)
  from step ev show ?thesis
    by (auto simp: mon_commit_def monitor_disk evidence_def split: option.splits)
qed

text \<open>C5: Counters are settled at most once per batch. Between a successful deduction and the
  next attempt at one, the state file was replaced by one without a pending batch.\<close>

theorem outbox_commit_once:
  assumes "codec_ok env" "clock_ok env" "ctx_ok env"
    and "outbox_run env False (newClient host nid path d rt) s"
    and "trace s = pre @ EvCommit rows True # mid @ EvCommit rows' success # post"
  shows "\<exists>y. EvRename y \<in> set mid \<and> diskPending env (Some y) = None"
proof (rule ccontr)
  assume none: "\<not> ?thesis"
  let ?pre = "pre @ EvCommit rows True # mid"
  have "m_ok (mon_commit env rows' success (monitor_run env False (mon_start d) ?pre))"
    using run_monitor [OF assms(1-4), of ?pre] assms(5) by simp
  then have "m_ok (monitor_run env False (mon_start d) ?pre)"
    "\<not> m_done (monitor_run env False (mon_start d) ?pre)"
    by (auto simp: mon_commit_def split: option.splits)
  with monitor_done [of env False "mon_start d" pre rows mid] none show False by auto
qed

text \<open>C6: Rows recovered from an earlier process are never deducted from this process's
  counters. The deducted rows went to disk as a new pending batch in this process, and not out
  of the buffer of recovered rows.\<close>

theorem outbox_commit_own_rows:
  assumes "codec_ok env" "clock_ok env" "ctx_ok env"
    and "outbox_run env False (newClient host nid path d rt) s"
    and "trace s = pre @ EvCommit rows success # post"
  shows "created_here env d (map (strip_row \<circ> row_of_user) rows) pre"
proof -
  let ?m = "monitor_run env False (mon_start d) pre"
  have step: "m_ok (mon_commit env rows success ?m)" using run_monitor [OF assms(1-5)] by simp
  then obtain b where "diskPending env (disk_after d pre) = Some b" "m_own ?m" "m_ok ?m"
      "map (strip_row \<circ> row_of_user) rows = batch_Rows b"
    by (auto simp: mon_commit_def monitor_disk split: option.splits)
  with monitor_own [of env False d pre b] show ?thesis by simp
qed

text \<open>C9: Every file the client writes is one that a restarted client accepts: it decodes, passes
  the validation of \<open>loadReportState\<close>, is within the size bound, and it never replaces a file
  that does not decode.\<close>

theorem outbox_written_states_load:
  assumes "codec_ok env" "clock_ok env" "ctx_ok env"
    and "outbox_run env False (newClient host nid path d rt) s"
    and "trace s = pre @ EvRename y # post"
  shows "(\<exists>st. unjson_state env y = Some st \<and> validReportState st) \<and> bsize env y \<le> stateLimit \<and>
         (disk_after d pre = None \<or> diskState env (disk_after d pre) \<noteq> None)"
  using run_monitor [OF assms]
  by (auto simp: mon_rename_def Let_def monitor_disk split: option.splits)

text \<open>C10: Reporting rounds lose no row. In a run without a drain, when the state file is replaced,
  every row of the old file that is not part of a batch given up is in the new file, with its
  multiplicity.\<close>

theorem outbox_rows_conserved:
  assumes "codec_ok env" "clock_ok env" "ctx_ok env"
    and "outbox_run env True (newClient host nid path d rt) s"
    and "trace s = pre @ EvRename y # post"
    and "diskState env (disk_after d pre) = Some old"
  shows "\<exists>new. unjson_state env y = Some new \<and>
           (if rs_Pending old \<noteq> None \<and> rs_Pending new = None
            then mset (rs_Buffered old) \<subseteq># mset (live_rows new)
            else mset (live_rows old) \<subseteq># mset (live_rows new))"
  using run_monitor [OF assms(1-5)] assms(6)
  by (auto simp: mon_rename_def Let_def monitor_disk replace_ok_def rows_ok_def split: option.splits)

text \<open>C11: No operation of the outbox panics, whatever the panel answers and wherever the file
  system fails: no nil state is dereferenced and no empty batch is indexed.\<close>

theorem outbox_no_panic:
  assumes "codec_ok env" "clock_ok env" "ctx_ok env" "hooks_ok hk"
    and "outbox_run env False (newClient host nid path d rt) s"
  shows "no_panic (fst (FlushTrafficLimit env hk batches s)) \<and> no_panic (fst (PersistTraffic env hk s))"
proof -
  have inv: "outbox_inv env False d s" by (rule outbox_run_inv [OF assms(1-3,5)])
  from FlushTrafficLimit_safe [OF assms(1,4,2,3) inv, of batches]
    PersistTraffic_safe [OF assms(1,4,3) inv] show ?thesis
    by (auto simp: safe_def no_panic_def split: sum.splits)
qed

end
