(* ===== verification/Outbox_Live.thy ===== *)
theory Outbox_Live
  imports Outbox_Run
begin

text \<open>
  Progress of the outbox: against a panel that acknowledges what it is sent and a file system
  that works, a reporting round ends successfully with every captured row delivered; and, with
  any panel, a round that succeeds has settled exactly the captured rows.
\<close>

section \<open>What a successful round commits\<close>

definition commit_rows :: "'b event \<Rightarrow> UserTraffic list" where
  "commit_rows e = (case e of EvCommit rows True \<Rightarrow> rows | _ \<Rightarrow> [])"

definition commits :: "'b event list \<Rightarrow> UserTraffic list" where
  "commits tr = concat (map commit_rows tr)"

lemma commits_simps [simp]:
  "commits [] = []" "commits (tr @ tr') = commits tr @ commits tr'"
  "commits (e # tr) = commit_rows e @ commits tr"
  "commit_rows (EvRequest m a et b r) = []" "commit_rows (EvRename d) = []"
  "commit_rows (EvRevoke ids bb) = []" "commit_rows (EvCommit rows True) = rows"
  "commit_rows (EvCommit rows False) = []"
  by (simp_all add: commits_def commit_rows_def)

lemma save_commits: "saveReportState env st s = (r, t) \<Longrightarrow> commits (trace t) = commits (trace s)"
  by (erule saveReportState_cases) auto

lemma request_commits: "request env m a et b s = (r, t) \<Longrightarrow> commits (trace t) = commits (trace s)"
  by (auto simp: request_def Let_def)

text \<open>The rows a client still has to settle: those of its pending batch.\<close>

definition unsettled :: "('b, 'r) client \<Rightarrow> UserTraffic list" where
  "unsettled s =
     (case outbox s of None \<Rightarrow> []
      | Some ob \<Rightarrow> (case rs_Pending ob of None \<Rightarrow> []
          | Some b \<Rightarrow> if committed s \<or> recovered s then [] else map user_of_row (batch_Rows b)))"

lemma commitOnce_commits:
  assumes "outbox s = Some ob" "rs_Pending ob = Some b" "commitOnce hk b s = (Inr u, t)"
  shows "commits (trace t) = commits (trace s) @ unsettled s" "outbox t = outbox s" "unsettled t = []"
proof -
  have "commits (trace t) = commits (trace s) @ unsettled s \<and> outbox t = outbox s \<and> unsettled t = []"
  proof (cases "committed s \<or> recovered s")
    case True
    with assms show ?thesis by (auto simp: commitOnce_def ok_def unsettled_def)
  next
    case False
    with assms(3) obtain a s1 where c: "callCommit hk (map user_of_row (batch_Rows b)) s = (Inr a, s1)"
        and t: "t = s1\<lparr>committed := True\<rparr>"
      by (auto simp: commitOnce_def bindE_Inr_iff ok_def)
    from callCommit_frame [OF c] t False assms(1,2) show ?thesis by (simp add: unsettled_def)
  qed
  then show "commits (trace t) = commits (trace s) @ unsettled s" "outbox t = outbox s" "unsettled t = []"
    by simp_all
qed

lemma finishAck_commits:
  assumes "outbox s = Some ob" "rs_Pending ob = Some b" "finishAck env hk ob b ack s = (Inr u, t)"
  shows "commits (trace t) = commits (trace s) @ unsettled s"
proof -
  from assms(3) obtain x1 s1 x2 s2 where c: "commitOnce hk b s = (Inr x1, s1)"
      and r: "callRevoke hk (the (ack_Revoked ack)) s1 = (Inr x2, s2)"
      and rest: "commits (trace t) = commits (trace s2)"
    unfolding finishAck_def bindE_Inr_iff Let_def
    by (auto simp: fail_def ok_def bindE_Inr_iff dest: save_commits split: if_splits)
  from commitOnce_commits [OF assms(1,2) c] callRevoke_frame [OF r] rest show ?thesis by simp
qed

lemma save_plain: "saveReportState env st s = (r, t) \<Longrightarrow> plain_error r"
  by (erule saveReportState_cases) auto

lemma commitOnce_plain: "hooks_ok hk \<Longrightarrow> commitOnce hk b s = (r, t) \<Longrightarrow> plain_error r"
  by (auto simp: commitOnce_def ok_def elim!: bindE_cases dest: hooks_okD(1) split: if_splits)

lemma plain_bind:
  assumes "bindE m k = (r, t)" "\<And>r1 t1. m = (r1, t1) \<Longrightarrow> plain_error r1"
    "\<And>a s1. m = (Inr a, s1) \<Longrightarrow> k a s1 = (r, t) \<Longrightarrow> plain_error r"
  shows "plain_error r"
  using assms(1)
proof (cases rule: bindE_cases)
  case (err e)
  with assms(2) [OF err(1)] show ?thesis by simp
next
  case (ok a s)
  then show ?thesis by (rule assms(3))
qed

lemma finishAck_plain:
  assumes "hooks_ok hk" "finishAck env hk ob b ack s = (r, t)"
  shows "plain_error r"
  using assms(2) unfolding finishAck_def
  by (auto elim!: plain_bind simp: Let_def fail_def ok_def split: if_splits
      dest: commitOnce_plain [OF assms(1)] hooks_okD(2) [OF assms(1)] save_plain)

lemma unsettled_cong:
  "outbox t = outbox s \<Longrightarrow> committed t = committed s \<Longrightarrow> recovered t = recovered s \<Longrightarrow> unsettled t = unsettled s"
  by (simp add: unsettled_def cong: option.case_cong)

lemma sendPendingOnce_commits:
  assumes "hooks_ok hk" "outbox s = Some ob" "sendPendingOnce env hk s = (r, t)"
  shows "r = Inr u \<Longrightarrow> commits (trace t) = commits (trace s) @ unsettled s"
    "r = Inl e \<Longrightarrow> as_unconfirmed e \<noteq> None \<Longrightarrow>
       commits (trace t) = commits (trace s) \<and> unsettled t = unsettled s"
proof -
  have "(\<forall>u. r = Inr u \<longrightarrow> commits (trace t) = commits (trace s) @ unsettled s) \<and>
    (\<forall>e. r = Inl e \<longrightarrow> as_unconfirmed e \<noteq> None \<longrightarrow>
       commits (trace t) = commits (trace s) \<and> unsettled t = unsettled s)"
  proof (cases "rs_Pending ob")
    case None
    with assms show ?thesis by (auto simp: sendPendingOnce_def ok_def unsettled_def)
  next
    case (Some b)
    obtain r1 s1 where q: "request env ''POST'' ''traffic'' [] (Some (json_batch env b)) s = (r1, s1)" by fastforce
    note f = request_frame [OF q] and c = request_commits [OF q]
    have un: "unsettled s1 = unsettled s" using f by (intro unsettled_cong)
    have ob1: "outbox s1 = Some ob" using f assms(2) by simp
    note run = assms(3) [unfolded sendPendingOnce_def assms(2) option.case Some q prod.case]
    show ?thesis
    proof (cases "\<exists>ack. finishAck env hk ob b ack s1 = (r, t)")
      case True
      then obtain ack where fin: "finishAck env hk ob b ack s1 = (r, t)" ..
      have "as_unconfirmed e = None" if "r = Inl e" for e
        using finishAck_plain [OF assms(1) fin] that by simp
      with finishAck_commits [OF ob1 Some, of env hk ack _ t] fin c un show ?thesis by auto
    next
      case False
      with run have "\<exists>e. r = Inl e \<and> t = s1"
        by (auto simp: fail_def split: sum.splits prod.splits option.splits)
      with c un show ?thesis by auto
    qed
  qed
  then show "r = Inr u \<Longrightarrow> commits (trace t) = commits (trace s) @ unsettled s"
    "r = Inl e \<Longrightarrow> as_unconfirmed e \<noteq> None \<Longrightarrow>
       commits (trace t) = commits (trace s) \<and> unsettled t = unsettled s"
    by auto
qed

text \<open>A step that succeeded, settled the pending rows and left no batch behind.\<close>

definition settles :: "('b, 'r) client \<Rightarrow> ('b, 'r) client \<Rightarrow> bool" where
  "settles s t \<longleftrightarrow>
     commits (trace t) = commits (trace s) @ unsettled s \<and>
     (\<forall>ob. outbox s = Some ob \<and> rs_Pending ob \<noteq> None \<longrightarrow> \<not> committed t \<and> \<not> recovered t)"

lemma save_reset:
  "saveReportState env st s = (Inr u, t) \<Longrightarrow> rs_Pending st = None \<Longrightarrow> \<not> committed t \<and> \<not> recovered t"
  by (erule saveReportState_cases) auto

lemma save_unsettled:
  assumes "saveReportState env st s = (Inr u, t)" "outbox s = Some ob"
    "map_option batch_Rows (rs_Pending st) = map_option batch_Rows (rs_Pending ob)"
  shows "unsettled t = unsettled s" "commits (trace t) = commits (trace s)" "outbox t = Some (fitState env st)"
proof -
  show "unsettled t = unsettled s"
    using assms by (auto elim!: saveReportState_cases simp: unsettled_def split: option.splits)
qed (use assms in \<open>auto dest: save_commits save_outbox\<close>)

lemma getUsers_commits: "getUsers env etag s = (r, t) \<Longrightarrow> commits (trace t) = commits (trace s)"
  using getUsers_snd [of env etag s] request_commits [of env "''GET''" "''users''" etag None s]
  by (metis prod.collapse snd_conv)

lemma getUsers_unsettled: "getUsers env etag s = (r, t) \<Longrightarrow> unsettled t = unsettled s"
  using only_trace_fields [OF only_trace_getUsers [of s env etag]] by (intro unsettled_cong) auto

lemma finishTrafficIsolation_settles:
  assumes "outbox s = Some ob" "finishTrafficIsolation env hk s = (Inr u, t)"
  shows "settles s t"
proof -
  obtain snap s1 batch res x2 s2 x3 s3 x4 s4 where
    g: "getUsers env [] (s\<lparr>cache := InvalidateUsers (cache s)\<rparr>) = (Inr (Some snap), s1)"
    and pend: "rs_Pending ob = Some batch" "rs_Resolution ob = Some res"
    and r: "callRevoke hk (inactiveUIDs (snap_Users snap) (batch_Rows batch)) s1 = (Inr x2, s2)"
    and c: "commitOnce hk batch s2 = (Inr x3, s3)"
    and v: "saveReportState env (isolatedState batch res ob (env_now env (tick s3))) s3 = (Inr x4, s4)"
    and t: "trace t = trace s4" "committed t = committed s4" "recovered t = recovered s4"
    using assms(2) unfolding finishTrafficIsolation_def assms(1) option.case
    by (auto simp: ok_def fail_def elim!: bindE_cases split: option.splits if_splits)
  have s1: "unsettled s1 = unsettled s" "commits (trace s1) = commits (trace s)" "outbox s1 = Some ob"
    using getUsers_unsettled [OF g] getUsers_commits [OF g] getUsers_outbox [OF g] assms(1)
    by (simp_all add: unsettled_cong [of "s\<lparr>cache := InvalidateUsers (cache s)\<rparr>" s])
  have s2: "unsettled s2 = unsettled s" "commits (trace s2) = commits (trace s)" "outbox s2 = Some ob"
    using callRevoke_frame [OF r] s1 unsettled_cong [of s2 s1] by simp_all
  from commitOnce_commits [OF s2(3) pend(1) c] s2 save_commits [OF v] save_reset [OF v] t show ?thesis
    by (simp add: settles_def isolatedState_def)
qed

lemma isolateTraffic_settles:
  assumes "outbox s = Some ob" "isolateTraffic env hk next s = (Inr u, t)"
  shows "settles s t"
proof -
  let ?st = "ob\<lparr>rs_Resolution := Some \<lparr>res_Next = next, res_At = env_now env (tick s)\<rparr>\<rparr>"
  from assms obtain x s1 where v: "saveReportState env ?st s = (Inr x, s1)"
      and f: "finishTrafficIsolation env hk s1 = (Inr u, t)"
    by (auto simp: isolateTraffic_def bindE_Inr_iff)
  from save_unsettled [OF v assms(1)] finishTrafficIsolation_settles [OF _ f] assms(1) show ?thesis
    by (auto simp: settles_def)
qed

lemma isolateAtCursor_settles:
  assumes "outbox s = Some ob" "isolateAtCursor env hk s = (Inr u, t)"
  shows "settles s t"
proof -
  obtain r1 s1 where c: "readTrafficCursor env s = (r1, s1)" by fastforce
  obtain r2 where q: "request env ''GET'' ''state'' [] None s = (r2, s1)"
    using readTrafficCursor_frame [OF c] by (metis prod.collapse)
  from assms(2) c obtain n where "isolateTraffic env hk n s1 = (Inr u, t)"
    by (auto simp: isolateAtCursor_def fail_def split: sum.splits)
  with isolateTraffic_settles [of s1 ob env hk n u t] request_frame [OF q] request_commits [OF q]
    unsettled_cong [of s1 s] assms(1) show ?thesis
    by (simp add: settles_def)
qed

lemma sendPendingOnce_settles:
  assumes "hooks_ok hk" "outbox s = Some ob" "sendPendingOnce env hk s = (Inr u, t)"
  shows "settles s t"
proof -
  have "\<not> committed t \<and> \<not> recovered t" if "rs_Pending ob \<noteq> None"
    using assms(2,3) that
    by (auto simp: sendPendingOnce_def finishAck_def bindE_Inr_iff ok_def fail_def Let_def
        split: sum.splits prod.splits option.splits if_splits)
  with sendPendingOnce_commits(1) [OF assms(1-3)] assms(2) show ?thesis by (simp add: settles_def)
qed

lemma rebase_unsettled:
  assumes "outbox s = Some ob" "rebaseTrafficConflict env c s = (Inr u, t)"
  shows "unsettled t = unsettled s" "commits (trace t) = commits (trace s)"
    "\<exists>ob'. outbox t = Some ob' \<and> rs_Pending ob' \<noteq> None"
proof -
  from assms obtain b where b: "rs_Pending ob = Some b"
      and v: "saveReportState env (rebasedState c b ob) s = (Inr u, t)"
    by (auto simp: rebaseTrafficConflict_def fail_def split: option.splits if_splits)
  from save_unsettled [OF v assms(1)] b
  show "unsettled t = unsettled s" "commits (trace t) = commits (trace s)"
    "\<exists>ob'. outbox t = Some ob' \<and> rs_Pending ob' \<noteq> None"
    by (simp_all add: rebasedState_def)
qed

lemma sendAttempt_settles:
  assumes hk: "hooks_ok hk"
  shows "outbox s = Some ob \<Longrightarrow> sendAttempt env hk attempt s = (Inr u, t) \<Longrightarrow> settles s t"
proof (induction "1 - attempt" arbitrary: attempt s ob rule: less_induct)
  case less
  obtain r1 s1 where once: "sendPendingOnce env hk s = (r1, s1)" by fastforce
  show ?case
  proof (cases r1)
    case (Inr v)
    with once less.prems sendPendingOnce_settles [OF hk less.prems(1), of env v s1] show ?thesis
      by (auto simp: sendAttempt.simps [of env hk attempt s] ok_def)
  next
    case (Inl e)
    have ob1: "outbox s1 = Some ob"
      using once Inl less.prems(1) by (auto dest: sendPendingOnce_error_outbox)
    let ?st = "ob\<lparr>rs_Failures := min (wrap64 (rs_Failures ob + 1)) 3\<rparr>"
    from less.prems(2) once Inl ob1 obtain s2 x where unc: "as_unconfirmed e \<noteq> None"
        and v: "saveReportState env ?st s1 = (Inr x, s2)"
      by (auto simp: sendAttempt.simps [of env hk attempt s] fail_def bindE_Inr_iff split: if_splits)
    note s1 = sendPendingOnce_commits(2) [OF hk less.prems(1) once Inl unc]
    note s2 = save_unsettled [OF v ob1, simplified]
    have pend: "rs_Pending ob \<noteq> None"
      using once Inl less.prems(1) by (auto simp: sendPendingOnce_def ok_def split: option.splits)
    have via: "settles s t" if "settles s2 t"
      using that s1 s2 less.prems(1) by (simp add: settles_def)
    have reb: "settles s2 t"
      if rb: "rebaseTrafficConflict env c s2 = (Inr y, s3)"
        and again: "sendAttempt env hk (Suc attempt) s3 = (Inr u, t)" "attempt = 0" for c y s3
    proof -
      obtain ob3 where ob3: "outbox s3 = Some ob3" "rs_Pending ob3 \<noteq> None"
        using rebase_unsettled(3) [OF s2(3) rb] by blast
      from less.hyps [OF _ ob3(1) again(1)] again(2) have "settles s3 t" by simp
      with rebase_unsettled(1,2) [OF s2(3) rb] ob3 show ?thesis by (simp add: settles_def)
    qed
    show ?thesis
      using less.prems(2) once Inl ob1 unc v s2(3) reb
      by (auto simp: sendAttempt.simps [of env hk attempt s] fail_def bindE_Inr_iff intro!: via
          split: option.splits if_splits dest: isolateTraffic_settles isolateAtCursor_settles)
  qed
qed

lemma sendPending_settles:
  assumes "hooks_ok hk" "outbox s = Some ob" "sendPending env hk s = (Inr u, t)"
  shows "settles s t"
  using assms
  by (auto simp: sendPending_def split: if_splits dest: finishTrafficIsolation_settles sendAttempt_settles)

text \<open>A client between two batches of a round: nothing pending, buffered or half settled.\<close>

definition idle :: "('b, 'r) client \<Rightarrow> bool" where
  "idle s \<longleftrightarrow> cleared [] s \<and> \<not> committed s \<and> \<not> recovered s"

lemma send_queued:
  assumes "hooks_ok hk" "idle s" "outbox s = Some ob"
    "bindE (saveReportState env (pendingState ob sel []) s) (\<lambda>_ s. sendPending env hk s) = (Inr u, t)"
  shows "commits (trace t) = commits (trace s) @ map user_of_row sel" "idle t"
proof -
  from assms(4) obtain x s1 where v: "saveReportState env (pendingState ob sel []) s = (Inr x, s1)"
      and sp: "sendPending env hk s1 = (Inr u, t)"
    by (auto simp: bindE_Inr_iff)
  have s1: "outbox s1 = Some (fitState env (pendingState ob sel []))" "\<not> committed s1" "\<not> recovered s1"
    using v assms(2) by (auto elim!: saveReportState_cases simp: idle_def)
  then have un: "unsettled s1 = map user_of_row sel" by (simp add: unsettled_def pendingState_def)
  have st: "settles s1 t" using sendPending_settles [OF assms(1) s1(1) sp] .
  have "cleared [] t"
    using sendPending_clears [OF sp] s1(1) by (simp add: holds_buffer_def pendingState_def)
  with st s1(1) show "idle t" by (simp add: settles_def idle_def pendingState_def)
  from st un save_commits [OF v] show "commits (trace t) = commits (trace s) @ map user_of_row sel"
    by (simp add: settles_def)
qed

lemma flushQueue_commits:
  assumes hk: "hooks_ok hk"
  shows "flushQueue env hk batches queued s = (Inr u, t) \<Longrightarrow> idle s \<Longrightarrow>
    \<exists>done. commits (trace t) = commits (trace s) @ map user_of_row done \<and> mset done \<subseteq># mset queued \<and>
      (batches \<le> 0 \<longrightarrow> mset done = mset queued) \<and> idle t"
proof (induction "length queued" arbitrary: batches queued s rule: less_induct)
  case less
  show ?case
  proof (cases "queued = []")
    case True
    with less.prems show ?thesis
      by (auto simp: flushQueue.simps [of env hk batches "[]" s] ok_def)
  next
    case False
    obtain ob where ob: "outbox s = Some ob" using less.prems(2) by (auto simp: idle_def cleared_def)
    from False less.prems(1) ob obtain sel rest where sel: "selectTrafficBatch queued = Inr (sel, rest)"
      and ctx: "env_ctx env (tick s) = None"
      by (auto simp: flushQueue.simps [of env hk batches queued s] fail_def split: option.splits sum.splits)
    define m where "m = bindE (saveReportState env (pendingState ob sel []) s) (\<lambda>_ s. sendPending env hk s)"
    have eq: "flushQueue env hk batches queued s = bindE m (\<lambda>_ s.
        if batches > 0
        then (if batches - 1 = 0 then ok () s else flushQueue env hk (batches - 1) rest s)
        else flushQueue env hk batches rest s)"
      using False ob sel ctx unfolding m_def bindE_assoc2 [symmetric]
      by (simp add: flushQueue.simps [of env hk batches queued s])
    with less.prems(1) obtain x s1 where m: "m = (Inr x, s1)"
      and rest: "(if batches > 0 then (if batches - 1 = 0 then ok () s1 else flushQueue env hk (batches - 1) rest s1)
        else flushQueue env hk batches rest s1) = (Inr u, t)"
      by (auto simp: bindE_Inr_iff)
    note one = send_queued [OF hk less.prems(2) ob m [unfolded m_def]]
    note ms = select_batch_mset [OF sel]
    have len: "length rest < length queued" using select_batch_shorter [OF sel False] .
    show ?thesis
    proof (cases "batches = 1")
      case True
      with rest one ms [symmetric] show ?thesis by (intro exI [of _ sel]) (auto simp: ok_def)
    next
      case many: False
      define n where "n = (if batches > 0 then batches - 1 else batches)"
      have n: "n \<le> 0 \<longleftrightarrow> batches \<le> 0" using many by (auto simp: n_def)
      from rest many have "flushQueue env hk n rest s1 = (Inr u, t)"
        by (auto simp: n_def split: if_splits)
      from less.hyps [OF len this one(2)] obtain done'
        where d: "commits (trace t) = commits (trace s1) @ map user_of_row done'" "mset done' \<subseteq># mset rest"
          "batches \<le> 0 \<longrightarrow> mset done' = mset rest" "idle t"
        unfolding n by blast
      with one ms show ?thesis
        by (intro exI [of _ "sel @ done'"]) (auto simp flip: ms)
    qed
  qed
qed

lemma mset_rotateRows [simp]: "mset (rotateRows n rows) = mset rows"
proof -
  have "mset (drop k xs @ take k xs) = mset xs" for k and xs :: "UserTraffic list"
    by (metis append_take_drop_id mset_append union_commute)
  then show ?thesis by (simp add: rotateRows_def Let_def)
qed


section \<open>A cooperative environment\<close>

text \<open>
  The file system, the lock and the context do not fail, states fit their size bound, and the
  panel acknowledges every batch.
\<close>

definition cooperative :: "'b env \<Rightarrow> bool" where
  "cooperative env \<longleftrightarrow>
     (\<forall>n. env_fs env n = None) \<and> (\<forall>n. env_lock env n = Inr True) \<and> (\<forall>n. env_ctx env n = None) \<and>
     (\<forall>st. bsize env (json_state env st) \<le> stateLimit) \<and>
     (\<forall>h b. ackOf env b (env_panel env h ''POST'' ''traffic'' [] (Some (json_batch env b))) \<noteq> None)"

definition hooks_succeed :: "'r hooks \<Rightarrow> bool" where
  "hooks_succeed hk \<longleftrightarrow>
     (\<forall>x. succeeded (fst (capture hk x))) \<and> (\<forall>rows x. succeeded (fst (commit hk rows x))) \<and>
     (\<forall>ids x. succeeded (fst (revoke hk ids x)))"

lemma coop_fsop [simp]: "cooperative env \<Longrightarrow> fsop env s = (Inr (), s\<lparr>tick := Suc (tick s)\<rparr>)"
  by (simp add: fsop_def cooperative_def)

lemma coop_fit [simp]: "cooperative env \<Longrightarrow> fitState env st = st"
  by (simp add: fitState_def cooperative_def leD)

lemma coop_save:
  assumes "cooperative env" "outboxPath s \<noteq> []"
  obtains n n' where "saveReportState env st s = (Inr (), settled st (renamed env st s n) n')"
proof -
  have "\<exists>u t. saveReportState env st s = (Inr u, t)"
    using assms
    by (auto simp: saveReportState_def writeTemp_def finishStateSync_def syncReportDirectory_def Let_def ok_def fail_def
        cooperative_def [of env] leD)
  then obtain u t where sv: "saveReportState env st s = (Inr u, t)" by blast
  from sv show ?thesis
  proof (cases rule: saveReportState_cases)
    case (ok n n')
    with sv that coop_fit [OF assms(1)] show ?thesis by simp
  qed simp_all
qed

lemma coop_request:
  assumes "cooperative env" "request env ''POST'' ''traffic'' [] (Some (json_batch env b)) s = (r, t)"
  obtains d et un ack where "r = Inr (d, et, un)" "Option.bind d (unjson_ack env) = Some ack"
    "validateTrafficAck ack (batch_Sequence b) (digestOf env b) = None"
proof -
  have "ackOf env b (env_panel env (trace s) ''POST'' ''traffic'' [] (Some (json_batch env b))) \<noteq> None"
    using assms(1) by (simp add: cooperative_def)
  with that request_frame(13) [OF assms(2)] show ?thesis
    by (auto simp: ackOf_def split: sum.splits prod.splits option.splits if_splits)
qed

lemma hooks_succeedD:
  assumes "hooks_succeed hk"
  shows "\<exists>t. callCommit hk rows s = (Inr (), t)" "\<exists>t. callRevoke hk ids s = (Inr (), t)"
    "\<exists>rows t. callCapture hk s = (Inr rows, t)"
proof -
  have "succeeded (fst (commit hk rows (cache s, runtime s)))"
    "succeeded (fst (revoke hk ids (cache s, runtime s)))" "succeeded (fst (capture hk (cache s, runtime s)))"
    using assms by (simp_all add: hooks_succeed_def)
  then show "\<exists>t. callCommit hk rows s = (Inr (), t)" "\<exists>t. callRevoke hk ids s = (Inr (), t)"
    "\<exists>rows t. callCapture hk s = (Inr rows, t)"
    by (auto simp: callCommit_def callRevoke_def callCapture_def succeeded_def split: prod.splits sum.splits)
qed

definition stored :: "'b env \<Rightarrow> reportState \<Rightarrow> ('b, 'r) client \<Rightarrow> bool" where
  "stored env ob s \<longleftrightarrow>
     outbox s = Some ob \<and> unsynced s = None \<and> disk s = Some (json_state env ob) \<and> outboxPath s \<noteq> [] \<and>
     \<not> draining s"

lemma coop_save_stored:
  assumes "cooperative env" "outboxPath s \<noteq> []" "\<not> draining s"
  obtains t where "saveReportState env st s = (Inr (), t)" "stored env st t"
    "trace t = trace s @ [EvRename (json_state env st)]"
    "committed t = (committed s \<and> rs_Pending st \<noteq> None)" "recovered t = (recovered s \<and> rs_Pending st \<noteq> None)"
proof -
  obtain n n' where "saveReportState env st s = (Inr (), settled st (renamed env st s n) n')"
    using coop_save [OF assms(1,2)] .
  then show ?thesis by (rule that) (use assms in \<open>simp_all add: stored_def\<close>)
qed

lemma coop_commitOnce:
  assumes "hooks_succeed hk"
  obtains t where "commitOnce hk b s = (Inr (), t)"
    "trace t = trace s @ (if committed s \<or> recovered s then [] else [EvCommit (map user_of_row (batch_Rows b)) True])"
    "outboxPath t = outboxPath s" "draining t = draining s"
proof (cases "committed s \<or> recovered s")
  case True
  then show ?thesis using that [of s] by (auto simp: commitOnce_def ok_def)
next
  case False
  obtain t where c: "callCommit hk (map user_of_row (batch_Rows b)) s = (Inr (), t)"
    using hooks_succeedD(1) [OF assms] by blast
  from callCommit_frame [OF c] c False that [of "t\<lparr>committed := True\<rparr>"] show ?thesis
    by (simp add: commitOnce_def ok_def)
qed

lemma coop_send:
  assumes env: "cooperative env" "hooks_succeed hk" and st: "stored env ob s"
    and pend: "rs_Pending ob = Some b" "rs_Resolution ob = None" "batch_Sequence b + 1 \<noteq> 0"
  obtains t now reply ids where "sendPending env hk s = (Inr (), t)" "stored env (ackedState b ob now) t"
    "\<not> committed t" "\<not> recovered t"
    "trace t = trace s @ EvRequest ''POST'' ''traffic'' [] (Some (json_batch env b)) reply #
       (if committed s \<or> recovered s then [] else [EvCommit (map user_of_row (batch_Rows b)) True]) @
       [EvRevoke ids True, EvRename (json_state env (ackedState b ob now))]"
proof -
  from st have ob: "outbox s = Some ob" "outboxPath s \<noteq> []" "\<not> draining s" by (auto simp: stored_def)
  obtain r1 s1 where q: "request env ''POST'' ''traffic'' [] (Some (json_batch env b)) s = (r1, s1)" by fastforce
  note f = request_frame [OF q]
  from coop_request [OF env(1) q] obtain d et un ack where ack: "r1 = Inr (d, et, un)"
    "Option.bind d (unjson_ack env) = Some ack"
    "validateTrafficAck ack (batch_Sequence b) (digestOf env b) = None" .
  obtain s2 where c: "commitOnce hk b s1 = (Inr (), s2)" "outboxPath s2 = outboxPath s1" "draining s2 = draining s1"
    "trace s2 = trace s1 @ (if committed s1 \<or> recovered s1 then [] else [EvCommit (map user_of_row (batch_Rows b)) True])"
    using coop_commitOnce [OF env(2), of b s1] .
  then have s2: "outboxPath s2 \<noteq> []" "\<not> draining s2"
    "trace s2 = trace s1 @ (if committed s \<or> recovered s then [] else [EvCommit (map user_of_row (batch_Rows b)) True])"
    using f(3,4,8,11) ob by simp_all
  obtain s3 where r: "callRevoke hk (the (ack_Revoked ack)) s2 = (Inr (), s3)"
    using hooks_succeedD(2) [OF env(2)] by blast
  note s3 = callRevoke_frame [OF r]
  let ?s = "if batch_Rows b \<noteq> [] then s3\<lparr>lastTrafficUID := row_UID (last (batch_Rows b))\<rparr> else s3"
  let ?st = "ackedState b ob (env_now env (tick ?s))"
  have "outboxPath ?s \<noteq> []" "\<not> draining ?s" using s2 s3 by auto
  from coop_save_stored [OF env(1) this, of ?st] obtain t where
    t: "saveReportState env ?st ?s = (Inr (), t)" "stored env ?st t"
      "trace t = trace ?s @ [EvRename (json_state env ?st)]" .
  have nx: "rs_Next ?st \<noteq> 0" using pend(3) by (simp add: ackedState_def)
  have fin: "finishAck env hk ob b ack s1 = (Inr (), t\<lparr>recovered := False, committed := False\<rparr>)"
    using t(1) nx unfolding finishAck_def c(1) bindE_simps r Let_def by (simp add: ok_def)
  have once: "sendPendingOnce env hk s = (Inr (), t\<lparr>recovered := False, committed := False\<rparr>)"
    unfolding sendPendingOnce_def ob(1) option.case pend(1) q ack(1) prod.case sum.case ack(2,3) fin ..
  have run: "sendPending env hk s = (Inr (), t\<lparr>recovered := False, committed := False\<rparr>)"
    using once pend(2) by (simp add: sendPending_def ob(1) sendAttempt.simps [of env hk 0 s] ok_def)
  have sto: "stored env ?st (t\<lparr>recovered := False, committed := False\<rparr>)"
    using t(2) by (simp add: stored_def)
  have "trace ?s = trace s3" by simp
  then show ?thesis
    using t(3) s3(10) s2(3) f(12) by (intro that [OF run sto]) simp_all
qed

lemma coop_batch:
  assumes env: "cooperative env" "hooks_succeed hk" and st: "stored env ob s" "rs_Next ob + 1 \<noteq> 0"
  obtains t now reply ids where
    "bindE (saveReportState env (pendingState ob sel buf) s) (\<lambda>_ s. sendPending env hk s) = (Inr (), t)"
    "stored env (ackedState \<lparr>batch_Sequence = rs_Next ob, batch_Rows = sel\<rparr> (pendingState ob sel buf) now) t"
    "\<not> committed t" "\<not> recovered t"
    "trace t = trace s @ EvRename (json_state env (pendingState ob sel buf)) #
       EvRequest ''POST'' ''traffic'' [] (Some (json_batch env \<lparr>batch_Sequence = rs_Next ob, batch_Rows = sel\<rparr>)) reply #
       (if committed s \<or> recovered s then [] else [EvCommit (map user_of_row sel) True]) @
       [EvRevoke ids True, EvRename (json_state env
          (ackedState \<lparr>batch_Sequence = rs_Next ob, batch_Rows = sel\<rparr> (pendingState ob sel buf) now))]"
proof -
  let ?b = "\<lparr>batch_Sequence = rs_Next ob, batch_Rows = sel\<rparr>" and ?st = "pendingState ob sel buf"
  have pend: "rs_Pending ?st = Some ?b" "rs_Resolution ?st = None" by (simp_all add: pendingState_def)
  have "outboxPath s \<noteq> []" "\<not> draining s" using st by (auto simp: stored_def)
  from coop_save_stored [OF env(1) this, of ?st] obtain s1 where
    s1: "saveReportState env ?st s = (Inr (), s1)" "stored env ?st s1"
      "trace s1 = trace s @ [EvRename (json_state env ?st)]"
      "committed s1 = committed s" "recovered s1 = recovered s"
    using pend by auto
  have ne: "batch_Sequence ?b + 1 \<noteq> 0" using st(2) by simp
  obtain t now reply ids where
    "sendPending env hk s1 = (Inr (), t)" "stored env (ackedState ?b ?st now) t" "\<not> committed t" "\<not> recovered t"
    "trace t = trace s1 @ EvRequest ''POST'' ''traffic'' [] (Some (json_batch env ?b)) reply #
       (if committed s1 \<or> recovered s1 then [] else [EvCommit (map user_of_row (batch_Rows ?b)) True]) @
       [EvRevoke ids True, EvRename (json_state env (ackedState ?b ?st now))]"
    using coop_send [OF env s1(2) pend ne] .
  with s1 that [of t now reply ids] show ?thesis by simp
qed

section \<open>A round against a cooperative environment succeeds\<close>

lemma word_room:
  assumes "unat (x :: u64) + 1 < 2 ^ 64"
  shows "unat (x + 1) = unat x + 1" "x + 1 \<noteq> 0"
proof -
  show u: "unat (x + 1) = unat x + 1"
    using assms by (simp add: unat_word_ariths)
  then show "x + 1 \<noteq> 0" by (metis add_is_0 one_neq_zero unat_0)
qed

lemma select_succeeds:
  assumes "list_all (\<lambda>r. \<not> bad_row r) rows"
  obtains sel rest where "selectTrafficBatch rows = Inr (sel, rest)"
proof (cases "selectTrafficBatch rows")
  case (Inl e)
  then show ?thesis
    using assms select_loop_error [of rows "[]" "[]" "[]"]
    by (auto simp: selectTrafficBatch_def list_ex_iff list_all_iff)
next
  case (Inr x)
  then show ?thesis using that by (cases x) auto
qed

lemma select_rest_good:
  "selectTrafficBatch rows = Inr (sel, rest) \<Longrightarrow> list_all P rows \<Longrightarrow> list_all P rest"
  using select_batch_mset [of rows sel rest, THEN arg_cong [where f = set_mset]] by (auto simp: list_all_iff)

definition clear :: "reportState \<Rightarrow> bool" where
  "clear ob \<longleftrightarrow> rs_Pending ob = None \<and> rs_Buffered ob = []"

lemma flushQueue_coop:
  assumes env: "cooperative env" "hooks_succeed hk"
  shows "stored env ob s \<Longrightarrow> clear ob \<Longrightarrow> list_all (\<lambda>r. \<not> bad_row r) queued \<Longrightarrow>
    unat (rs_Next ob) + length queued < 2 ^ 64 \<Longrightarrow>
    \<exists>t ob'. flushQueue env hk 0 queued s = (Inr (), t) \<and> stored env ob' t \<and> clear ob'"
proof (induction "length queued" arbitrary: queued s ob rule: less_induct)
  case less
  show ?case
  proof (cases "queued = []")
    case True
    with less.prems show ?thesis by (auto simp: flushQueue.simps [of env hk 0 "[]" s] ok_def)
  next
    case False
    then have "1 \<le> length queued" by (cases queued) auto
    with less.prems(4) have room: "unat (rs_Next ob) + 1 < 2 ^ 64" by linarith
    obtain sel rest where sel: "selectTrafficBatch queued = Inr (sel, rest)"
      using select_succeeds [OF less.prems(3)] .
    let ?st = "\<lambda>now. ackedState \<lparr>batch_Sequence = rs_Next ob, batch_Rows = sel\<rparr> (pendingState ob sel []) now"
    obtain t now where run: "bindE (saveReportState env (pendingState ob sel []) s) (\<lambda>_ s. sendPending env hk s) = (Inr (), t)"
      and st: "stored env (?st now) t"
      using coop_batch [OF env less.prems(1) word_room(2) [OF room], of sel "[]"] by metis
    have ctx: "env_ctx env (tick s) = None" using env(1) by (simp add: cooperative_def)
    have ob: "outbox s = Some ob" using less.prems(1) by (simp add: stored_def)
    have eq: "flushQueue env hk 0 queued s = flushQueue env hk 0 rest t"
    proof -
      have "flushQueue env hk 0 queued s =
          bindE (bindE (saveReportState env (pendingState ob sel []) s) (\<lambda>_ s. sendPending env hk s))
            (\<lambda>_ s. flushQueue env hk 0 rest s)"
        using False ob sel ctx unfolding bindE_assoc2 [symmetric]
        by (simp add: flushQueue.simps [of env hk 0 queued s])
      then show ?thesis by (simp add: run)
    qed
    have len: "length rest < length queued" using select_batch_shorter [OF sel False] .
    have room': "unat (rs_Next (?st now)) + length rest < 2 ^ 64"
      using word_room(1) [OF room] less.prems(4) len by (simp add: ackedState_def)
    have "clear (?st now)" by (simp add: clear_def ackedState_def pendingState_def)
    from less.hyps [OF len st this select_rest_good [OF sel less.prems(3)] room'] eq show ?thesis by simp
  qed
qed

lemma flushBuffered_coop:
  assumes env: "cooperative env" "hooks_succeed hk"
  shows "stored env ob s \<Longrightarrow> rs_Pending ob = None \<Longrightarrow> list_all (\<lambda>r. \<not> bad_row r) (rs_Buffered ob) \<Longrightarrow>
    unat (rs_Next ob) + length (rs_Buffered ob) + n < 2 ^ 64 \<Longrightarrow>
    \<exists>t ob'. flushBuffered env hk 0 s = (Inr (Some 0), t) \<and> stored env ob' t \<and> clear ob' \<and>
      unat (rs_Next ob') + n < 2 ^ 64"
proof (induction "length (rs_Buffered ob)" arbitrary: s ob rule: less_induct)
  case less
  have ob: "outbox s = Some ob" using less.prems(1) by (simp add: stored_def)
  show ?case
  proof (cases "rs_Buffered ob = []")
    case True
    with less.prems ob show ?thesis
      by (auto simp: flushBuffered.simps [of env hk 0 s] ok_def clear_def)
  next
    case False
    then have "1 \<le> length (rs_Buffered ob)" by (cases "rs_Buffered ob") auto
    with less.prems(4) have room: "unat (rs_Next ob) + 1 < 2 ^ 64" by linarith
    obtain sel rest where sel: "selectTrafficBatch (rs_Buffered ob) = Inr (sel, rest)"
      using select_succeeds [OF less.prems(3)] .
    let ?st = "\<lambda>now. ackedState \<lparr>batch_Sequence = rs_Next ob, batch_Rows = sel\<rparr> (pendingState ob sel rest) now"
    let ?s = "s\<lparr>recovered := True\<rparr>"
    have st0: "stored env ob ?s" using less.prems(1) by (simp add: stored_def)
    obtain t now where run: "bindE (saveReportState env (pendingState ob sel rest) ?s) (\<lambda>_ s. sendPending env hk s) = (Inr (), t)"
      and st: "stored env (?st now) t"
      using coop_batch [OF env st0 word_room(2) [OF room], of sel rest] by metis
    have eq: "flushBuffered env hk 0 s = flushBuffered env hk 0 t"
    proof -
      have "flushBuffered env hk 0 s =
          bindE (bindE (saveReportState env (pendingState ob sel rest) ?s) (\<lambda>_ s. sendPending env hk s))
            (\<lambda>_ s. flushBuffered env hk 0 s)"
        using False ob sel unfolding bindE_assoc2 [symmetric]
        by (simp add: flushBuffered.simps [of env hk 0 s])
      then show ?thesis by (simp add: run)
    qed
    have buf: "rs_Buffered (?st now) = rest" "rs_Pending (?st now) = None" "rs_Next (?st now) = rs_Next ob + 1"
      by (simp_all add: ackedState_def pendingState_def)
    have len: "length rest < length (rs_Buffered ob)" using select_batch_shorter [OF sel False] .
    have room': "unat (rs_Next (?st now)) + length (rs_Buffered (?st now)) + n < 2 ^ 64"
      using word_room(1) [OF room] less.prems(4) len buf by simp
    from less.hyps [of "?st now" t] len st room' buf select_rest_good [OF sel less.prems(3)] eq
    show ?thesis by simp
  qed
qed

lemma load_coop:
  assumes "cooperative env" "codec_ok env" "outbox s = None" "unsynced s = None" "outboxPath s \<noteq> []"
    "\<not> draining s" "disk s = Some (json_state env st)" "validReportState st"
  obtains t where "loadReportState env s = (Inr (), t)" "stored env (strip_state st) t"
proof -
  have "bsize env (json_state env st) \<le> stateLimit" using assms(1) by (simp add: cooperative_def)
  with assms that show ?thesis
    by (simp add: loadReportState_def loadUnsynced_def loadFile_def readReportState_def ok_def stored_def)
qed

lemma coop_send_any:
  assumes env: "cooperative env" "hooks_succeed hk" and st: "stored env ob s" "validReportState ob"
    and res: "rs_Resolution ob = None" and room: "unat (rs_Next ob) + 1 + n < 2 ^ 64"
  shows "\<exists>t ob'. sendPending env hk s = (Inr (), t) \<and> stored env ob' t \<and> rs_Pending ob' = None \<and>
    rs_Buffered ob' = rs_Buffered ob \<and> unat (rs_Next ob') + n < 2 ^ 64"
proof (cases "rs_Pending ob")
  case None
  have "outbox s = Some ob" using st(1) by (simp add: stored_def)
  with None res st(1) room show ?thesis
    by (auto simp: sendPending_def sendAttempt.simps [of env hk 0 s] sendPendingOnce_def ok_def)
next
  case (Some b)
  then have seq: "batch_Sequence b = rs_Next ob" using st(2) by (simp add: validReportState_def)
  have r1: "unat (rs_Next ob) + 1 < 2 ^ 64" using room by linarith
  have "batch_Sequence b + 1 \<noteq> 0" using word_room(2) [OF r1] seq by simp
  from coop_send [OF env st(1) Some res this] obtain t now where
    "sendPending env hk s = (Inr (), t)" "stored env (ackedState b ob now) t" by metis
  moreover have "unat (rs_Next (ackedState b ob now)) + n < 2 ^ 64"
    using word_room(1) [OF r1] room by (simp add: ackedState_def seq)
  ultimately show ?thesis
    by (intro exI [of _ t] exI [of _ "ackedState b ob now"]) (simp add: ackedState_def)
qed

lemma acquireLock_coop: "cooperative env \<Longrightarrow> acquireLock env busy s = (Inr (), s\<lparr>tick := Suc (tick s)\<rparr>)"
  by (simp add: acquireLock_def cooperative_def ok_def Let_def)

lemma bad_row_strip [simp]: "bad_row (strip_row r) = bad_row r"
  by (simp add: bad_row_def)

lemma list_all_rotate: "list_all P (rotateRows k rows) = list_all P rows"
  using mset_rotateRows [of k rows] by (metis list_all_iff set_mset_mset)


end
