(* ===== verification/Outbox_Witness.thy ===== *)
theory Outbox_Witness
  imports Outbox_Live
begin

text \<open>
  A concrete environment for the outbox: symbolic documents, a panel that acknowledges every
  batch, a file system without failures. The properties of Outbox\_Run and Outbox\_Live are
  applied to a run of two reporting rounds in it.
\<close>

section \<open>A cooperative environment\<close>

datatype doc =
    DState reportState
  | DBatch trafficBatch
  | DAck TrafficAck
  | DCursor u64
  | DUsers "UserInfo list"
  | DOther

definition docReply :: "string \<Rightarrow> doc option \<Rightarrow> doc" where
  "docReply action body =
     (if action = ''traffic''
      then (case body of
          Some (DBatch b) \<Rightarrow> DAck \<lparr>ack_Accepted = True, ack_Sequence = batch_Sequence b,
            ack_Digest = replicate 64 CHR ''a'', ack_Revoked = Some [4]\<rparr>
        | _ \<Rightarrow> DOther)
      else if action = ''state'' then DCursor 7
      else DUsers [])"

definition docPanel :: "doc event list \<Rightarrow> string \<Rightarrow> string \<Rightarrow> string \<Rightarrow> doc option \<Rightarrow> doc transport" where
  "docPanel h meth action etag body =
     Response \<lparr>http_status = 200, http_contract = ''hy2-1'', http_ctype = ''application/json'',
       http_etag = [], http_body = docReply action body, http_readErr = None\<rparr>"

definition docEnv :: "doc env" where
  "docEnv =
     \<lparr>env_panel = docPanel, env_fs = (\<lambda>_. None), env_lock = (\<lambda>_. Inr True), env_ctx = (\<lambda>_. None),
      env_now = (\<lambda>n. 1000 + int n), bsize = (\<lambda>_. 100), sha256_hex = (\<lambda>_. replicate 64 CHR ''a''),
      json_state = (\<lambda>st. DState (strip_state st)),
      unjson_state = (\<lambda>d. case d of DState st \<Rightarrow> if strip_state st = st then Some st else None | _ \<Rightarrow> None),
      json_batch = (\<lambda>b. DBatch (strip_batch b)),
      unjson_ack = (\<lambda>d. case d of DAck a \<Rightarrow> Some a | _ \<Rightarrow> None),
      unjson_conflict = (\<lambda>_. None),
      unjson_next = (\<lambda>d. case d of DCursor n \<Rightarrow> Some n | _ \<Rightarrow> None),
      unjson_cursor = (\<lambda>d. case d of DCursor n \<Rightarrow> Some (Some (n - 1), n, replicate 64 CHR ''b'') | _ \<Rightarrow> None),
      unjson_users = (\<lambda>d. case d of DUsers us \<Rightarrow> Some (Some us) | _ \<Rightarrow> None),
      unjson_alive = (\<lambda>_. None), json_online = (\<lambda>_. DOther), unjson_accepted = (\<lambda>_. None)\<rparr>"

lemma strip_row_idem [simp]: "strip_row (strip_row r) = strip_row r"
  by (simp add: strip_row_def)

lemma strip_batch_idem [simp]: "strip_batch (strip_batch b) = strip_batch b"
  by (simp add: strip_batch_def comp_def)

lemma strip_hold_idem [simp]: "strip_hold (strip_hold h) = strip_hold h"
  by (simp add: strip_hold_def option.map_comp comp_def)

lemma strip_state_idem [simp]: "strip_state (strip_state st) = strip_state st"
  by (simp add: strip_state_def option.map_comp comp_def)

lemma docEnv_ok: "codec_ok docEnv" "clock_ok docEnv" "ctx_ok docEnv"
  by (auto simp: codec_ok_def clock_ok_def ctx_ok_def docEnv_def split: doc.splits if_splits)

definition docRows :: "UserTraffic list" where
  "docRows = [\<lparr>ut_UID = 3, ut_Upload = 10, ut_Download = 20, ut_UUID = ''x''\<rparr>]"

definition docHooks :: "unit hooks" where
  "docHooks = \<lparr>capture = (\<lambda>x. (Inr docRows, x)), commit = (\<lambda>_ x. (Inr (), x)), revoke = (\<lambda>_ x. (Inr (), x))\<rparr>"

lemma docHooks_ok: "hooks_ok docHooks"
  by (simp add: hooks_ok_def docHooks_def)

definition docStart :: "(doc, unit) client" where
  "docStart = newClient ''https://panel'' 1 ''state.json'' (Some (DState (freshState 7))) ()"

lemma docEnv_cooperative: "cooperative docEnv"
  by (auto simp: cooperative_def docEnv_def ackOf_def docPanel_def docReply_def requestResult_def
      contractVersion_def toLower_def lowerChar_def maxResponseBytes_def validateTrafficAck_def
      digestOf_def stateLimit_def strip_batch_def)

lemma docHooks_succeed: "hooks_succeed docHooks"
  by (simp add: hooks_succeed_def docHooks_def)

text \<open>One round that reports a single row: its five effects.\<close>

definition docRow :: trafficRow where
  "docRow = \<lparr>row_UID = 3, row_Upload = 10, row_Download = 20, row_UUID = ''x''\<rparr>"

lemma docSelect: "selectTrafficBatch [docRow] = Inr ([docRow], [])"
  by (simp add: selectTrafficBatch_def docRow_def bad_row_def maxTrafficRows_def)

lemma docRotate: "map row_of_user (rotateRows k docRows) = [docRow]"
proof -
  have "mset (rotateRows k docRows) = {#hd docRows#}" by (simp add: docRows_def)
  then have "rotateRows k docRows = docRows" by (simp only: mset_single_iff) (simp add: docRows_def)
  then show ?thesis by (simp add: docRows_def docRow_def row_of_user_def)
qed

definition pendingOf :: "reportState \<Rightarrow> reportState" where
  "pendingOf ob = pendingState ob [docRow] []"

lemma doc_round:
  assumes load: "loadReportState docEnv (s\<lparr>tick := Suc (Suc (tick s))\<rparr>) = (Inr (), s1)" "stored docEnv ob s1"
      "trace s1 = trace s" "\<not> committed s1" "\<not> recovered s1"
    and ob: "clear ob" "rs_Resolution ob = None" "rs_Next ob + 1 \<noteq> 0" and s: "outboxPath s \<noteq> []" "\<not> draining s"
  obtains t ob' reply ids where "FlushTrafficLimit docEnv docHooks 0 s = (Inr (), t)" "stored docEnv ob' t"
    "clear ob'" "rs_Resolution ob' = None" "rs_Next ob' = rs_Next ob + 1" "\<not> committed t" "\<not> recovered t"
    "trace t = trace s @ [EvRename (json_state docEnv (pendingOf ob)),
       EvRequest ''POST'' ''traffic'' [] (Some (json_batch docEnv \<lparr>batch_Sequence = rs_Next ob, batch_Rows = [docRow]\<rparr>)) reply,
       EvCommit docRows True, EvRevoke ids True, EvRename (json_state docEnv ob')]"
proof -
  note env = docEnv_cooperative docHooks_succeed
  have ob1: "outbox s1 = Some ob" using load(2) by (simp add: stored_def)
  have cap: "callCapture docHooks s1 = (Inr docRows, s1)" by (simp add: callCapture_def docHooks_def)
  obtain t now reply ids where
    t: "bindE (saveReportState docEnv (pendingState ob [docRow] []) s1) (\<lambda>_ s. sendPending docEnv docHooks s) = (Inr (), t)"
    "stored docEnv (ackedState \<lparr>batch_Sequence = rs_Next ob, batch_Rows = [docRow]\<rparr> (pendingState ob [docRow] []) now) t"
    "\<not> committed t" "\<not> recovered t"
    "trace t = trace s1 @ EvRename (json_state docEnv (pendingState ob [docRow] [])) #
       EvRequest ''POST'' ''traffic'' [] (Some (json_batch docEnv \<lparr>batch_Sequence = rs_Next ob, batch_Rows = [docRow]\<rparr>)) reply #
       (if committed s1 \<or> recovered s1 then [] else [EvCommit (map user_of_row [docRow]) True]) @
       [EvRevoke ids True, EvRename (json_state docEnv
          (ackedState \<lparr>batch_Sequence = rs_Next ob, batch_Rows = [docRow]\<rparr> (pendingState ob [docRow] []) now))]"
    using coop_batch [OF env load(2) ob(3), of "[docRow]" "[]"] .
  have ctx: "env_ctx docEnv (tick s1) = None" by (simp add: docEnv_def)
  have q: "flushQueue docEnv docHooks 0 [docRow] s1 = (Inr (), t)"
  proof -
    have "flushQueue docEnv docHooks 0 [docRow] s1 =
        bindE (bindE (saveReportState docEnv (pendingState ob [docRow] []) s1) (\<lambda>_ s. sendPending docEnv docHooks s))
          (\<lambda>_ s. flushQueue docEnv docHooks 0 [] s)"
      using ob1 docSelect ctx unfolding bindE_assoc2 [symmetric]
      by (simp add: flushQueue.simps [of docEnv docHooks 0 "[docRow]" s1])
    then show ?thesis by (simp add: t(1) flushQueue.simps [of docEnv docHooks 0 "[]" t] ok_def)
  qed
  have "FlushTrafficLimit docEnv docHooks 0 s = (Inr (), t)"
    using s load(1) ob1 ob(1,2) q cap
    by (simp add: FlushTrafficLimit_def env(1) acquireLock_coop clear_def sendPending_def ok_def
        sendAttempt.simps [of docEnv docHooks 0 s1] sendPendingOnce_def flushBuffered.simps [of docEnv docHooks 0 s1]
        flushCaptured_def docRotate)
  moreover have "user_of_row docRow = \<lparr>ut_UID = 3, ut_Upload = 10, ut_Download = 20, ut_UUID = ''x''\<rparr>"
    by (simp add: docRow_def user_of_row_def)
  ultimately show ?thesis
    using t(2-5) load(3-5)
    by (intro that) (auto simp: clear_def ackedState_def pendingState_def pendingOf_def docRows_def)
qed

definition docMid :: "(doc, unit) client" where
  "docMid = snd (FlushTrafficLimit docEnv docHooks 0 docStart)"

definition docEnd :: "(doc, unit) client" where
  "docEnd = snd (FlushTrafficLimit docEnv docHooks 0 docMid)"

lemma docEnd_run: "outbox_run docEnv strict docStart docEnd"
  unfolding docEnd_def docMid_def by (intro outbox_run.intros docHooks_ok)

lemma fresh_strip: "strip_state (freshState n) = freshState n"
  by (simp add: strip_state_def freshState_def)

text \<open>The run of two rounds and its history.\<close>

lemma docEnd_trace:
  obtains ob reply ids reply' ids' ob' where
    "trace docEnd =
      [EvRename (json_state docEnv (pendingOf (freshState 7))),
       EvRequest ''POST'' ''traffic'' [] (Some (json_batch docEnv \<lparr>batch_Sequence = 7, batch_Rows = [docRow]\<rparr>)) reply,
       EvCommit docRows True, EvRevoke ids True, EvRename (json_state docEnv ob),
       EvRename (json_state docEnv (pendingOf ob)),
       EvRequest ''POST'' ''traffic'' [] (Some (json_batch docEnv \<lparr>batch_Sequence = rs_Next ob, batch_Rows = [docRow]\<rparr>)) reply',
       EvCommit docRows True, EvRevoke ids' True, EvRename (json_state docEnv ob')]"
    "clear ob" "clear ob'"
proof -
  have start: "loadReportState docEnv (docStart\<lparr>tick := Suc (Suc (tick docStart))\<rparr>) =
      (Inr (), docStart\<lparr>tick := 4, outbox := Some (freshState 7)\<rparr>)"
    by (simp add: docStart_def newClient_def loadReportState_def loadUnsynced_def loadFile_def
        readReportState_def ok_def docEnv_cooperative)
      (simp add: docEnv_def fresh_strip stateLimit_def ok_def, simp add: freshState_def)
  obtain s1 ob reply ids where one: "FlushTrafficLimit docEnv docHooks 0 docStart = (Inr (), s1)" "stored docEnv ob s1"
    "clear ob" "rs_Resolution ob = None" "rs_Next ob = rs_Next (freshState 7) + 1" "\<not> committed s1" "\<not> recovered s1"
    "trace s1 = trace docStart @ [EvRename (json_state docEnv (pendingOf (freshState 7))),
       EvRequest ''POST'' ''traffic'' [] (Some (json_batch docEnv \<lparr>batch_Sequence = rs_Next (freshState 7), batch_Rows = [docRow]\<rparr>)) reply,
       EvCommit docRows True, EvRevoke ids True, EvRename (json_state docEnv ob)]"
    by (rule doc_round [OF start]) (auto simp: stored_def docStart_def newClient_def freshState_def clear_def docEnv_def strip_state_def)
  have load: "loadReportState docEnv (s1\<lparr>tick := Suc (Suc (tick s1))\<rparr>) = (Inr (), s1\<lparr>tick := tick s1 + 4\<rparr>)"
    using one(2)
    by (simp add: stored_def loadReportState_def loadUnsynced_def loadCurrent_def
        readReportState_def ok_def docEnv_cooperative) (simp add: docEnv_def stateLimit_def)
  have s1: "outboxPath s1 \<noteq> []" "\<not> draining s1" using one(2) by (auto simp: stored_def)
  obtain s2 ob' reply' ids' where two: "FlushTrafficLimit docEnv docHooks 0 s1 = (Inr (), s2)" "clear ob'"
    "trace s2 = trace s1 @ [EvRename (json_state docEnv (pendingOf ob)),
       EvRequest ''POST'' ''traffic'' [] (Some (json_batch docEnv \<lparr>batch_Sequence = rs_Next ob, batch_Rows = [docRow]\<rparr>)) reply',
       EvCommit docRows True, EvRevoke ids' True, EvRename (json_state docEnv ob')]"
  proof -
    have st: "stored docEnv ob (s1\<lparr>tick := tick s1 + 4\<rparr>)" using one(2) by (simp add: stored_def)
    have ne: "rs_Next ob + 1 \<noteq> 0" using one(5) by (simp add: freshState_def)
    show ?thesis
      by (rule doc_round [OF load st _ _ _ one(3,4) ne s1]) (simp_all add: one(6,7) that)
  qed
  show ?thesis
    using one two by (intro that [of reply ids ob reply' ids' ob'])
      (simp_all add: docEnd_def docMid_def docStart_def newClient_def freshState_def)
qed

section \<open>The properties on this run\<close>

abbreviation docDisk :: "doc option" where
  "docDisk \<equiv> Some (DState (freshState 7))"

lemmas docRun = docEnd_run [unfolded docStart_def]

theorem outbox_write_ahead_witness:
  "\<exists>pre etag body reply post b. trace docEnd = pre @ EvRequest ''POST'' ''traffic'' etag body reply # post \<and>
     diskPending docEnv (disk_after docDisk pre) = Some b \<and> body = Some (json_batch docEnv b)"
proof -
  obtain x e post where tr: "trace docEnd = [x] @ EvRequest ''POST'' ''traffic'' [] (fst e) (snd e) # post"
    by (rule docEnd_trace) (metis append_Cons append_Nil fst_conv snd_conv)
  from outbox_write_ahead [OF docEnv_ok docRun tr] tr show ?thesis by blast
qed

theorem outbox_batch_retained_witness:
  "\<exists>pre y post b. trace docEnd = pre @ EvRename y # post \<and> diskPending docEnv (disk_after docDisk pre) = Some b \<and>
    ((\<exists>b'. diskPending docEnv (Some y) = Some b' \<and> batch_Rows b' = batch_Rows b \<and>
        (batch_Sequence b' = batch_Sequence b \<or> collision_seen docEnv b (batch_Sequence b') pre)) \<or>
     ack_applied docEnv b pre \<or> diskResolved docEnv (disk_after docDisk pre))"
proof -
  obtain c d f y post where
    tr: "trace docEnd = [EvRename (json_state docEnv (pendingOf (freshState 7))),
      EvRequest ''POST'' ''traffic'' [] (fst c) (snd c), EvCommit (fst d) (snd d), EvRevoke (fst f) (snd f)] @ EvRename y # post"
    by (rule docEnd_trace) (metis append_Cons append_Nil fst_conv snd_conv)
  let ?pre = "[EvRename (json_state docEnv (pendingOf (freshState 7))),
      EvRequest ''POST'' ''traffic'' [] (fst c) (snd c), EvCommit (fst d) (snd d), EvRevoke (fst f) (snd f)]"
  have "disk_after docDisk ?pre = Some (json_state docEnv (pendingOf (freshState 7)))"
    by (simp add: disk_after_def)
  then obtain b where b: "diskPending docEnv (disk_after docDisk ?pre) = Some b"
    using unjson_json(1) [OF docEnv_ok(1)] by (simp add: diskPending_def pendingOf_def pendingState_def)
  from outbox_batch_retained [OF docEnv_ok docRun tr b] tr b show ?thesis by blast
qed

theorem outbox_commit_justified_witness:
  "\<exists>pre rows success post b. trace docEnd = pre @ EvCommit rows success # post \<and>
     diskPending docEnv (disk_after docDisk pre) = Some b \<and> map (strip_row \<circ> row_of_user) rows = batch_Rows b \<and>
     (ack_seen docEnv b pre \<or> diskResolved docEnv (disk_after docDisk pre))"
proof -
  obtain x y rows success post where tr: "trace docEnd = [x, y] @ EvCommit rows success # post"
    by (rule docEnd_trace) (metis append_Cons append_Nil)
  from outbox_commit_justified [OF docEnv_ok docRun tr] tr show ?thesis by blast
qed

theorem outbox_commit_once_witness:
  "\<exists>pre rows mid rows' success post y.
     trace docEnd = pre @ EvCommit rows True # mid @ EvCommit rows' success # post \<and>
     EvRename y \<in> set mid \<and> diskPending docEnv (Some y) = None"
proof -
  obtain a b rows c d e f rows' success post where
    tr: "trace docEnd = [a, b] @ EvCommit rows True # [c, d, e, f] @ EvCommit rows' success # post"
    by (rule docEnd_trace) (metis append_Cons append_Nil)
  from outbox_commit_once [OF docEnv_ok docRun tr] tr show ?thesis by blast
qed

theorem outbox_commit_own_rows_witness:
  "\<exists>pre rows success post. trace docEnd = pre @ EvCommit rows success # post \<and>
     created_here docEnv docDisk (map (strip_row \<circ> row_of_user) rows) pre"
proof -
  obtain x y rows success post where tr: "trace docEnd = [x, y] @ EvCommit rows success # post"
    by (rule docEnd_trace) (metis append_Cons append_Nil)
  from outbox_commit_own_rows [OF docEnv_ok docRun tr] tr show ?thesis by blast
qed

theorem outbox_written_states_load_witness:
  "\<exists>pre y post st. trace docEnd = pre @ EvRename y # post \<and> unjson_state docEnv y = Some st \<and> validReportState st \<and>
     bsize docEnv y \<le> stateLimit \<and>
     (disk_after docDisk pre = None \<or> diskState docEnv (disk_after docDisk pre) \<noteq> None)"
proof -
  obtain y post where tr: "trace docEnd = [] @ EvRename y # post"
    by (rule docEnd_trace) (metis append_Nil)
  from outbox_written_states_load [OF docEnv_ok docRun tr] tr show ?thesis by blast
qed

theorem outbox_rows_conserved_witness:
  "\<exists>pre y post old new. trace docEnd = pre @ EvRename y # post \<and>
     diskState docEnv (disk_after docDisk pre) = Some old \<and> unjson_state docEnv y = Some new \<and>
     (if rs_Pending old \<noteq> None \<and> rs_Pending new = None
      then mset (rs_Buffered old) \<subseteq># mset (live_rows new)
      else mset (live_rows old) \<subseteq># mset (live_rows new))"
proof -
  obtain y post where tr: "trace docEnd = [] @ EvRename y # post"
    by (rule docEnd_trace) (metis append_Nil)
  have old: "diskState docEnv (disk_after docDisk []) = Some (freshState 7)"
    by (simp add: docEnv_def fresh_strip)
  from outbox_rows_conserved [OF docEnv_ok docRun tr old] tr old show ?thesis by blast
qed

theorem outbox_no_panic_witness:
  "no_panic (fst (FlushTrafficLimit docEnv docHooks 1 docEnd)) \<and> no_panic (fst (PersistTraffic docEnv docHooks docEnd))"
  using outbox_no_panic [OF docEnv_ok docHooks_ok docRun] .



end
