(* ===== verification/Outbox_Drain.thy ===== *)
theory Outbox_Drain
  imports Outbox_Witness
begin

text \<open>
  The final drain of the outbox (\<open>PersistTraffic\<close> in \<open>api/v2board/traffic.go\<close>): what the state
  file owes the panel after a drain is exactly what the counters held.
\<close>

section \<open>Rows left after a pending batch\<close>

definition inFlight :: "(trafficRow \<Rightarrow> int) \<Rightarrow> trafficRow list \<Rightarrow> UserTraffic \<Rightarrow> int" where
  "inFlight f overlap r = sum_list (map f (filter (\<lambda>p. ut_UUID r = row_UUID p \<and> ut_UID r = row_UID p) overlap))"

definition leftover :: "trafficRow list \<Rightarrow> UserTraffic \<Rightarrow> trafficRow" where
  "leftover overlap r =
     \<lparr>row_UID = ut_UID r, row_Upload = ut_Upload r - inFlight row_Upload overlap r,
      row_Download = ut_Download r - inFlight row_Download overlap r, row_UUID = []\<rparr>"

lemma leftover_sums:
  "row_Upload (leftover overlap r) + inFlight row_Upload overlap r = ut_Upload r"
  "row_Download (leftover overlap r) + inFlight row_Download overlap r = ut_Download r"
  by (simp_all add: leftover_def)

text \<open>Counters of a user that the machine can hold.\<close>

definition countable_row :: "trafficRow list \<Rightarrow> UserTraffic \<Rightarrow> bool" where
  "countable_row overlap r \<longleftrightarrow>
     0 \<le> ut_Upload r \<and> 0 \<le> ut_Download r \<and> ut_Upload r + ut_Download r < 2 ^ 63 \<and>
     0 \<le> inFlight row_Upload overlap r \<and> inFlight row_Upload overlap r < 2 ^ 63 \<and>
     0 \<le> inFlight row_Download overlap r \<and> inFlight row_Download overlap r < 2 ^ 63"

lemma wrap64_nested: "wrap64 (wrap64 x - y) = wrap64 (x - y)"
proof -
  have "((x + 2 ^ 63) mod 2 ^ 64 - y) mod 2 ^ 64 = (x + 2 ^ 63 - y) mod 2 ^ 64" by (rule mod_diff_left_eq)
  then show ?thesis by (simp add: wrap64_def diff_add_eq)
qed

lemma subtractPending_eq:
  assumes "ut_Upload r = wrap64 x" "ut_Download r = wrap64 y"
  shows "subtractPending overlap r =
    r\<lparr>ut_Upload := wrap64 (x - inFlight row_Upload overlap r), ut_Download := wrap64 (y - inFlight row_Download overlap r)\<rparr>"
  using assms
proof (induction overlap arbitrary: r x y)
  case (Cons p ps)
  have other: "inFlight f ps (r\<lparr>ut_Upload := a, ut_Download := b\<rparr>) = inFlight f ps r" for f a b by (simp add: inFlight_def)
  show ?case
  proof (cases "ut_UUID r = row_UUID p \<and> ut_UID r = row_UID p")
    case True
    let ?r = "r\<lparr>ut_Upload := wrap64 (ut_Upload r - row_Upload p), ut_Download := wrap64 (ut_Download r - row_Download p)\<rparr>"
    have "ut_Upload ?r = wrap64 (x - row_Upload p)" "ut_Download ?r = wrap64 (y - row_Download p)"
      using Cons.prems by (simp_all add: wrap64_nested)
    from Cons.IH [OF this] True other show ?thesis by (simp add: inFlight_def algebra_simps)
  next
    case False
    then show ?thesis using Cons.IH [OF Cons.prems] by (auto simp: inFlight_def)
  qed
qed (cases r, simp add: inFlight_def)

lemma wrap64_sign:
  assumes "0 \<le> x" "x < 2 ^ 63" "0 \<le> y" "y < 2 ^ 63"
  shows "wrap64 (x - y) = x - y"
  using assms by (intro wrap64_id) (simp add: in_int64_def)

lemma subtractPending_leftover:
  assumes "countable_row overlap r"
  shows "subtractPending overlap r =
    r\<lparr>ut_Upload := row_Upload (leftover overlap r), ut_Download := row_Download (leftover overlap r)\<rparr>"
proof -
  have "ut_Upload r = wrap64 (ut_Upload r)" "ut_Download r = wrap64 (ut_Download r)"
    using assms by (simp_all add: countable_row_def in_int64_def)
  from subtractPending_eq [OF this, of overlap] assms show ?thesis
    by (simp add: countable_row_def leftover_def wrap64_sign)
qed

definition owing :: "trafficRow \<Rightarrow> bool" where
  "owing p \<longleftrightarrow> row_Upload p + row_Download p > 0"

lemma drainRows_eq:
  assumes "drainRows overlap rows base = Inr buf" "\<forall>r\<in>set rows. countable_row overlap r"
  shows "buf = base @ filter owing (map (leftover overlap) rows) \<and>
    (\<forall>r\<in>set rows. 0 \<le> row_Upload (leftover overlap r) \<and> 0 \<le> row_Download (leftover overlap r))"
  using assms
proof (induction rows arbitrary: base)
  case (Cons r rows)
  let ?l = "leftover overlap r"
  have s: "subtractPending overlap r = r\<lparr>ut_Upload := row_Upload ?l, ut_Download := row_Download ?l\<rparr>"
    using Cons.prems(2) by (intro subtractPending_leftover) simp
  have pos: "0 \<le> row_Upload ?l" "0 \<le> row_Download ?l" using Cons.prems(1) s by (auto simp: Let_def split: if_splits)
  have "row_Upload ?l + row_Download ?l < 2 ^ 63" using Cons.prems(2) by (simp add: countable_row_def leftover_def)
  with pos have w: "wrap64 (row_Upload ?l + row_Download ?l) = row_Upload ?l + row_Download ?l"
    by (intro wrap64_id) (simp add: in_int64_def)
  have l: "?l = \<lparr>row_UID = ut_UID r, row_Upload = row_Upload ?l, row_Download = row_Download ?l, row_UUID = []\<rparr>" by (simp add: leftover_def)
  have "drainRows overlap rows (if owing ?l then base @ [?l] else base) = Inr buf"
    using Cons.prems(1) s pos w l by (auto simp: Let_def owing_def split: if_splits)
  from Cons.IH [OF this] Cons.prems(2) pos show ?case by (simp split: if_splits)
qed simp


text \<open>A process that was closed while a batch was in flight.\<close>

definition drainState :: reportState where
  "drainState = (freshState 7)\<lparr>rs_Pending := Some \<lparr>batch_Sequence = 6, batch_Rows = [docRow]\<rparr>\<rparr>"

definition drainClient :: "(doc, unit) client" where
  "drainClient = docStart\<lparr>disk := Some (json_state docEnv drainState), outbox := Some drainState\<rparr>"

definition finalHooks :: "unit hooks" where
  "finalHooks = docHooks\<lparr>capture := (\<lambda>x. (Inr [\<lparr>ut_UID = 3, ut_Upload = 15, ut_Download = 20, ut_UUID = ''x''\<rparr>], x))\<rparr>"

definition drainEnd :: "(doc, unit) client" where
  "drainEnd = snd (PersistTraffic docEnv finalHooks drainClient)"

lemma drain_load:
  "loadReportState docEnv (drainClient\<lparr>tick := Suc (tick drainClient)\<rparr>) = (Inr (), drainClient\<lparr>tick := 3\<rparr>)"
  by (simp add: drainClient_def docStart_def newClient_def loadReportState_def loadUnsynced_def loadCurrent_def readReportState_def
      ok_def docEnv_cooperative) (simp add: docEnv_def stateLimit_def)

lemma drain_flight: "inFlight row_Upload [docRow] \<lparr>ut_UID = 3, ut_Upload = 15, ut_Download = 20, ut_UUID = ''x''\<rparr> = 10"
  "inFlight row_Download [docRow] \<lparr>ut_UID = 3, ut_Upload = 15, ut_Download = 20, ut_UUID = ''x''\<rparr> = 20"
  by (simp_all add: inFlight_def docRow_def)

lemma drain_succeeds: "PersistTraffic docEnv finalHooks drainClient = (Inr (), drainEnd)"
proof -
  let ?s = "drainClient\<lparr>tick := 3\<rparr>"
  let ?s2 = "?s\<lparr>drainBase := [], draining := True\<rparr>"
  have o: "outbox drainClient = Some drainState" "\<not> committed drainClient" "\<not> recovered drainClient" "outboxPath drainClient \<noteq> []"
    "\<not> draining drainClient" "\<not> drainSaved drainClient" "rs_Buffered drainState = []"
    "rs_Pending drainState = Some \<lparr>batch_Sequence = 6, batch_Rows = [docRow]\<rparr>"
    by (simp_all add: drainClient_def docStart_def newClient_def drainState_def freshState_def)
  have c: "callCapture finalHooks ?s2 = (Inr [\<lparr>ut_UID = 3, ut_Upload = 15, ut_Download = 20, ut_UUID = ''x''\<rparr>], ?s2)"
    by (simp add: callCapture_def finalHooks_def docHooks_def)
  have w: "wrap64 5 = 5" "wrap64 0 = 0" by (simp_all add: in_int64_def)
  have r: "drainRows [docRow] [\<lparr>ut_UID = 3, ut_Upload = 15, ut_Download = 20, ut_UUID = ''x''\<rparr>] [] =
      Inr [\<lparr>row_UID = 3, row_Upload = 5, row_Download = 0, row_UUID = []\<rparr>]"
    by (simp add: docRow_def w)
  have "fst (persistRows docEnv finalHooks ?s2) = Inr ()"
  proof -
    obtain n n' where "saveReportState docEnv (drainState\<lparr>rs_Buffered := [\<lparr>row_UID = 3, row_Upload = 5, row_Download = 0, row_UUID = []\<rparr>]\<rparr>) ?s2 =
        (Inr (), settled (drainState\<lparr>rs_Buffered := [\<lparr>row_UID = 3, row_Upload = 5, row_Download = 0, row_UUID = []\<rparr>]\<rparr>)
           (renamed docEnv (drainState\<lparr>rs_Buffered := [\<lparr>row_UID = 3, row_Upload = 5, row_Download = 0, row_UUID = []\<rparr>]\<rparr>) ?s2 n) n')"
      by (rule coop_save [OF docEnv_cooperative, of ?s2]) (use o in simp)
    with o show ?thesis by (simp add: persistRows_def c r ok_def Let_def del: drainRows.simps)
  qed
  moreover have "PersistTraffic docEnv finalHooks drainClient = persistRows docEnv finalHooks ?s2"
    using o drain_load by (simp add: PersistTraffic_def acquireLock_coop docEnv_cooperative)
  ultimately show ?thesis by (metis drainEnd_def prod.collapse)
qed

lemma drain_leftover:
  "leftover [docRow] \<lparr>ut_UID = 3, ut_Upload = 15, ut_Download = 20, ut_UUID = ''x''\<rparr> =
     \<lparr>row_UID = 3, row_Upload = 5, row_Download = 0, row_UUID = []\<rparr>"
  by (simp add: leftover_def drain_flight)


end
