(* ===== verification/Counter.thy ===== *)
theory Counter
  imports Go_Prelude
begin

text \<open>
  Traffic counters (\<open>common/counter/traffic.go\<close>). A \<open>*TrafficStorage\<close> is an index into a heap
  of storages, so that a cached pointer and the map entry it came from stay distinct notions.
  Every method is one atomic step: the map and the two integers are updated with atomic
  operations, and the loop of \<open>subtractAtomic\<close> ends at the first compare-and-swap that finds
  the value it read.
\<close>

section \<open>Storages and the counter map\<close>

record TrafficStorage =
  UpCounter :: int
  DownCounter :: int

type_synonym storages = "TrafficStorage list"

text \<open>The counter: the map from UUIDs to storages and the heap of storages.\<close>

type_synonym TrafficCounter = "(string, nat) gomap \<times> storages"

abbreviation emptyStorage :: TrafficStorage where
  "emptyStorage \<equiv> \<lparr>UpCounter = 0, DownCounter = 0\<rparr>"

definition addUp :: "nat \<Rightarrow> int \<Rightarrow> storages \<Rightarrow> storages" where
  "addUp a n h = h[a := (h ! a)\<lparr>UpCounter := wrap64 (UpCounter (h ! a) + n)\<rparr>]"

definition addDown :: "nat \<Rightarrow> int \<Rightarrow> storages \<Rightarrow> storages" where
  "addDown a n h = h[a := (h ! a)\<lparr>DownCounter := wrap64 (DownCounter (h ! a) + n)\<rparr>]"

definition GetCounter :: "string \<Rightarrow> TrafficCounter \<Rightarrow> nat \<times> TrafficCounter" where
  "GetCounter uuid c =
     (case c of (m, h) \<Rightarrow>
        (case map_of m uuid of Some a \<Rightarrow> (a, m, h)
         | None \<Rightarrow> (length h, AList.update uuid (length h) m, h @ [emptyStorage])))"

definition GetUpCount :: "string \<Rightarrow> TrafficCounter \<Rightarrow> int" where
  "GetUpCount uuid c =
     (case c of (m, h) \<Rightarrow> (case map_of m uuid of Some a \<Rightarrow> UpCounter (h ! a) | None \<Rightarrow> 0))"

definition GetDownCount :: "string \<Rightarrow> TrafficCounter \<Rightarrow> int" where
  "GetDownCount uuid c =
     (case c of (m, h) \<Rightarrow> (case map_of m uuid of Some a \<Rightarrow> DownCounter (h ! a) | None \<Rightarrow> 0))"

definition Len :: "TrafficCounter \<Rightarrow> nat" where
  "Len c = length (fst c)"

definition Reset :: "string \<Rightarrow> TrafficCounter \<Rightarrow> TrafficCounter" where
  "Reset uuid c =
     (case c of (m, h) \<Rightarrow> (case map_of m uuid of Some a \<Rightarrow> (m, h[a := emptyStorage]) | None \<Rightarrow> (m, h)))"

definition subtractAtomic :: "int \<Rightarrow> int \<Rightarrow> int" where
  "subtractAtomic current n =
     (if n \<le> 0 then current
      else (let nx = wrap64 (current - n) in if nx < 0 then 0 else nx))"

definition Subtract :: "string \<Rightarrow> int \<Rightarrow> int \<Rightarrow> TrafficCounter \<Rightarrow> TrafficCounter" where
  "Subtract uuid up down c =
     (case c of (m, h) \<Rightarrow>
        (case map_of m uuid of
           Some a \<Rightarrow> (m, h[a := \<lparr>UpCounter = subtractAtomic (UpCounter (h ! a)) up,
                                DownCounter = subtractAtomic (DownCounter (h ! a)) down\<rparr>])
         | None \<Rightarrow> (m, h)))"

definition Delete :: "string \<Rightarrow> TrafficCounter \<Rightarrow> TrafficCounter" where
  "Delete uuid c = (case c of (m, h) \<Rightarrow> (AList.delete uuid m, h))"

definition Rx :: "string \<Rightarrow> int \<Rightarrow> TrafficCounter \<Rightarrow> TrafficCounter" where
  "Rx uuid n c = (case GetCounter uuid c of (a, m, h) \<Rightarrow> (m, addDown a n h))"

definition Tx :: "string \<Rightarrow> int \<Rightarrow> TrafficCounter \<Rightarrow> TrafficCounter" where
  "Tx uuid n c = (case GetCounter uuid c of (a, m, h) \<Rightarrow> (m, addUp a n h))"

section \<open>The counter as a ledger\<close>

text \<open>
  What a reporter relies on: a balance per account that credits increase, that a debit of at
  most the balance decreases by exactly its amount, and that operations on other accounts leave
  alone. Totals must stay below the overflow of a 64-bit counter (\<open>fits\<close>).
\<close>

definition nonneg :: "usage \<Rightarrow> bool" where
  "nonneg u \<longleftrightarrow> 0 \<le> used_up u \<and> 0 \<le> used_down u"

definition fits :: "usage \<Rightarrow> bool" where
  "fits u \<longleftrightarrow> nonneg u \<and> used_up u < 2 ^ 63 \<and> used_down u < 2 ^ 63"

locale ledger =
  fixes sound :: "'s \<Rightarrow> bool"
    and balance :: "'s \<Rightarrow> string \<Rightarrow> usage"
    and credit :: "string \<Rightarrow> usage \<Rightarrow> 's \<Rightarrow> 's"
    and debit :: "string \<Rightarrow> usage \<Rightarrow> 's \<Rightarrow> 's"
  assumes balance_fits: "sound s \<Longrightarrow> fits (balance s k)"
    and credit_sound: "sound s \<Longrightarrow> nonneg u \<Longrightarrow> fits (balance s k + u) \<Longrightarrow> sound (credit k u s)"
    and credit_balance: "sound s \<Longrightarrow> nonneg u \<Longrightarrow> fits (balance s k + u) \<Longrightarrow>
      balance (credit k u s) j = (if j = k then balance s k + u else balance s j)"
    and debit_sound: "sound s \<Longrightarrow> fits u \<Longrightarrow> sound (debit k u s)"
    and debit_balance: "sound s \<Longrightarrow> fits u \<Longrightarrow> nonneg (balance s k - u) \<Longrightarrow>
      balance (debit k u s) j = (if j = k then balance s k - u else balance s j)"
begin

fun credits :: "(string \<times> usage) list \<Rightarrow> 's \<Rightarrow> 's" where
  "credits [] s = s"
| "credits ((k, u) # us) s = credits us (credit k u s)"

fun debits :: "(string \<times> usage) list \<Rightarrow> 's \<Rightarrow> 's" where
  "debits [] s = s"
| "debits ((k, u) # us) s = debits us (debit k u s)"

definition total :: "string \<Rightarrow> (string \<times> usage) list \<Rightarrow> usage" where
  "total k us = sum_list (map snd (filter (\<lambda>x. fst x = k) us))"

lemma total_simps:
  "total k [] = 0" "total k ((j, u) # us) = (if j = k then u + total k us else total k us)"
  by (simp_all add: total_def)

lemma total_nonneg: "\<forall>x\<in>set us. nonneg (snd x) \<Longrightarrow> nonneg (total k us)"
  by (induction us) (auto simp: total_def nonneg_def)

lemma fits_mono: "fits (a + (u + t)) \<Longrightarrow> nonneg a \<Longrightarrow> nonneg u \<Longrightarrow> nonneg t \<Longrightarrow> fits (a + u)"
  by (simp add: fits_def nonneg_def)

lemma credits_balance:
  assumes "sound s" "\<forall>x\<in>set us. nonneg (snd x)" "\<forall>k. fits (balance s k + total k us)"
  shows "sound (credits us s) \<and> balance (credits us s) k = balance s k + total k us"
  using assms
proof (induction us arbitrary: s)
  case (Cons x us)
  obtain j u where x: "x = (j, u)" by fastforce
  have un: "nonneg u" and tn: "nonneg (total j us)"
    using Cons.prems(2) x by (auto intro: total_nonneg)
  have bj: "nonneg (balance s j)" using balance_fits [OF Cons.prems(1)] by (simp add: fits_def)
  have fj: "fits (balance s j + (u + total j us))"
    using Cons.prems(3) x by (auto simp: total_simps dest: spec [of _ j])
  have fit: "fits (balance s j + u)" using fits_mono [OF fj bj un tn] .
  have bal: "balance (credit j u s) i = (if i = j then balance s j + u else balance s i)" for i
    using credit_balance [OF Cons.prems(1) un fit] .
  have "fits (balance (credit j u s) i + total i us)" for i
    using Cons.prems(3) x by (auto simp: bal total_simps add.assoc dest: spec [of _ i])
  with Cons.IH [OF credit_sound [OF Cons.prems(1) un fit]] Cons.prems(2) x show ?case
    by (auto simp: bal total_simps add.assoc)
qed (simp add: total_simps)

text \<open>
  Snapshot and settlement: balances are read, more traffic arrives, and the snapshot is debited
  account by account. What is left is exactly what arrived in between.
\<close>

definition snapshot :: "string list \<Rightarrow> 's \<Rightarrow> (string \<times> usage) list" where
  "snapshot ks s = map (\<lambda>k. (k, balance s k)) ks"

lemma debits_balance:
  assumes "sound s" "distinct (map fst us)" "\<forall>x\<in>set us. nonneg (snd x) \<and> nonneg (balance s (fst x) - snd x)"
  shows "sound (debits us s) \<and> balance (debits us s) k = balance s k - total k us"
  using assms
proof (induction us arbitrary: s)
  case (Cons x us)
  obtain j u where x: "x = (j, u)" by fastforce
  have b: "nonneg (balance s j - u)" using Cons.prems(3) x by auto
  have un: "fits u"
    using Cons.prems(3) x b balance_fits [OF Cons.prems(1), of j] by (auto simp: fits_def nonneg_def)
  have bal: "balance (debit j u s) i = (if i = j then balance s j - u else balance s i)" for i
    using debit_balance [OF Cons.prems(1) un b] .
  have j: "j \<notin> fst ` set us" and d: "distinct (map fst us)" using Cons.prems(2) x by auto
  have "\<forall>x\<in>set us. nonneg (snd x) \<and> nonneg (balance (debit j u s) (fst x) - snd x)"
    using Cons.prems(3) j x by (auto simp: bal image_iff)
  from Cons.IH [OF debit_sound [OF Cons.prems(1) un] d this] show ?case
    using x by (auto simp: bal total_simps)
qed (simp add: total_simps)

lemma total_snapshot: "distinct ks \<Longrightarrow> total k (snapshot ks s) = (if k \<in> set ks then balance s k else 0)"
  by (induction ks) (auto simp: snapshot_def total_simps)

lemma snapshot_settles:
  assumes s: "sound s" and ks: "distinct ks" and us: "\<forall>x\<in>set us. nonneg (snd x)"
    and fit: "\<forall>k. fits (balance s k + total k us)"
  shows "balance (debits (snapshot ks s) (credits us s)) k =
    (if k \<in> set ks then total k us else balance s k + total k us)"
proof -
  note c = credits_balance [OF s us fit]
  have n: "nonneg (balance s j)" for j using balance_fits [OF s] by (simp add: fits_def)
  have "\<forall>x\<in>set (snapshot ks s). nonneg (snd x) \<and> nonneg (balance (credits us s) (fst x) - snd x)"
    using n c us by (auto simp: snapshot_def total_nonneg)
  moreover have "distinct (map fst (snapshot ks s))" using ks by (simp add: snapshot_def comp_def)
  ultimately show ?thesis
    using debits_balance [of "credits us s" "snapshot ks s" k] c by (simp add: total_snapshot [OF ks])
qed

end

section \<open>The traffic counter is a ledger\<close>

definition counter_ok :: "TrafficCounter \<Rightarrow> bool" where
  "counter_ok c \<longleftrightarrow>
     gomap_ok (fst c) \<and> distinct (map snd (fst c)) \<and> (\<forall>a\<in>snd ` set (fst c). a < length (snd c)) \<and>
     (\<forall>st\<in>set (snd c). fits (Usage (UpCounter st) (DownCounter st)))"

definition counted :: "TrafficCounter \<Rightarrow> string \<Rightarrow> usage" where
  "counted c uuid = Usage (GetUpCount uuid c) (GetDownCount uuid c)"

definition countBoth :: "string \<Rightarrow> usage \<Rightarrow> TrafficCounter \<Rightarrow> TrafficCounter" where
  "countBoth uuid u c = Rx uuid (used_down u) (Tx uuid (used_up u) c)"

definition subtractBoth :: "string \<Rightarrow> usage \<Rightarrow> TrafficCounter \<Rightarrow> TrafficCounter" where
  "subtractBoth uuid u c = Subtract uuid (used_up u) (used_down u) c"

lemma counted_Some: "map_of m k = Some a \<Longrightarrow> counted (m, h) k = Usage (UpCounter (h ! a)) (DownCounter (h ! a))"
  by (simp add: counted_def GetUpCount_def GetDownCount_def)

lemma counted_None: "map_of m k = None \<Longrightarrow> counted (m, h) k = 0"
  by (simp add: counted_def GetUpCount_def GetDownCount_def zero_usage_def)

lemma counter_inj:
  assumes "counter_ok (m, h)" "map_of m k = Some a" "map_of m j = Some a"
  shows "j = k"
  using assms by (auto simp: counter_ok_def dest!: map_of_SomeD)
    (metis distinct_map inj_on_contraD prod.inject snd_conv)

lemma counter_bound: "counter_ok (m, h) \<Longrightarrow> map_of m k = Some a \<Longrightarrow> a < length h"
  by (auto simp: counter_ok_def dest!: map_of_SomeD)

text \<open>Writing one storage changes the balance of the account that owns it, and no other.\<close>

lemma counted_write:
  assumes "counter_ok (m, h)" "map_of m k = Some a"
  shows "counted (m, h[a := st]) j = (if j = k then Usage (UpCounter st) (DownCounter st) else counted (m, h) j)"
  using counter_bound [OF assms] counter_inj [OF assms]
  by (cases "map_of m j") (auto simp: counted_Some counted_None nth_list_update assms(2))

lemma write_ok:
  assumes "counter_ok (m, h)" "fits (Usage (UpCounter st) (DownCounter st))"
  shows "counter_ok (m, h[a := st])"
  using assms set_update_subset_insert [of h a st] by (auto simp: counter_ok_def)

lemma fits_zero [simp]: "fits (Usage 0 0)"
  by (simp add: fits_def nonneg_def)

text \<open>\<open>GetCounter\<close> changes no balance and makes the account exist.\<close>

lemma GetCounter_spec:
  assumes "counter_ok c"
  obtains a m h where "GetCounter k c = (a, m, h)" "counter_ok (m, h)" "map_of m k = Some a"
    "\<forall>j. counted (m, h) j = counted c j"
proof -
  obtain m h where c: "c = (m, h)" by fastforce
  show ?thesis
  proof (cases "map_of m k")
    case (Some a)
    with c assms that show ?thesis by (auto simp: GetCounter_def)
  next
    case None
    let ?m = "AList.update k (length h) m" and ?h = "h @ [emptyStorage]"
    have "length h \<notin> snd ` set m" using assms c by (auto simp: counter_ok_def)
    moreover have new: "AList.update k (length h) m = m @ [(k, length h)]"
      using None by (induction m) (auto split: if_splits)
    ultimately have ok: "counter_ok (?m, ?h)"
      using assms c None by (auto simp: counter_ok_def map_of_eq_None_iff)
    have "counted (?m, ?h) j = counted c j" for j
      using c None counter_bound [of m h j] assms
      by (cases "map_of m j") (auto simp: counted_def GetUpCount_def GetDownCount_def nth_append)
    with ok None c that [of "length h" ?m ?h] show ?thesis by (simp add: GetCounter_def)
  qed
qed

lemma counted_fits: "counter_ok c \<Longrightarrow> fits (counted c k)"
proof -
  assume ok: "counter_ok c"
  obtain m h where c: "c = (m, h)" by fastforce
  show ?thesis
  proof (cases "map_of m k")
    case None
    then show ?thesis using c by (simp add: counted_None zero_usage_def)
  next
    case (Some a)
    then show ?thesis using ok c counter_bound [of m h k a] by (auto simp: counted_Some counter_ok_def)
  qed
qed

lemma in_int64_fits: "0 \<le> x \<Longrightarrow> x < 2 ^ 63 \<Longrightarrow> in_int64 x"
  by (simp add: in_int64_def)

lemma Tx_spec:
  assumes "counter_ok c" "fits (counted c k + Usage n 0)"
  shows "counter_ok (Tx k n c)" "counted (Tx k n c) j = (if j = k then counted c k + Usage n 0 else counted c j)"
proof -
  obtain a m h where g: "GetCounter k c = (a, m, h)" "counter_ok (m, h)" "map_of m k = Some a"
    "\<forall>j. counted (m, h) j = counted c j" by (rule GetCounter_spec [OF assms(1), where k = k])
  let ?st = "(h ! a)\<lparr>UpCounter := wrap64 (UpCounter (h ! a) + n)\<rparr>"
  have st: "Usage (UpCounter ?st) (DownCounter ?st) = counted c k + Usage n 0"
    using assms(2) g(4) [rule_format, of k] counted_Some [OF g(3), of h] by (auto simp: fits_def nonneg_def usage_eq_iff in_int64_fits)
  show "counter_ok (Tx k n c)" using write_ok [OF g(2), of ?st a] st assms(2) by (simp add: Tx_def g(1) addUp_def)
  show "counted (Tx k n c) j = (if j = k then counted c k + Usage n 0 else counted c j)"
    using counted_write [OF g(2,3), of ?st j] st g(4) by (simp add: Tx_def g(1) addUp_def)
qed

lemma Rx_spec:
  assumes "counter_ok c" "fits (counted c k + Usage 0 n)"
  shows "counter_ok (Rx k n c)" "counted (Rx k n c) j = (if j = k then counted c k + Usage 0 n else counted c j)"
proof -
  obtain a m h where g: "GetCounter k c = (a, m, h)" "counter_ok (m, h)" "map_of m k = Some a"
    "\<forall>j. counted (m, h) j = counted c j" by (rule GetCounter_spec [OF assms(1), where k = k])
  let ?st = "(h ! a)\<lparr>DownCounter := wrap64 (DownCounter (h ! a) + n)\<rparr>"
  have st: "Usage (UpCounter ?st) (DownCounter ?st) = counted c k + Usage 0 n"
    using assms(2) g(4) [rule_format, of k] counted_Some [OF g(3), of h] by (auto simp: fits_def nonneg_def usage_eq_iff in_int64_fits)
  show "counter_ok (Rx k n c)" using write_ok [OF g(2), of ?st a] st assms(2) by (simp add: Rx_def g(1) addDown_def)
  show "counted (Rx k n c) j = (if j = k then counted c k + Usage 0 n else counted c j)"
    using counted_write [OF g(2,3), of ?st j] st g(4) by (simp add: Rx_def g(1) addDown_def)
qed

text \<open>A subtraction never drives a counter below zero and is exact when there is enough.\<close>

lemma subtractAtomic_bounds:
  assumes "0 \<le> x" "x < 2 ^ 63" "n < 2 ^ 63"
  shows "0 \<le> subtractAtomic x n" "subtractAtomic x n \<le> x" "0 \<le> n \<Longrightarrow> subtractAtomic x n = max 0 (x - n)"
proof -
  have "in_int64 (x - n)" if "0 < n" using assms that by (simp add: in_int64_def)
  then show "0 \<le> subtractAtomic x n" "subtractAtomic x n \<le> x" "0 \<le> n \<Longrightarrow> subtractAtomic x n = max 0 (x - n)"
    using assms by (auto simp: subtractAtomic_def Let_def)
qed

lemma Subtract_spec:
  assumes "counter_ok c" "nonneg u" "used_up u < 2 ^ 63" "used_down u < 2 ^ 63"
  shows "counter_ok (subtractBoth k u c)"
    "counted (subtractBoth k u c) j =
       (if j = k then Usage (max 0 (used_up (counted c k) - used_up u)) (max 0 (used_down (counted c k) - used_down u))
        else counted c j)"
proof -
  obtain m h where c: "c = (m, h)" by fastforce
  have "counter_ok (subtractBoth k u c) \<and> counted (subtractBoth k u c) j =
       (if j = k then Usage (max 0 (used_up (counted c k) - used_up u)) (max 0 (used_down (counted c k) - used_down u))
        else counted c j)"
  proof (cases "map_of m k")
    case None
    with c assms show ?thesis by (auto simp: subtractBoth_def Subtract_def counted_None zero_usage_def nonneg_def)
  next
    case (Some a)
    let ?st = "\<lparr>UpCounter = subtractAtomic (UpCounter (h ! a)) (used_up u),
      DownCounter = subtractAtomic (DownCounter (h ! a)) (used_down u)\<rparr>"
    have f: "fits (Usage (UpCounter (h ! a)) (DownCounter (h ! a)))"
      using counted_fits [OF assms(1), of k] c Some by (simp add: counted_Some)
    then have st: "Usage (UpCounter ?st) (DownCounter ?st) =
        Usage (max 0 (UpCounter (h ! a) - used_up u)) (max 0 (DownCounter (h ! a) - used_down u))"
      using assms(2-4) subtractAtomic_bounds(3) by (simp add: fits_def nonneg_def)
    then have "fits (Usage (UpCounter ?st) (DownCounter ?st))"
      using f assms(2) by (auto simp: fits_def nonneg_def)
    with write_ok [of m h ?st a] counted_write [of m h k a ?st j] st c Some assms(1) show ?thesis
      by (simp add: subtractBoth_def Subtract_def counted_Some)
  qed
  then show "counter_ok (subtractBoth k u c)"
    "counted (subtractBoth k u c) j =
       (if j = k then Usage (max 0 (used_up (counted c k) - used_up u)) (max 0 (used_down (counted c k) - used_down u))
        else counted c j)" by simp_all
qed

lemma countBoth_spec:
  assumes "counter_ok c" "nonneg u" "fits (counted c k + u)"
  shows "counter_ok (countBoth k u c)"
    "counted (countBoth k u c) j = (if j = k then counted c k + u else counted c j)"
proof -
  have f1: "fits (counted c k + Usage (used_up u) 0)"
    using assms(2,3) counted_fits [OF assms(1), of k] by (simp add: fits_def nonneg_def)
  note t = Tx_spec [OF assms(1) f1]
  have f2: "fits (counted (Tx k (used_up u) c) k + Usage 0 (used_down u))"
    using assms(3) by (simp add: t(2) fits_def nonneg_def)
  note r = Rx_spec [OF t(1) f2]
  show "counter_ok (countBoth k u c)" using r(1) by (simp add: countBoth_def)
  show "counted (countBoth k u c) j = (if j = k then counted c k + u else counted c j)"
    by (simp add: countBoth_def r(2) t(2) usage_eq_iff)
qed

interpretation traffic: ledger counter_ok counted countBoth subtractBoth
proof
  fix s k j and u :: usage
  show "counter_ok s \<Longrightarrow> fits (counted s k)" by (rule counted_fits)
  show "counter_ok s \<Longrightarrow> nonneg u \<Longrightarrow> fits (counted s k + u) \<Longrightarrow> counter_ok (countBoth k u s)"
    by (rule countBoth_spec)
  show "counter_ok s \<Longrightarrow> nonneg u \<Longrightarrow> fits (counted s k + u) \<Longrightarrow>
    counted (countBoth k u s) j = (if j = k then counted s k + u else counted s j)"
    by (rule countBoth_spec)
  assume ok: "counter_ok s" and "fits u"
  then have u: "nonneg u" "used_up u < 2 ^ 63" "used_down u < 2 ^ 63" by (auto simp: fits_def)
  show "counter_ok (subtractBoth k u s)" by (rule Subtract_spec(1) [OF ok u])
  assume "nonneg (counted s k - u)"
  then show "counted (subtractBoth k u s) j = (if j = k then counted s k - u else counted s j)"
    by (auto simp: Subtract_spec(2) [OF ok u] usage_eq_iff nonneg_def)
qed

text \<open>C17: Nothing is lost between a report and its settlement. If the counters of some users are
  read, more traffic of any users is counted meanwhile, and what was read is subtracted
  afterwards, then the counters of these users hold exactly what was counted meanwhile, and all
  other counters hold their old value plus what was counted.\<close>

theorem counter_settlement:
  assumes "counter_ok c" "distinct uuids" "\<forall>x\<in>set adds. nonneg (snd x)"
    and "\<forall>k. fits (counted c k + traffic.total k adds)"
  shows "counted (traffic.debits (traffic.snapshot uuids c) (traffic.credits adds c)) k =
    (if k \<in> set uuids then traffic.total k adds else counted c k + traffic.total k adds)"
  by (rule traffic.snapshot_settles [OF assms])

theorem counter_settlement_witness:
  "counted (traffic.debits (traffic.snapshot [''a''] (countBoth ''a'' (Usage 5 7) ([], [])))
     (traffic.credits [(''a'', Usage 1 2)] (countBoth ''a'' (Usage 5 7) ([], [])))) ''a'' = Usage 1 2"
proof -
  let ?c = "countBoth ''a'' (Usage 5 7) ([], [])"
  have ok: "counter_ok ([], [])" by (simp add: counter_ok_def)
  have b: "counted ([], []) k = 0" for k by (simp add: counted_None)
  have c: "counter_ok ?c" "counted ?c j = (if j = ''a'' then Usage 5 7 else 0)" for j
    using countBoth_spec [OF ok, of "Usage 5 7" "''a''"] by (auto simp: b nonneg_def fits_def)
  have "fits (counted ?c k + traffic.total k [(''a'', Usage 1 2)])" for k
    by (simp add: c(2) traffic.total_simps fits_def nonneg_def)
  then show ?thesis
    using counter_settlement [OF c(1), of "[''a'']" "[(''a'', Usage 1 2)]" "''a''"]
    by (simp add: nonneg_def traffic.total_simps)
qed

end
