(* ===== verification/Limiter.thy ===== *)
theory Limiter
  imports Panel_Client
begin

text \<open>
  The limiter of a node (\<open>limiter/limiter.go\<close>, \<open>limiter/dynamic.go\<close>, \<open>common/rate/writer.go\<close>,
  \<open>common/format/user.go\<close>). A \<open>*UserLimitInfo\<close> and a \<open>*DynamicBucket\<close> are indices into heaps
  kept with the limiter that allocates them, since traffic callbacks cache the former. Each
  method runs under the limiter's mutex and is one function; the clock is an argument.
\<close>

section \<open>Speed limits\<close>

definition UserTag :: "string \<Rightarrow> string \<Rightarrow> string" where
  "UserTag tag uuid = tag @ ''|'' @ uuid"

lemma UserTag_inj [simp]: "UserTag tag a = UserTag tag b \<longleftrightarrow> a = b"
  by (simp add: UserTag_def)

definition determineSpeedLimit :: "int \<Rightarrow> int \<Rightarrow> int" where
  "determineSpeedLimit limit1 limit2 =
     (if limit1 = 0 \<or> limit2 = 0
      then (if limit1 > limit2 then limit1 else if limit1 < limit2 then limit2 else 0)
      else (if limit1 > limit2 then limit2 else if limit1 < limit2 then limit1 else limit1))"

text \<open>Integer division of Go truncates toward zero.\<close>

definition godiv :: "int \<Rightarrow> int \<Rightarrow> int" where
  "godiv a b = (if 0 \<le> a then a div b else - ((- a) div b))"

text \<open>\<open>int64(mbps) * 1000000 / 8\<close>\<close>

definition bytesPerSecond :: "int \<Rightarrow> int" where
  "bytesPerSecond mbps = godiv (wrap64 (mbps * 1000000)) 8"

section \<open>State\<close>

record UserLimitInfo =
  lim_UID :: int
  lim_SpeedLimit :: int
  lim_DeviceLimit :: int
  lim_DynamicSpeedLimit :: int
  lim_ExpireTime :: int
  lim_OverLimit :: bool
  lim_Revoked :: bool

text \<open>A dynamic bucket holds a token bucket that adds \<open>rate\<close> tokens per second up to \<open>rate\<close>.\<close>

record DynamicBucket =
  bucket_rate :: int

definition NewDynamicBucket :: "int \<Rightarrow> DynamicBucket" where
  "NewDynamicBucket rate = \<lparr>bucket_rate = rate\<rparr>"

definition UpdateBucket :: "int \<Rightarrow> DynamicBucket \<Rightarrow> DynamicBucket" where
  "UpdateBucket rate d = d\<lparr>bucket_rate := rate\<rparr>"

record Limiter =
  Nodetype :: string
  NodeSpeedLimit :: int
  UserOnlineIP :: "(string, (string, int) gomap) gomap"
  OldUserOnline :: "(string, int) gomap"
  UUIDtoUID :: "(string, int) gomap"
  UserLimits :: "(string, nat) gomap"
  SpeedLimiter :: "(string, nat) gomap"
  AliveList :: "(int, int) gomap"
  infos :: "UserLimitInfo list"
  buckets :: "DynamicBucket list"

abbreviation info_at :: "Limiter \<Rightarrow> nat \<Rightarrow> UserLimitInfo" where
  "info_at l a \<equiv> infos l ! a"

definition newInfo :: "UserInfo \<Rightarrow> UserLimitInfo" where
  "newInfo u =
     \<lparr>lim_UID = user_Id u, lim_SpeedLimit = (if user_SpeedLimit u \<noteq> 0 then user_SpeedLimit u else 0),
      lim_DeviceLimit = (if user_DeviceLimit u \<noteq> 0 then user_DeviceLimit u else 0),
      lim_DynamicSpeedLimit = 0, lim_ExpireTime = 0, lim_OverLimit = False, lim_Revoked = False\<rparr>"

text \<open>Storing a freshly allocated \<open>UserLimitInfo\<close> under the user's tag, and its UID.\<close>

definition storeUser :: "string \<Rightarrow> UserInfo \<Rightarrow> Limiter \<Rightarrow> Limiter" where
  "storeUser tag u l =
     l\<lparr>UserLimits := AList.update (UserTag tag (user_Uuid u)) (length (infos l)) (UserLimits l),
       infos := infos l @ [newInfo u],
       UUIDtoUID := AList.update (user_Uuid u) (user_Id u) (UUIDtoUID l)\<rparr>"

definition AddLimiter :: "string \<Rightarrow> string \<Rightarrow> UserInfo list \<Rightarrow> (int, int) gomap \<Rightarrow> Limiter" where
  "AddLimiter nodetype tag users aliveList =
     fold (storeUser tag) users
       \<lparr>Nodetype = nodetype, NodeSpeedLimit = 0, UserOnlineIP = [], OldUserOnline = [], UUIDtoUID = [],
        UserLimits = [], SpeedLimiter = [], AliveList = aliveList, infos = [], buckets = []\<rparr>"

text \<open>The process-wide registry of limiters, by tag.\<close>

definition registerLimiter :: "string \<Rightarrow> 'l \<Rightarrow> (string, 'l) gomap \<Rightarrow> (string, 'l) gomap" where
  "registerLimiter tag l reg = AList.update tag l reg"

definition GetLimiter :: "string \<Rightarrow> (string, 'l) gomap \<Rightarrow> goerr + 'l" where
  "GetLimiter tag reg = (case map_of reg tag of None \<Rightarrow> Inl (Err ''not found'') | Some l \<Rightarrow> Inr l)"

definition DeleteLimiter :: "string \<Rightarrow> (string, 'l) gomap \<Rightarrow> (string, 'l) gomap" where
  "DeleteLimiter tag reg = AList.delete tag reg"

section \<open>Updates\<close>

definition RevokeUser :: "string \<Rightarrow> Limiter \<Rightarrow> Limiter" where
  "RevokeUser taguuid l =
     (case map_of (UserLimits l) taguuid of
        Some a \<Rightarrow> l\<lparr>infos := (infos l)[a := (info_at l a)\<lparr>lim_Revoked := True\<rparr>]\<rparr>
      | None \<Rightarrow> l)"

definition deleteUser :: "string \<Rightarrow> UserInfo \<Rightarrow> Limiter \<Rightarrow> Limiter" where
  "deleteUser tag u l =
     (let t = UserTag tag (user_Uuid u); l = RevokeUser t l in
      l\<lparr>UserLimits := AList.delete t (UserLimits l), UserOnlineIP := AList.delete t (UserOnlineIP l),
        SpeedLimiter := AList.delete t (SpeedLimiter l), UUIDtoUID := AList.delete (user_Uuid u) (UUIDtoUID l),
        AliveList := AList.delete (user_Id u) (AliveList l)\<rparr>)"

definition modifyUser :: "string \<Rightarrow> UserInfo \<Rightarrow> Limiter \<Rightarrow> Limiter" where
  "modifyUser tag u l =
     (let t = UserTag tag (user_Uuid u);
          l = (case map_of (UserLimits l) t of
                 Some a \<Rightarrow> l\<lparr>infos := (infos l)[a := (info_at l a)\<lparr>lim_SpeedLimit := user_SpeedLimit u,
                                                       lim_DeviceLimit := user_DeviceLimit u\<rparr>]\<rparr>
               | None \<Rightarrow> l);
          limit = bytesPerSecond (determineSpeedLimit (NodeSpeedLimit l) (user_SpeedLimit u))
      in if limit > 0
         then (case map_of (SpeedLimiter l) t of
                 Some b \<Rightarrow> l\<lparr>buckets := (buckets l)[b := UpdateBucket limit (buckets l ! b)]\<rparr>
               | None \<Rightarrow> l\<lparr>SpeedLimiter := AList.update t (length (buckets l)) (SpeedLimiter l),
                            buckets := buckets l @ [NewDynamicBucket limit]\<rparr>)
         else l\<lparr>SpeedLimiter := AList.delete t (SpeedLimiter l)\<rparr>)"

definition UpdateUser :: "string \<Rightarrow> UserInfo list \<Rightarrow> UserInfo list \<Rightarrow> UserInfo list \<Rightarrow> Limiter \<Rightarrow> Limiter" where
  "UpdateUser tag added deleted modified l =
     fold (storeUser tag) added (fold (modifyUser tag) modified (fold (deleteUser tag) deleted l))"

definition UpdateDynamicSpeedLimit ::
  "string \<Rightarrow> string \<Rightarrow> int \<Rightarrow> int \<Rightarrow> Limiter \<Rightarrow> (goerr + unit) \<times> Limiter" where
  "UpdateDynamicSpeedLimit tag uuid limit expire l =
     (case map_of (UserLimits l) (UserTag tag uuid) of
        Some a \<Rightarrow> ok () (l\<lparr>infos := (infos l)[a := (info_at l a)\<lparr>lim_DynamicSpeedLimit := limit,
                                                     lim_ExpireTime := expire\<rparr>]\<rparr>)
      | None \<Rightarrow> fail (Err ''not found'') l)"

definition UpdateAliveList :: "(int, int) gomap \<Rightarrow> Limiter \<Rightarrow> Limiter" where
  "UpdateAliveList alive l = l\<lparr>AliveList := alive\<rparr>"

section \<open>The device and speed check\<close>

definition aliveOf :: "Limiter \<Rightarrow> int \<Rightarrow> int" where
  "aliveOf l uid = (case map_of (AliveList l) uid of Some n \<Rightarrow> n | None \<Rightarrow> 0)"

text \<open>The speed limit of a user; an expired dynamic limit is cleared.\<close>

definition currentLimit :: "int \<Rightarrow> UserLimitInfo \<Rightarrow> int \<times> UserLimitInfo" where
  "currentLimit now u =
     (if lim_ExpireTime u < now \<and> lim_ExpireTime u \<noteq> 0
      then (lim_SpeedLimit u, u\<lparr>lim_DynamicSpeedLimit := 0, lim_ExpireTime := 0\<rparr>)
      else (determineSpeedLimit (lim_SpeedLimit u) (lim_DynamicSpeedLimit u), u))"

text \<open>Recording the device: \<open>True\<close> when it is rejected.\<close>

definition recordDevice :: "string \<Rightarrow> string \<Rightarrow> int \<Rightarrow> int \<Rightarrow> Limiter \<Rightarrow> bool \<times> Limiter" where
  "recordDevice taguuid ip uid deviceLimit l =
     (let aliveIp = aliveOf l uid;
          old = map_of (OldUserOnline l) ip;
          forget = (if old = Some uid then AList.delete ip (OldUserOnline l) else OldUserOnline l)
      in case map_of (UserOnlineIP l) taguuid of
           Some ipMap \<Rightarrow>
             (if map_of ipMap ip \<noteq> None then (False, l)
              else if old \<noteq> None
              then (False, l\<lparr>UserOnlineIP := AList.update taguuid (AList.update ip uid ipMap) (UserOnlineIP l),
                             OldUserOnline := forget\<rparr>)
              else if deviceLimit > 0 \<and> deviceLimit \<le> aliveIp then (True, l)
              else (False, l\<lparr>UserOnlineIP := AList.update taguuid (AList.update ip uid ipMap) (UserOnlineIP l)\<rparr>))
         | None \<Rightarrow>
             (if old \<noteq> None
              then (False, l\<lparr>UserOnlineIP := AList.update taguuid [(ip, uid)] (UserOnlineIP l), OldUserOnline := forget\<rparr>)
              else if deviceLimit > 0 \<and> deviceLimit \<le> aliveIp then (True, l)
              else (False, l\<lparr>UserOnlineIP := AList.update taguuid [(ip, uid)] (UserOnlineIP l)\<rparr>)))"

definition speedBucket :: "string \<Rightarrow> int \<Rightarrow> Limiter \<Rightarrow> nat option \<times> Limiter" where
  "speedBucket taguuid userLimit l =
     (let limit = bytesPerSecond (determineSpeedLimit (NodeSpeedLimit l) userLimit) in
      if limit > 0
      then (case map_of (SpeedLimiter l) taguuid of
              Some b \<Rightarrow> (Some b, l)
            | None \<Rightarrow> (Some (length (buckets l)),
                l\<lparr>SpeedLimiter := AList.update taguuid (length (buckets l)) (SpeedLimiter l),
                  buckets := buckets l @ [NewDynamicBucket limit]\<rparr>))
      else (None, l))"

definition CheckLimit :: "int \<Rightarrow> string \<Rightarrow> string \<Rightarrow> bool \<Rightarrow> Limiter \<Rightarrow> (nat option \<times> bool) \<times> Limiter" where
  "CheckLimit now taguuid ip noUDPsource l =
     (let ip = trimPrefix ip ''::ffff:'' in
      case map_of (UserLimits l) taguuid of
        None \<Rightarrow> ((None, True), l)
      | Some a \<Rightarrow>
          (let u = info_at l a in
           if lim_Revoked u then ((None, True), l)
           else (let (userLimit, u') = currentLimit now u;
                     l = l\<lparr>infos := (infos l)[a := u']\<rparr>;
                     (reject, l) =
                       (if noUDPsource \<or> Nodetype l = ''hysteria2'' \<or> Nodetype l = ''tuic''
                        then recordDevice taguuid ip (lim_UID u) (lim_DeviceLimit u) l
                        else (False, l))
                 in if reject then ((None, True), l)
                    else (let (b, l) = speedBucket taguuid userLimit l in ((b, False), l)))))"

definition onlineOf :: "(string, int) gomap \<Rightarrow> OnlineUser list" where
  "onlineOf ipMap = map (\<lambda>(ip, uid). \<lparr>online_UID = uid, online_IP = ip\<rparr>) ipMap"

definition GetOnlineDevice :: "Limiter \<Rightarrow> OnlineUser list \<times> Limiter" where
  "GetOnlineDevice l =
     (concat (map (\<lambda>(t, ipMap). onlineOf ipMap) (UserOnlineIP l)),
      l\<lparr>OldUserOnline := fold (\<lambda>(t, ipMap). fold (\<lambda>(ip, uid). AList.update ip uid) ipMap) (UserOnlineIP l) [],
        UserOnlineIP := []\<rparr>)"

section \<open>Well-formedness\<close>

text \<open>Pointers are in range, maps have one entry per key, and every bucket lets something through.\<close>

definition limiter_ok :: "Limiter \<Rightarrow> bool" where
  "limiter_ok l \<longleftrightarrow>
     gomap_ok (UserLimits l) \<and> (\<forall>t a. map_of (UserLimits l) t = Some a \<longrightarrow> a < length (infos l)) \<and>
     (\<forall>t b. map_of (SpeedLimiter l) t = Some b \<longrightarrow> b < length (buckets l)) \<and>
     (\<forall>d\<in>set (buckets l). bucket_rate d > 0)"

lemma storeUser_fields [simp]:
  "UserLimits (storeUser tag u l) = AList.update (UserTag tag (user_Uuid u)) (length (infos l)) (UserLimits l)"
  "infos (storeUser tag u l) = infos l @ [newInfo u]" "buckets (storeUser tag u l) = buckets l"
  "SpeedLimiter (storeUser tag u l) = SpeedLimiter l" "UserOnlineIP (storeUser tag u l) = UserOnlineIP l"
  "OldUserOnline (storeUser tag u l) = OldUserOnline l" "Nodetype (storeUser tag u l) = Nodetype l"
  "AliveList (storeUser tag u l) = AliveList l"
  by (simp_all add: storeUser_def)

lemma RevokeUser_fields [simp]:
  "UserLimits (RevokeUser t l) = UserLimits l" "buckets (RevokeUser t l) = buckets l"
  "SpeedLimiter (RevokeUser t l) = SpeedLimiter l" "length (infos (RevokeUser t l)) = length (infos l)"
  "UserOnlineIP (RevokeUser t l) = UserOnlineIP l" "Nodetype (RevokeUser t l) = Nodetype l"
  by (simp_all add: RevokeUser_def split: option.splits)

lemma storeUser_ok: "limiter_ok l \<Longrightarrow> limiter_ok (storeUser tag u l)"
  by (auto simp: limiter_ok_def less_SucI)

lemma RevokeUser_ok: "limiter_ok l \<Longrightarrow> limiter_ok (RevokeUser t l)"
  by (auto simp: limiter_ok_def)

lemma deleteUser_ok: "limiter_ok l \<Longrightarrow> limiter_ok (deleteUser tag u l)"
  using RevokeUser_ok [of l "UserTag tag (user_Uuid u)"]
  by (auto simp: limiter_ok_def deleteUser_def Let_def split: if_splits)

lemma set_list_update: "x \<in> set (xs[i := y]) \<Longrightarrow> x = y \<or> x \<in> set xs"
  using set_update_subset_insert [of xs i y] by auto

lemma modifyUser_ok: "limiter_ok l \<Longrightarrow> limiter_ok (modifyUser tag u l)"
  by (auto simp: limiter_ok_def modifyUser_def Let_def UpdateBucket_def NewDynamicBucket_def less_SucI
      split: option.splits if_splits dest!: set_list_update)

lemma fold_preserves: "(\<And>x s. P s \<Longrightarrow> P (f x s)) \<Longrightarrow> P s \<Longrightarrow> P (fold f xs s)"
  by (induction xs arbitrary: s) auto

lemma UpdateUser_ok: "limiter_ok l \<Longrightarrow> limiter_ok (UpdateUser tag added deleted modified l)"
  unfolding UpdateUser_def
  by (intro fold_preserves [where P = limiter_ok] storeUser_ok modifyUser_ok deleteUser_ok)

lemma AddLimiter_ok: "limiter_ok (AddLimiter nodetype tag users alive)"
  unfolding AddLimiter_def
  by (rule fold_preserves [where P = limiter_ok]) (auto simp: storeUser_ok, simp add: limiter_ok_def)

lemma recordDevice_fields:
  "recordDevice t ip uid d l = (r, l') \<Longrightarrow>
     UserLimits l' = UserLimits l \<and> infos l' = infos l \<and> buckets l' = buckets l \<and> SpeedLimiter l' = SpeedLimiter l"
  by (auto simp: recordDevice_def Let_def split: option.splits if_splits)

lemma speedBucket_fields:
  "speedBucket t n l = (b, l') \<Longrightarrow> UserLimits l' = UserLimits l \<and> infos l' = infos l \<and> UserOnlineIP l' = UserOnlineIP l"
  by (auto simp: speedBucket_def Let_def split: option.splits if_splits)

lemma speedBucket_ok:
  "limiter_ok l \<Longrightarrow> speedBucket t n l = (b, l') \<Longrightarrow>
     limiter_ok l' \<and> (\<forall>a. b = Some a \<longrightarrow> a < length (buckets l') \<and> bucket_rate (buckets l' ! a) > 0)"
  by (auto simp: speedBucket_def Let_def limiter_ok_def NewDynamicBucket_def less_SucI
      split: option.splits if_splits)

text \<open>The shape of a check that is not refused outright.\<close>

lemma CheckLimit_cases:
  assumes "CheckLimit now t ip udp l = ((b, reject), l')"
  obtains (refused) "l' = l" "b = None" "reject"
      "map_of (UserLimits l) t = None \<or> (\<exists>a. map_of (UserLimits l) t = Some a \<and> lim_Revoked (info_at l a))"
    | (checked) a n u' l1 l2 rejected where "map_of (UserLimits l) t = Some a" "\<not> lim_Revoked (info_at l a)"
      "currentLimit now (info_at l a) = (n, u')" "l1 = l\<lparr>infos := (infos l)[a := u']\<rparr>"
      "(if udp \<or> Nodetype l = ''hysteria2'' \<or> Nodetype l = ''tuic''
        then recordDevice t (trimPrefix ip ''::ffff:'') (lim_UID (info_at l a)) (lim_DeviceLimit (info_at l a)) l1
        else (False, l1)) = (rejected, l2)"
      "reject = rejected" "if rejected then b = None \<and> l' = l2 else speedBucket t n l2 = (b, l')"
proof (cases "map_of (UserLimits l) t")
  case None
  with assms refused show ?thesis by (simp add: CheckLimit_def Let_def)
next
  case (Some a)
  show ?thesis
  proof (cases "lim_Revoked (info_at l a)")
    case True
    with assms Some refused show ?thesis by (simp add: CheckLimit_def Let_def)
  next
    case False
    obtain n u' where c: "currentLimit now (info_at l a) = (n, u')" by fastforce
    let ?l1 = "l\<lparr>infos := (infos l)[a := u']\<rparr>"
    obtain rejected l2 where d: "(if udp \<or> Nodetype l = ''hysteria2'' \<or> Nodetype l = ''tuic''
        then recordDevice t (trimPrefix ip ''::ffff:'') (lim_UID (info_at l a)) (lim_DeviceLimit (info_at l a)) ?l1
        else (False, ?l1)) = (rejected, l2)" by fastforce
    have "CheckLimit now t ip udp l = (if rejected then ((None, True), l2)
        else (case speedBucket t n l2 of (b, l) \<Rightarrow> ((b, False), l)))"
      using Some False c d by (simp add: CheckLimit_def Let_def split: if_splits)
    with assms have "reject = rejected \<and> (if rejected then b = None \<and> l' = l2 else speedBucket t n l2 = (b, l'))"
      by (auto split: if_splits prod.splits)
    with checked [OF Some False c refl d] show ?thesis by blast
  qed
qed

lemma currentLimit_keeps:
  "currentLimit now u = (n, u') \<Longrightarrow> lim_Revoked u' = lim_Revoked u \<and> lim_UID u' = lim_UID u \<and>
     lim_DeviceLimit u' = lim_DeviceLimit u \<and> lim_OverLimit u' = lim_OverLimit u"
  by (auto simp: currentLimit_def split: if_splits)

lemma CheckLimit_ok:
  assumes "limiter_ok l" "CheckLimit now t ip udp l = ((b, reject), l')"
  shows "limiter_ok l' \<and> (\<forall>a. b = Some a \<longrightarrow> a < length (buckets l') \<and> bucket_rate (buckets l' ! a) > 0)"
  using assms(2)
proof (cases rule: CheckLimit_cases)
  case refused
  with assms(1) show ?thesis by simp
next
  case (checked a n u' l1 l2 rejected)
  have "UserLimits l2 = UserLimits l \<and> length (infos l2) = length (infos l) \<and> buckets l2 = buckets l \<and>
      SpeedLimiter l2 = SpeedLimiter l"
    using checked(4,5) by (auto split: if_splits dest!: recordDevice_fields)
  then have "limiter_ok l2" using assms(1) by (simp add: limiter_ok_def)
  with checked(7) speedBucket_ok [of l2 t n b l'] show ?thesis by (auto split: if_splits)
qed

section \<open>Revocation is permanent\<close>

text \<open>
  The objects that callbacks hold pointers to: none disappears, none changes its user, and a
  revoked one stays revoked.
\<close>

definition only_revokes :: "Limiter \<Rightarrow> Limiter \<Rightarrow> bool" where
  "only_revokes l l' \<longleftrightarrow>
     length (infos l) \<le> length (infos l') \<and>
     (\<forall>a < length (infos l). lim_UID (info_at l' a) = lim_UID (info_at l a) \<and>
        (lim_Revoked (info_at l a) \<longrightarrow> lim_Revoked (info_at l' a)))"

lemma nth_update_at: "j < length xs \<Longrightarrow> xs[i := y] ! j = (if i = j then y else xs ! j)"
  by (cases "i < length xs") (auto simp: nth_list_update)

lemma only_revokes_refl [simp]: "only_revokes l l"
  by (simp add: only_revokes_def)

lemma only_revokes_trans: "only_revokes l l1 \<Longrightarrow> only_revokes l1 l2 \<Longrightarrow> only_revokes l l2"
  by (auto simp: only_revokes_def)

lemma only_revokes_step:
  "only_revokes l (storeUser tag u l)" "only_revokes l (RevokeUser t l)" "only_revokes l (deleteUser tag u l)"
  "only_revokes l (modifyUser tag u l)" "only_revokes l (UpdateAliveList alive l)"
  "only_revokes l (snd (GetOnlineDevice l))" "only_revokes l (snd (UpdateDynamicSpeedLimit tag uuid n e l))"
  by (auto simp: only_revokes_def storeUser_def RevokeUser_def deleteUser_def modifyUser_def Let_def
      nth_append nth_update_at UpdateAliveList_def GetOnlineDevice_def UpdateDynamicSpeedLimit_def ok_def fail_def
      split: option.splits)

lemma only_revokes_fold:
  "(\<And>x l. only_revokes l (f x l)) \<Longrightarrow> only_revokes l (fold f xs l)"
  by (induction xs arbitrary: l) (auto intro: only_revokes_trans)

lemma only_revokes_update: "only_revokes l (UpdateUser tag added deleted modified l)"
  unfolding UpdateUser_def
  by (intro only_revokes_trans [OF only_revokes_fold only_revokes_trans [OF only_revokes_fold only_revokes_fold]]
      only_revokes_step)

lemma only_revokes_check: "CheckLimit now t ip udp l = (r, l') \<Longrightarrow> only_revokes l l'"
proof -
  assume c: "CheckLimit now t ip udp l = (r, l')"
  obtain b reject where r: "r = (b, reject)" by fastforce
  from c [unfolded r] show ?thesis
  proof (cases rule: CheckLimit_cases)
    case (checked a n u' l1 l2 rejected)
    have "infos l' = infos l1"
      using checked(5,7) by (auto split: if_splits dest!: recordDevice_fields speedBucket_fields)
    then show ?thesis
      using checked(3,4) by (auto simp: only_revokes_def nth_update_at dest: currentLimit_keeps)
  qed simp
qed

section \<open>Properties\<close>

lemma RevokeUser_revokes:
  "limiter_ok l \<Longrightarrow> map_of (UserLimits l) t = Some a \<Longrightarrow> lim_Revoked (info_at (RevokeUser t l) a)"
  by (auto simp: RevokeUser_def limiter_ok_def)

lemma only_revokes_keeps:
  "only_revokes l l' \<Longrightarrow> a < length (infos l) \<Longrightarrow> lim_Revoked (info_at l a) \<Longrightarrow> lim_Revoked (info_at l' a)"
  by (simp add: only_revokes_def)

lemma deleteUser_revokes:
  assumes "limiter_ok l" "map_of (UserLimits l) (UserTag tag (user_Uuid u)) = Some a"
  shows "lim_Revoked (info_at (deleteUser tag u l) a)"
  using RevokeUser_revokes [OF assms] by (simp add: deleteUser_def Let_def)

lemma deleteUser_lookup:
  "map_of (UserLimits (deleteUser tag u l)) t =
     (if t = UserTag tag (user_Uuid u) then None else map_of (UserLimits l) t)"
  by (simp add: deleteUser_def Let_def)

lemma modifyUser_lookup [simp]: "UserLimits (modifyUser tag u l) = UserLimits l"
  by (simp add: modifyUser_def Let_def split: option.splits)

lemma fold_delete_lookup:
  "map_of (UserLimits (fold (deleteUser tag) deleted l)) (UserTag tag k) =
     (if k \<in> user_Uuid ` set deleted then None else map_of (UserLimits l) (UserTag tag k))"
  by (induction deleted arbitrary: l) (auto simp: deleteUser_lookup)

lemma fold_modify_lookup [simp]: "UserLimits (fold (modifyUser tag) modified l) = UserLimits l"
  by (induction modified arbitrary: l) auto

lemma fold_store_other:
  "k \<notin> user_Uuid ` set added \<Longrightarrow>
     map_of (UserLimits (fold (storeUser tag) added l)) (UserTag tag k) = map_of (UserLimits l) (UserTag tag k)"
  by (induction added arbitrary: l) auto

lemma fold_store_info:
  "a < length (infos l) \<Longrightarrow> info_at (fold (storeUser tag) added l) a = info_at l a"
  by (induction added arbitrary: l) (auto simp: nth_append less_SucI)

lemma fold_store_length: "length (infos (fold (storeUser tag) added l)) = length (infos l) + length added"
  by (induction added arbitrary: l) auto

lemma fold_store_lookup:
  assumes "u \<in> set added" "distinct (map user_Uuid added)"
  shows "\<exists>a. map_of (UserLimits (fold (storeUser tag) added l)) (UserTag tag (user_Uuid u)) = Some a \<and>
    a \<ge> length (infos l) \<and> a < length (infos (fold (storeUser tag) added l)) \<and>
    info_at (fold (storeUser tag) added l) a = newInfo u"
  using assms
proof (induction added arbitrary: l)
  case (Cons v added)
  have len: "length (infos l') \<le> length (infos (fold (storeUser tag) added l'))" for l'
    by (simp add: fold_store_length)
  show ?case
  proof (cases "u = v")
    case True
    with Cons.prems have n: "user_Uuid u \<notin> user_Uuid ` set added" by auto
    have "length (infos l) < length (infos (storeUser tag u l))" by simp
    with fold_store_other [OF n, of tag "storeUser tag u l"] len [of "storeUser tag u l"]
      fold_store_info [of "length (infos l)" "storeUser tag u l" tag added] True
    show ?thesis by (intro exI [of _ "length (infos l)"]) auto
  next
    case False
    with Cons show ?thesis by (auto dest: Cons.IH [of "storeUser tag v l"] Suc_leD)
  qed
qed simp

lemma fold_delete_revokes:
  assumes "limiter_ok l" "u \<in> set deleted" "map_of (UserLimits l) (UserTag tag (user_Uuid u)) = Some a"
  shows "lim_Revoked (info_at (fold (deleteUser tag) deleted l) a)"
  using assms
proof (induction deleted arbitrary: l)
  case (Cons v deleted)
  have a: "a < length (infos l)" using Cons.prems by (auto simp: limiter_ok_def)
  have tail: "only_revokes (deleteUser tag v l) (fold (deleteUser tag) deleted (deleteUser tag v l))"
    by (intro only_revokes_fold only_revokes_step)
  have len: "a < length (infos (deleteUser tag v l))"
    using only_revokes_step(3) [of l tag v] a by (auto simp: only_revokes_def)
  show ?case
  proof (cases "user_Uuid v = user_Uuid u")
    case True
    with deleteUser_revokes [OF Cons.prems(1), of tag v a] Cons.prems(3) show ?thesis
      by (simp add: only_revokes_keeps [OF tail len])
  next
    case False
    with Cons.prems have "u \<in> set deleted" by auto
    with Cons.IH [OF deleteUser_ok [OF Cons.prems(1)], of tag v] Cons.prems(3) False show ?thesis
      by (simp add: deleteUser_lookup)
  qed
qed simp

text \<open>C18: An update replaces permissions as asked. After \<open>UpdateUser\<close>, every added user has a fresh
  permission object with its limits; a deleted user that is not added again has none; and every
  permission object a deleted user had is revoked, for all who still hold a pointer to it.\<close>

theorem limiter_update:
  assumes "limiter_ok l" "distinct (map user_Uuid added)"
  shows "(\<forall>u\<in>set added. \<exists>a\<ge>length (infos l).
       map_of (UserLimits (UpdateUser tag added deleted modified l)) (UserTag tag (user_Uuid u)) = Some a \<and>
       info_at (UpdateUser tag added deleted modified l) a = newInfo u) \<and>
    (\<forall>u\<in>set deleted. user_Uuid u \<notin> user_Uuid ` set added \<longrightarrow>
       map_of (UserLimits (UpdateUser tag added deleted modified l)) (UserTag tag (user_Uuid u)) = None) \<and>
    (\<forall>u\<in>set deleted. \<forall>a. map_of (UserLimits l) (UserTag tag (user_Uuid u)) = Some a \<longrightarrow>
       lim_Revoked (info_at (UpdateUser tag added deleted modified l) a))"
proof (intro conjI)
  let ?d = "fold (deleteUser tag) deleted l" and ?m = "fold (modifyUser tag) modified (fold (deleteUser tag) deleted l)"
  have del: "only_revokes l ?d" and md: "only_revokes ?d ?m" and st: "only_revokes ?m (fold (storeUser tag) added ?m)"
    by (intro only_revokes_fold only_revokes_step)+
  have len: "length (infos l) \<le> length (infos ?m)"
    using only_revokes_trans [OF del md] by (simp add: only_revokes_def)
  show "\<forall>u\<in>set added. \<exists>a\<ge>length (infos l).
       map_of (UserLimits (UpdateUser tag added deleted modified l)) (UserTag tag (user_Uuid u)) = Some a \<and>
       info_at (UpdateUser tag added deleted modified l) a = newInfo u"
    using fold_store_lookup [OF _ assms(2), of _ tag ?m] len unfolding UpdateUser_def by (meson le_trans)
  show "\<forall>u\<in>set deleted. user_Uuid u \<notin> user_Uuid ` set added \<longrightarrow>
       map_of (UserLimits (UpdateUser tag added deleted modified l)) (UserTag tag (user_Uuid u)) = None"
    by (auto simp: UpdateUser_def fold_store_other fold_delete_lookup)
  show "\<forall>u\<in>set deleted. \<forall>a. map_of (UserLimits l) (UserTag tag (user_Uuid u)) = Some a \<longrightarrow>
       lim_Revoked (info_at (UpdateUser tag added deleted modified l) a)"
  proof (intro ballI allI impI)
    fix u a
    assume u: "u \<in> set deleted" and a: "map_of (UserLimits l) (UserTag tag (user_Uuid u)) = Some a"
    have "a < length (infos l)" using assms(1) a by (auto simp: limiter_ok_def)
    then have "a < length (infos ?d)" using del by (auto simp: only_revokes_def)
    with fold_delete_revokes [OF assms(1) u a] only_revokes_trans [OF md st]
    show "lim_Revoked (info_at (UpdateUser tag added deleted modified l) a)"
      by (auto simp: UpdateUser_def only_revokes_def)
  qed
qed

text \<open>Without a valid permission nothing is allowed: a user that is unknown to the limiter or
  whose permission is revoked is rejected, gets no bucket, and leaves no device behind.\<close>

theorem limiter_unknown_rejected:
  assumes "map_of (UserLimits l) t = None \<or> (\<exists>a. map_of (UserLimits l) t = Some a \<and> lim_Revoked (info_at l a))"
  shows "CheckLimit now t ip udp l = ((None, True), l)"
  using assms by (auto simp: CheckLimit_def Let_def)


lemma dom_fold_update:
  "dom (map_of (fold (\<lambda>(ip, uid). AList.update ip uid) m acc)) = fst ` set m \<union> dom (map_of acc)"
  by (induction m arbitrary: acc) auto

lemma dom_fold_devices:
  "dom (map_of (fold (\<lambda>(t, m). fold (\<lambda>(ip, uid). AList.update ip uid) m) xs acc)) =
     (\<Union>x\<in>set xs. fst ` set (snd x)) \<union> dom (map_of acc)"
proof (induction xs arbitrary: acc)
  case (Cons x xs)
  show ?case by (cases x) (auto simp: Cons.IH dom_fold_update)
qed simp

text \<open>An accepted device is reported. When a check on a Hysteria 2 node accepts an address that
  the user did not use before in this interval, the next online report lists exactly this
  address for the user's identifier, and the address counts as known in the interval after it.\<close>

theorem limiter_accepted_reported:
  assumes "map_of (UserLimits l) t = Some a" "\<not> lim_Revoked (info_at l a)" "Nodetype l = ''hysteria2''"
    and "\<forall>m. map_of (UserOnlineIP l) t = Some m \<longrightarrow> map_of m (trimPrefix ip ''::ffff:'') = None"
    and "CheckLimit now t ip udp l = ((b, False), l')"
  shows "\<lparr>online_UID = lim_UID (info_at l a), online_IP = trimPrefix ip ''::ffff:''\<rparr> \<in> set (fst (GetOnlineDevice l')) \<and>
    map_of (OldUserOnline (snd (GetOnlineDevice l'))) (trimPrefix ip ''::ffff:'') \<noteq> None"
proof (intro conjI)
  let ?ip = "trimPrefix ip ''::ffff:''" and ?uid = "lim_UID (info_at l a)"
  have "\<exists>m. map_of (UserOnlineIP l') t = Some m \<and> map_of m ?ip = Some ?uid"
    using assms(5)
  proof (cases rule: CheckLimit_cases)
    case (checked a' n u' l1 l2 rejected)
    then have "\<exists>m. map_of (UserOnlineIP l2) t = Some m \<and> map_of m ?ip = Some ?uid"
      using assms(1-4) by (auto simp: recordDevice_def Let_def split: option.splits if_splits)
    with checked(6,7) show ?thesis by (auto dest!: speedBucket_fields)
  qed simp
  then obtain m where m: "(t, m) \<in> set (UserOnlineIP l')" "(?ip, ?uid) \<in> set m"
    by (auto dest: map_of_SomeD)
  then have "\<lparr>online_UID = ?uid, online_IP = ?ip\<rparr> \<in> set (onlineOf m)"
    by (force simp: onlineOf_def)
  with m(1) show "\<lparr>online_UID = ?uid, online_IP = ?ip\<rparr> \<in> set (fst (GetOnlineDevice l'))"
    by (auto simp: GetOnlineDevice_def intro!: bexI [of _ "(t, m)"])
  have "\<exists>x\<in>set (UserOnlineIP l'). ?ip \<in> fst ` set (snd x)"
    using m by (intro bexI [OF _ m(1)]) force
  then have "?ip \<in> dom (map_of (OldUserOnline (snd (GetOnlineDevice l'))))"
    by (auto simp: GetOnlineDevice_def dom_fold_devices)
  then show "map_of (OldUserOnline (snd (GetOnlineDevice l'))) ?ip \<noteq> None" by blast
qed

text \<open>An address shared with another user escapes the device limit. If another user was online
  from the address in the previous interval, the check accepts it whatever the device limit and
  the number of online devices are.\<close>

theorem limiter_shared_address_accepted:
  assumes "map_of (UserLimits l) t = Some a" "\<not> lim_Revoked (info_at l a)" "Nodetype l = ''hysteria2''"
    and "map_of (OldUserOnline l) (trimPrefix ip ''::ffff:'') = Some other" "other \<noteq> lim_UID (info_at l a)"
  shows "\<exists>b l'. CheckLimit now t ip udp l = ((b, False), l')"
proof -
  obtain b reject l' where c: "CheckLimit now t ip udp l = ((b, reject), l')" by (metis prod.exhaust)
  then have "\<not> reject"
  proof (cases rule: CheckLimit_cases)
    case (checked a' n u' l1 l2 rejected)
    then show ?thesis
      using assms by (auto simp: recordDevice_def Let_def split: option.splits if_splits)
  qed (use assms in auto)
  with c show ?thesis by auto
qed

section \<open>A concrete limiter\<close>

text \<open>Two users with a device limit of one, one of them online elsewhere.\<close>

definition demoUser :: "int \<Rightarrow> string \<Rightarrow> UserInfo" where
  "demoUser i uuid = \<lparr>user_Id = i, user_Uuid = uuid, user_SpeedLimit = 0, user_DeviceLimit = 1\<rparr>"

definition demoLimiter :: Limiter where
  "demoLimiter = AddLimiter ''hysteria2'' ''n'' [demoUser 1 ''a'', demoUser 2 ''b''] [(1, 1)]"

lemma demoLimiter_eval:
  "demoLimiter =
     \<lparr>Nodetype = ''hysteria2'', NodeSpeedLimit = 0, UserOnlineIP = [], OldUserOnline = [],
      UUIDtoUID = [(''a'', 1), (''b'', 2)], UserLimits = [(''n|a'', 0), (''n|b'', 1)], SpeedLimiter = [],
      AliveList = [(1, 1)], infos = [newInfo (demoUser 1 ''a''), newInfo (demoUser 2 ''b'')], buckets = []\<rparr>"
  by (simp add: demoLimiter_def AddLimiter_def storeUser_def UserTag_def demoUser_def)

lemmas demo_simps = demoLimiter_eval demoUser_def newInfo_def UserTag_def trimPrefix_def aliveOf_def

theorem limiter_update_witness:
  "(\<exists>a\<ge>2. map_of (UserLimits (UpdateUser ''n'' [demoUser 3 ''c''] [demoUser 1 ''a''] [] demoLimiter)) ''n|c'' = Some a \<and>
      info_at (UpdateUser ''n'' [demoUser 3 ''c''] [demoUser 1 ''a''] [] demoLimiter) a = newInfo (demoUser 3 ''c'')) \<and>
   map_of (UserLimits (UpdateUser ''n'' [demoUser 3 ''c''] [demoUser 1 ''a''] [] demoLimiter)) ''n|a'' = None \<and>
   lim_Revoked (info_at (UpdateUser ''n'' [demoUser 3 ''c''] [demoUser 1 ''a''] [] demoLimiter) 0)"
  using limiter_update [of demoLimiter "[demoUser 3 ''c'']" "''n''" "[demoUser 1 ''a'']" "[]"]
    AddLimiter_ok [of "''hysteria2''" "''n''" "[demoUser 1 ''a'', demoUser 2 ''b'']" "[(1, 1)]", folded demoLimiter_def]
  by (auto simp: demo_simps)

theorem limiter_unknown_rejected_witness:
  "CheckLimit 0 ''n|z'' ''10.0.0.1'' False demoLimiter = ((None, True), demoLimiter)"
  by (rule limiter_unknown_rejected) (simp add: demo_simps)


lemma demo_accept:
  "CheckLimit 0 ''n|b'' ''10.0.0.1'' False demoLimiter =
     ((None, False), demoLimiter\<lparr>UserOnlineIP := [(''n|b'', [(''10.0.0.1'', 2)])]\<rparr>)"
  by (simp add: CheckLimit_def recordDevice_def speedBucket_def currentLimit_def bytesPerSecond_def godiv_def
      determineSpeedLimit_def demo_simps Let_def)

theorem limiter_accepted_reported_witness:
  "\<lparr>online_UID = 2, online_IP = ''10.0.0.1''\<rparr> \<in>
     set (fst (GetOnlineDevice (demoLimiter\<lparr>UserOnlineIP := [(''n|b'', [(''10.0.0.1'', 2)])]\<rparr>))) \<and>
   map_of (OldUserOnline (snd (GetOnlineDevice (demoLimiter\<lparr>UserOnlineIP := [(''n|b'', [(''10.0.0.1'', 2)])]\<rparr>)))) ''10.0.0.1'' \<noteq> None"
  using limiter_accepted_reported [OF _ _ _ _ demo_accept, of 1] by (simp add: demo_simps)

theorem limiter_shared_address_accepted_witness:
  "\<exists>b l'. CheckLimit 0 ''n|a'' ''10.0.0.1'' False (demoLimiter\<lparr>OldUserOnline := [(''10.0.0.1'', 2)]\<rparr>) = ((b, False), l')"
  by (rule limiter_shared_address_accepted [where a = 0 and other = 2]) (simp_all add: demo_simps)

end
