(* ===== verification/Hy2_Runtime.thy ===== *)
theory Hy2_Runtime
  imports Limiter Counter
begin

text \<open>
  The running nodes (\<open>core/officialhy2/hook.go\<close>, \<open>accounting.go\<close>, \<open>logger.go\<close>, \<open>manager.go\<close>) and the
  core that owns them (\<open>core/user.go\<close>, \<open>core/node.go\<close>), each method as one function: this is the
  behaviour of a call that is not interrupted. Interleavings are the subject of the theory
  Hy2\_Concurrent. Pointers to limiters, storages and cached users are indices into heaps.
\<close>

section \<open>State\<close>

record trafficUserCache =
  tc_id :: string
  tc_storage :: nat
  tc_limiter :: nat
  tc_limit :: nat

record limitCacheEntry =
  lce_reject :: bool
  lce_expiresAt :: int

text \<open>
  A node: its authenticator, its traffic logger (the limiter it captured, its cached users, its
  counter map) and its event logger.
\<close>

record hy2Node =
  node_tag :: string
  node_limiter :: "nat option"
  auth_users :: "(string, int) gomap"
  cache_users :: "(string, nat) gomap"
  node_counter :: "(string, nat) gomap"
  limitCache :: "(string, limitCacheEntry) gomap"
  lastLimitCacheSweep :: int
  node_stopped :: bool

record heap =
  limiters :: "Limiter list"
  limiterMap :: "(string, nat) gomap"
  storageHeap :: storages
  cacheHeap :: "trafficUserCache list"

record Manager =
  nodes :: "(string, hy2Node) gomap"
  mheap :: heap

record V2Core =
  hy2 :: Manager
  uidMap :: "(string, int) gomap"

definition limitOf :: "trafficUserCache \<Rightarrow> heap \<Rightarrow> UserLimitInfo" where
  "limitOf p h = info_at (limiters h ! tc_limiter p) (tc_limit p)"

definition setLimit :: "nat \<Rightarrow> nat \<Rightarrow> UserLimitInfo \<Rightarrow> heap \<Rightarrow> heap" where
  "setLimit la a u h =
     h\<lparr>limiters := (limiters h)[la := (limiters h ! la)\<lparr>infos := (infos (limiters h ! la))[a := u]\<rparr>]\<rparr>"

text \<open>\<open>getLimiter\<close> of both loggers: the captured limiter, or else the registered one.\<close>

definition loggerLimiter :: "hy2Node \<Rightarrow> heap \<Rightarrow> nat option" where
  "loggerLimiter n h =
     (case node_limiter n of Some a \<Rightarrow> Some a | None \<Rightarrow> map_of (limiterMap h) (node_tag n))"

section \<open>Authentication and traffic callbacks\<close>

definition Authenticate :: "string \<Rightarrow> hy2Node \<Rightarrow> bool \<times> string" where
  "Authenticate auth n =
     (case map_of (auth_users n) auth of None \<Rightarrow> (False, []) | Some _ \<Rightarrow> (True, auth))"

text \<open>The permission a new cache entry would take: \<open>None\<close> when there is none or it is revoked.\<close>

definition lookupLimit :: "string \<Rightarrow> hy2Node \<Rightarrow> heap \<Rightarrow> (nat \<times> nat) option" where
  "lookupLimit uuid n h =
     (case loggerLimiter n h of None \<Rightarrow> None
      | Some la \<Rightarrow>
          (case map_of (UserLimits (limiters h ! la)) (UserTag (node_tag n) uuid) of None \<Rightarrow> None
           | Some a \<Rightarrow> if lim_Revoked (info_at (limiters h ! la) a) then None else Some (la, a)))"

definition storeCache :: "string \<Rightarrow> nat \<times> nat \<Rightarrow> hy2Node \<Rightarrow> heap \<Rightarrow> nat \<times> hy2Node \<times> heap" where
  "storeCache uuid lim n h =
     (case GetCounter uuid (node_counter n, storageHeap h) of
        (st, m, sh) \<Rightarrow>
          (length (cacheHeap h),
           n\<lparr>node_counter := m, cache_users := AList.update uuid (length (cacheHeap h)) (cache_users n)\<rparr>,
           h\<lparr>storageHeap := sh,
             cacheHeap := cacheHeap h @ [\<lparr>tc_id = uuid, tc_storage = st, tc_limiter = fst lim, tc_limit = snd lim\<rparr>]\<rparr>))"

definition getUser :: "string \<Rightarrow> hy2Node \<Rightarrow> heap \<Rightarrow> nat option \<times> hy2Node \<times> heap" where
  "getUser uuid n h =
     (case map_of (cache_users n) uuid of
        Some p \<Rightarrow> (if lim_Revoked (limitOf (cacheHeap h ! p) h) then None else Some p, n, h)
      | None \<Rightarrow>
          (case lookupLimit uuid n h of None \<Rightarrow> (None, n, h)
           | Some lim \<Rightarrow> (case storeCache uuid lim n h of (p, n, h) \<Rightarrow> (Some p, n, h))))"

text \<open>
  The rest of \<open>LogTraffic\<close>, under the read lock of the cached user: the permission check, which
  consumes the over-limit mark, and the counting.
\<close>

definition mayCount :: "nat \<Rightarrow> heap \<Rightarrow> bool \<times> heap" where
  "mayCount p h =
     (let c = cacheHeap h ! p; u = limitOf c h in
      if lim_Revoked u then (False, h)
      else if lim_OverLimit u then (False, setLimit (tc_limiter c) (tc_limit c) (u\<lparr>lim_OverLimit := False\<rparr>) h)
      else (True, h))"

definition countTraffic :: "nat \<Rightarrow> u64 \<Rightarrow> u64 \<Rightarrow> heap \<Rightarrow> heap" where
  "countTraffic p tx rx h =
     (let st = tc_storage (cacheHeap h ! p);
          sh = (if rx > 0 then addDown st (int64_of_u64 rx) (storageHeap h) else storageHeap h);
          sh = (if tx > 0 then addUp st (int64_of_u64 tx) sh else sh)
      in h\<lparr>storageHeap := sh\<rparr>)"

definition LogTraffic :: "string \<Rightarrow> u64 \<Rightarrow> u64 \<Rightarrow> hy2Node \<Rightarrow> heap \<Rightarrow> bool \<times> hy2Node \<times> heap" where
  "LogTraffic uuid tx rx n h =
     (case getUser uuid n h of
        (None, n, h) \<Rightarrow> (False, n, h)
      | (Some p, n, h) \<Rightarrow>
          (case mayCount p h of
             (False, h) \<Rightarrow> (False, n, h)
           | (True, h) \<Rightarrow> (True, n, countTraffic p tx rx h)))"

definition ForgetUser :: "string \<Rightarrow> hy2Node \<Rightarrow> hy2Node" where
  "ForgetUser uuid n = n\<lparr>cache_users := AList.delete uuid (cache_users n)\<rparr>"

definition settleUser :: "string \<Rightarrow> hy2Node \<Rightarrow> hy2Node" where
  "settleUser uuid n =
     (case map_of (cache_users n) uuid of
        None \<Rightarrow> n | Some p \<Rightarrow> n\<lparr>cache_users := AList.delete uuid (cache_users n)\<rparr>)"

section \<open>The event logger\<close>

definition setLimiterOverLimit :: "nat \<Rightarrow> string \<Rightarrow> bool \<Rightarrow> heap \<Rightarrow> heap" where
  "setLimiterOverLimit la taguuid reject h =
     (case map_of (UserLimits (limiters h ! la)) taguuid of
        None \<Rightarrow> h
      | Some a \<Rightarrow> setLimit la a ((info_at (limiters h ! la) a)\<lparr>lim_OverLimit := reject\<rparr>) h)"

definition setUserOverLimit :: "string \<Rightarrow> bool \<Rightarrow> hy2Node \<Rightarrow> heap \<Rightarrow> heap" where
  "setUserOverLimit taguuid reject n h =
     (case loggerLimiter n h of None \<Rightarrow> h | Some la \<Rightarrow> setLimiterOverLimit la taguuid reject h)"

text \<open>Times are in nanoseconds: two seconds for a cached decision, a minute between sweeps.\<close>

definition limitCheckCacheTTL :: int where
  "limitCheckCacheTTL = 2 * 10 ^ 9"

definition limitCacheSweepEvery :: int where
  "limitCacheSweepEvery = 60 * 10 ^ 9"

definition sweepLimitCache :: "int \<Rightarrow> hy2Node \<Rightarrow> hy2Node" where
  "sweepLimitCache now n =
     (if lastLimitCacheSweep n \<noteq> 0 \<and> now - lastLimitCacheSweep n < limitCacheSweepEvery then n
      else n\<lparr>lastLimitCacheSweep := now,
             limitCache := filter (\<lambda>(k, e). \<not> now > lce_expiresAt e) (limitCache n)\<rparr>)"

definition cacheKey :: "string \<Rightarrow> string \<Rightarrow> string \<Rightarrow> string" where
  "cacheKey taguuid ip network = taguuid @ ''|'' @ ip @ ''|'' @ network"

definition freshCheck :: "int \<Rightarrow> string \<Rightarrow> string \<Rightarrow> string \<Rightarrow> hy2Node \<Rightarrow> heap \<Rightarrow> hy2Node \<times> heap" where
  "freshCheck now taguuid ip network n h =
     (case loggerLimiter n h of None \<Rightarrow> (n, h)
      | Some la \<Rightarrow>
          (case CheckLimit (now div 10 ^ 9) taguuid ip (network = ''tcp'') (limiters h ! la) of
             ((_, reject), l) \<Rightarrow>
               (sweepLimitCache now
                  (n\<lparr>limitCache := AList.update (cacheKey taguuid ip network)
                      \<lparr>lce_reject = reject, lce_expiresAt = now + limitCheckCacheTTL\<rparr> (limitCache n)\<rparr>),
                setLimiterOverLimit la taguuid reject (h\<lparr>limiters := (limiters h)[la := l]\<rparr>))))"

definition checkLimit :: "int \<Rightarrow> string \<Rightarrow> string \<Rightarrow> string \<Rightarrow> hy2Node \<Rightarrow> heap \<Rightarrow> hy2Node \<times> heap" where
  "checkLimit now ip network uuid n h =
     (let taguuid = UserTag (node_tag n) uuid; key = cacheKey taguuid ip network in
      case map_of (limitCache n) key of
        Some e \<Rightarrow>
          (if now < lce_expiresAt e
           then (n, if lce_reject e then setUserOverLimit taguuid True n h else h)
           else freshCheck now taguuid ip network (n\<lparr>limitCache := AList.delete key (limitCache n)\<rparr>) h)
      | None \<Rightarrow> freshCheck now taguuid ip network n h)"

section \<open>The manager\<close>

definition HasNode :: "string \<Rightarrow> Manager \<Rightarrow> bool" where
  "HasNode tag m \<longleftrightarrow> map_of (nodes m) tag \<noteq> None"

text \<open>Starting the QUIC server is outside the model: its error, if any, is an argument.\<close>

definition AddNode :: "string \<Rightarrow> goerr option \<Rightarrow> Manager \<Rightarrow> (goerr + unit) \<times> Manager" where
  "AddNode tag serverErr m =
     (if map_of (nodes m) tag \<noteq> None then fail (Err (''hysteria2 node '' @ tag @ '' already exists'')) m
      else (case serverErr of
          Some e \<Rightarrow> fail e m
        | None \<Rightarrow>
            ok () (m\<lparr>nodes := AList.update tag
              \<lparr>node_tag = tag, node_limiter = map_of (limiterMap (mheap m)) tag, auth_users = [],
               cache_users = [], node_counter = [], limitCache = [], lastLimitCacheSweep = 0,
               node_stopped = False\<rparr> (nodes m)\<rparr>)))"

definition DelNode :: "string \<Rightarrow> goerr option \<Rightarrow> Manager \<Rightarrow> (goerr + unit) \<times> Manager" where
  "DelNode tag stopErr m =
     (case map_of (nodes m) tag of
        None \<Rightarrow> fail (Err (''hysteria2 node '' @ tag @ '' not found'')) m
      | Some n \<Rightarrow>
          ((case stopErr of None \<Rightarrow> Inr () | Some e \<Rightarrow> Inl e),
           m\<lparr>nodes := AList.delete tag (nodes m)\<rparr>))"

text \<open>
  \<open>Close\<close> takes all nodes out of the map and stops every one of them; the error is that of the first
  node, in the order in which the map is visited, that did not stop cleanly.
\<close>

definition managerNew :: "heap \<Rightarrow> Manager" where
  "managerNew h = \<lparr>nodes = [], mheap = h\<rparr>"

definition managerClose :: "(string \<Rightarrow> goerr option) \<Rightarrow> Manager \<Rightarrow> (goerr + unit) \<times> Manager" where
  "managerClose stopErr m =
     ((case List.find (\<lambda>(tag, n). stopErr tag \<noteq> None) (nodes m) of
         None \<Rightarrow> Inr ()
       | Some (tag, n) \<Rightarrow> Inl (Wrap (''close hysteria2 node '' @ tag) (the (stopErr tag)))),
      m\<lparr>nodes := []\<rparr>)"

lemma HasNode_iff: "HasNode tag m \<longleftrightarrow> tag \<in> fst ` set (nodes m)"
  by (simp add: HasNode_def map_of_eq_None_iff)

lemma managerClose_ok: "fst (managerClose stopErr m) = Inr () \<longleftrightarrow> (\<forall>tag. HasNode tag m \<longrightarrow> stopErr tag = None)"
proof -
  have "fst (managerClose stopErr m) = Inr () \<longleftrightarrow> List.find (\<lambda>(tag, n). stopErr tag \<noteq> None) (nodes m) = None"
    by (auto simp: managerClose_def split: option.split)
  also have "\<dots> \<longleftrightarrow> (\<forall>e \<in> set (nodes m). stopErr (fst e) = None)"
    by (auto simp: find_None_iff)
  finally show ?thesis by (auto simp: HasNode_iff)
qed

abbreviation putNode :: "string \<Rightarrow> hy2Node \<Rightarrow> Manager \<Rightarrow> Manager" where
  "putNode tag n m \<equiv> m\<lparr>nodes := AList.update tag n (nodes m)\<rparr>"

definition addAuth :: "UserInfo \<Rightarrow> hy2Node \<Rightarrow> hy2Node" where
  "addAuth u n =
     (let n = ForgetUser (user_Uuid u) n in
      n\<lparr>auth_users := AList.update (user_Uuid u) (user_Id u) (auth_users n)\<rparr>)"

definition AddUsers :: "string \<Rightarrow> UserInfo list \<Rightarrow> Manager \<Rightarrow> (goerr + nat) \<times> Manager" where
  "AddUsers tag users m =
     (case map_of (nodes m) tag of
        None \<Rightarrow> fail (Err (''hysteria2 node '' @ tag @ '' not found'')) m
      | Some n \<Rightarrow> ok (length users) (putNode tag (fold addAuth users n) m))"

definition revokeLimit :: "string \<Rightarrow> hy2Node \<Rightarrow> heap \<Rightarrow> heap" where
  "revokeLimit uuid n h =
     (case loggerLimiter n h of None \<Rightarrow> h
      | Some la \<Rightarrow> h\<lparr>limiters := (limiters h)[la := RevokeUser (UserTag (node_tag n) uuid) (limiters h ! la)]\<rparr>)"

definition delAuth :: "string \<Rightarrow> hy2Node \<Rightarrow> hy2Node" where
  "delAuth uuid n = n\<lparr>auth_users := AList.delete uuid (auth_users n)\<rparr>"

definition removeUser :: "UserInfo \<Rightarrow> hy2Node \<times> heap \<Rightarrow> hy2Node \<times> heap" where
  "removeUser u x =
     (case x of (n, h) \<Rightarrow>
        (let n = delAuth (user_Uuid u) n; h = revokeLimit (user_Uuid u) n h in (settleUser (user_Uuid u) n, h)))"

definition DelUsers :: "string \<Rightarrow> UserInfo list \<Rightarrow> Manager \<Rightarrow> (goerr + unit) \<times> Manager" where
  "DelUsers tag users m =
     (case map_of (nodes m) tag of
        None \<Rightarrow> fail (Err (''hysteria2 node '' @ tag @ '' not found'')) m
      | Some n \<Rightarrow>
          (case fold removeUser users (n, mheap m) of
             (n, h) \<Rightarrow> ok () (putNode tag n (m\<lparr>mheap := h\<rparr>))))"

text \<open>One entry of the counter map in a capture: reported, skipped, or dropped for lack of a user.\<close>

datatype captured = Skip | Drop | Report UserTraffic

definition captureOne ::
  "int \<Rightarrow> (string \<Rightarrow> int) \<Rightarrow> hy2Node \<Rightarrow> storages \<Rightarrow> string \<times> nat \<Rightarrow> captured" where
  "captureOne minTraffic uidForUUID n h entry =
     (case entry of (uuid, a) \<Rightarrow>
        (let up = UpCounter (h ! a); down = DownCounter (h ! a); sum = wrap64 (up + down);
             active = map_of (auth_users n) uuid \<noteq> None in
         if sum = 0 \<or> (active \<and> sum \<le> wrap64 (minTraffic * 1000)) then Skip
         else if uidForUUID uuid = 0 then Drop
         else Report \<lparr>ut_UID = uidForUUID uuid, ut_Upload = up, ut_Download = down, ut_UUID = uuid\<rparr>))"

definition reportsOf :: "captured list \<Rightarrow> UserTraffic list" where
  "reportsOf cs = List.map_filter (\<lambda>c. case c of Report r \<Rightarrow> Some r | _ \<Rightarrow> None) cs"

definition captureNode ::
  "int \<Rightarrow> (string \<Rightarrow> int) \<Rightarrow> hy2Node \<Rightarrow> storages \<Rightarrow> UserTraffic list \<times> hy2Node" where
  "captureNode minTraffic uidForUUID n h =
     (reportsOf (map (captureOne minTraffic uidForUUID n h) (node_counter n)),
      n\<lparr>node_counter := filter (\<lambda>e. captureOne minTraffic uidForUUID n h e \<noteq> Drop) (node_counter n)\<rparr>)"

definition GetUserTrafficSlice ::
  "string \<Rightarrow> int \<Rightarrow> (string \<Rightarrow> int) \<Rightarrow> Manager \<Rightarrow> UserTraffic list \<times> Manager" where
  "GetUserTrafficSlice tag minTraffic uidForUUID m =
     (case map_of (nodes m) tag of
        None \<Rightarrow> ([], m)
      | Some n \<Rightarrow>
          (case captureNode minTraffic uidForUUID n (storageHeap (mheap m)) of
             (rows, n) \<Rightarrow> (rows, putNode tag n m)))"

definition commitRow :: "(string, nat) gomap \<Rightarrow> UserTraffic \<Rightarrow> storages \<Rightarrow> storages" where
  "commitRow c r h =
     (if ut_UUID r = [] then h else snd (Subtract (ut_UUID r) (ut_Upload r) (ut_Download r) (c, h)))"

definition CommitUserTraffic :: "string \<Rightarrow> UserTraffic list \<Rightarrow> Manager \<Rightarrow> Manager" where
  "CommitUserTraffic tag reported m =
     (case map_of (nodes m) tag of
        None \<Rightarrow> m
      | Some n \<Rightarrow>
          m\<lparr>mheap := (mheap m)\<lparr>storageHeap := fold (commitRow (node_counter n)) reported (storageHeap (mheap m))\<rparr>\<rparr>)"

definition retiredZero :: "hy2Node \<Rightarrow> storages \<Rightarrow> string \<Rightarrow> bool" where
  "retiredZero n h uuid \<longleftrightarrow>
     map_of (auth_users n) uuid = None \<and> GetUpCount uuid (node_counter n, h) = 0 \<and>
     GetDownCount uuid (node_counter n, h) = 0"

fun pruneUsers :: "string list \<Rightarrow> storages \<Rightarrow> hy2Node \<Rightarrow> string list \<times> hy2Node" where
  "pruneUsers [] h n = ([], n)"
| "pruneUsers (uuid # uuids) h n =
     (if retiredZero n h uuid
      then (case pruneUsers uuids h (n\<lparr>node_counter := AList.delete uuid (node_counter n)\<rparr>) of
              (removed, n) \<Rightarrow> (uuid # removed, n))
      else pruneUsers uuids h n)"

definition PruneRetiredUsers :: "string \<Rightarrow> string list \<Rightarrow> Manager \<Rightarrow> string list \<times> Manager" where
  "PruneRetiredUsers tag uuids m =
     (case map_of (nodes m) tag of
        None \<Rightarrow> ([], m)
      | Some n \<Rightarrow> (case pruneUsers uuids (storageHeap (mheap m)) n of (removed, n) \<Rightarrow> (removed, putNode tag n m)))"

definition QuiesceNode :: "string \<Rightarrow> goerr option \<Rightarrow> Manager \<Rightarrow> (goerr + unit) \<times> Manager" where
  "QuiesceNode tag stopErr m =
     (case map_of (nodes m) tag of
        None \<Rightarrow> ok () m
      | Some n \<Rightarrow>
          bindE (DelUsers tag (map (\<lambda>(uuid, uid). \<lparr>user_Id = uid, user_Uuid = uuid, user_SpeedLimit = 0,
                                   user_DeviceLimit = 0\<rparr>) (auth_users n)) m)
            (\<lambda>_ m. ((case stopErr of None \<Rightarrow> Inr () | Some e \<Rightarrow> Inl e),
                     (case map_of (nodes m) tag of None \<Rightarrow> m | Some n \<Rightarrow> putNode tag (n\<lparr>node_stopped := True\<rparr>) m))))"

section \<open>The core\<close>

definition uidOf :: "string \<Rightarrow> V2Core \<Rightarrow> string \<Rightarrow> int" where
  "uidOf tag vc uuid = (case map_of (uidMap vc) (UserTag tag uuid) of Some i \<Rightarrow> i | None \<Rightarrow> 0)"

definition pruneRetiredTraffic :: "string \<Rightarrow> string list \<Rightarrow> V2Core \<Rightarrow> V2Core" where
  "pruneRetiredTraffic tag uuids vc =
     (case PruneRetiredUsers tag uuids (hy2 vc) of (removed, m) \<Rightarrow>
        vc\<lparr>hy2 := m, uidMap := fold (\<lambda>uuid. AList.delete (UserTag tag uuid)) removed (uidMap vc)\<rparr>)"

definition coreDelUsers :: "UserInfo list \<Rightarrow> string \<Rightarrow> V2Core \<Rightarrow> (goerr + unit) \<times> V2Core" where
  "coreDelUsers users tag vc =
     (case (if HasNode tag (hy2 vc) then DelUsers tag users (hy2 vc) else ok () (hy2 vc)) of
        (Inl e, m) \<Rightarrow> (Inl e, vc\<lparr>hy2 := m\<rparr>)
      | (Inr _, m) \<Rightarrow> (Inr (), pruneRetiredTraffic tag (map user_Uuid users) (vc\<lparr>hy2 := m\<rparr>)))"

definition coreTrafficSlice :: "string \<Rightarrow> int \<Rightarrow> V2Core \<Rightarrow> UserTraffic list \<times> V2Core" where
  "coreTrafficSlice tag mintraffic vc =
     (if \<not> HasNode tag (hy2 vc) then ([], vc)
      else (case GetUserTrafficSlice tag mintraffic (uidOf tag vc) (hy2 vc) of
              (rows, m) \<Rightarrow> (rows, vc\<lparr>hy2 := m\<rparr>)))"

definition CommitUserTrafficSlice :: "string \<Rightarrow> UserTraffic list \<Rightarrow> V2Core \<Rightarrow> V2Core" where
  "CommitUserTrafficSlice tag reported vc =
     (if reported = [] \<or> \<not> HasNode tag (hy2 vc) then vc
      else pruneRetiredTraffic tag (map ut_UUID reported) (vc\<lparr>hy2 := CommitUserTraffic tag reported (hy2 vc)\<rparr>))"

definition coreAddUsers ::
  "string option \<Rightarrow> string \<Rightarrow> UserInfo list \<Rightarrow> V2Core \<Rightarrow> (goerr + nat) \<times> V2Core" where
  "coreAddUsers nodeType tag users vc =
     (case nodeType of
        None \<Rightarrow> fail (Err ''empty add users params'') vc
      | Some ty \<Rightarrow>
          (if ty \<noteq> ''hysteria2'' then fail (Err (''HY2-only backend does not support node type: '' @ ty)) vc
           else (let vc = vc\<lparr>uidMap := fold (\<lambda>u. AList.update (UserTag tag (user_Uuid u)) (user_Id u)) users (uidMap vc)\<rparr> in
                 (case AddUsers tag users (hy2 vc) of (r, m) \<Rightarrow> (r, vc\<lparr>hy2 := m\<rparr>)))))"

definition coreAddNode :: "string \<Rightarrow> string option \<Rightarrow> goerr option \<Rightarrow> V2Core \<Rightarrow> (goerr + unit) \<times> V2Core" where
  "coreAddNode tag nodeType serverErr vc =
     (case nodeType of
        None \<Rightarrow> fail (Err (''node '' @ tag @ '' has empty config'')) vc
      | Some ty \<Rightarrow>
          (if ty \<noteq> ''hysteria2'' then fail (Err (''HY2-only backend does not support node type: '' @ ty)) vc
           else (case AddNode tag serverErr (hy2 vc) of (r, m) \<Rightarrow> (r, vc\<lparr>hy2 := m\<rparr>))))"

definition coreDelNode :: "string \<Rightarrow> goerr option \<Rightarrow> V2Core \<Rightarrow> (goerr + unit) \<times> V2Core" where
  "coreDelNode tag stopErr vc =
     (if HasNode tag (hy2 vc) then (case DelNode tag stopErr (hy2 vc) of (r, m) \<Rightarrow> (r, vc\<lparr>hy2 := m\<rparr>))
      else ok () vc)"

definition coreQuiesceNode :: "string \<Rightarrow> goerr option \<Rightarrow> V2Core \<Rightarrow> (goerr + unit) \<times> V2Core" where
  "coreQuiesceNode tag stopErr vc = (case QuiesceNode tag stopErr (hy2 vc) of (r, m) \<Rightarrow> (r, vc\<lparr>hy2 := m\<rparr>))"

end
