(* ===== verification/Hy2_Concurrent.thy ===== *)
theory Hy2_Concurrent
  imports Hy2_Runtime
begin

text \<open>
  Traffic accounting under concurrency. Traffic callbacks run on the goroutines of client
  connections while the controller deletes, adds, captures, settles and prunes. Each transition
  below is a part of a method that the code executes without releasing the lock that protects
  it, and the methods of Hy2\_Runtime are compositions of these parts:

  \<^item> \<open>LogTraffic\<close> looks a user up (\<open>hit\<close> without a lock, or \<open>found\<close>, \<open>enter\<close>, \<open>store\<close> while holding
    \<open>cacheMu\<close>), checks the permission under the read lock of the cached user (\<open>pass\<close>, \<open>refuse\<close>)
    and counts before it releases that lock (\<open>count\<close>);
  \<^item> \<open>DelUsers\<close> drops the credential and revokes the permission (\<open>revoke\<close>), then waits for the
    callbacks that passed their check (\<open>settle\<close>);
  \<^item> the limiter drops or grants permissions (\<open>forget\<close>, \<open>grant\<close>, \<open>tune\<close>), \<open>AddUsers\<close> admits a user
    (\<open>admit\<close>), and reporting captures, settles and prunes (\<open>capture\<close>, \<open>commit\<close>, \<open>prune\<close>).
\<close>

section \<open>States and transitions\<close>

datatype call =
    Looked nat u64 u64
  | Counting nat u64 u64

record conc =
  c_node :: hy2Node
  c_heap :: heap
  c_la :: nat
  c_uids :: "string \<Rightarrow> int"
  c_holder :: "(string \<times> (nat \<times> nat) \<times> u64 \<times> u64) option"
  c_calls :: "call list"
  c_conns :: "string set"
  c_settling :: "string option"
  c_total :: "string \<Rightarrow> usage"
  c_paid :: "string \<Rightarrow> usage"

abbreviation lm :: "conc \<Rightarrow> Limiter" where
  "lm s \<equiv> limiters (c_heap s) ! c_la s"

abbreviation entry :: "conc \<Rightarrow> string \<Rightarrow> nat option" where
  "entry s uuid \<equiv> map_of (UserLimits (lm s)) (UserTag (node_tag (c_node s)) uuid)"

abbreviation cachedPtr :: "conc \<Rightarrow> string \<Rightarrow> nat option" where
  "cachedPtr s uuid \<equiv> map_of (cache_users (c_node s)) uuid"

abbreviation ptr :: "conc \<Rightarrow> nat \<Rightarrow> trafficUserCache" where
  "ptr s p \<equiv> cacheHeap (c_heap s) ! p"

abbreviation active :: "conc \<Rightarrow> string \<Rightarrow> bool" where
  "active s uuid \<equiv> map_of (auth_users (c_node s)) uuid \<noteq> None"

abbreviation ctr :: "conc \<Rightarrow> TrafficCounter" where
  "ctr s \<equiv> (node_counter (c_node s), storageHeap (c_heap s))"

abbreviation setLim :: "Limiter \<Rightarrow> conc \<Rightarrow> conc" where
  "setLim l s \<equiv> s\<lparr>c_heap := (c_heap s)\<lparr>limiters := (limiters (c_heap s))[c_la s := l]\<rparr>\<rparr>"

definition amount :: "u64 \<Rightarrow> u64 \<Rightarrow> usage" where
  "amount tx rx = Usage (uint tx) (uint rx)"

text \<open>Changes of the limiter that leave every permission as it is.\<close>

definition same_permissions :: "Limiter \<Rightarrow> Limiter \<Rightarrow> bool" where
  "same_permissions l l' \<longleftrightarrow>
     UserLimits l' = UserLimits l \<and> length (infos l') = length (infos l) \<and>
     (\<forall>a < length (infos l). lim_Revoked (info_at l' a) = lim_Revoked (info_at l a))"

definition row_ok :: "UserTraffic \<Rightarrow> bool" where
  "row_ok r \<longleftrightarrow> fits (Usage (ut_Upload r) (ut_Download r))"

inductive cstep :: "conc \<Rightarrow> conc \<Rightarrow> bool" where
  connect: "active s uuid \<Longrightarrow> cstep s (s\<lparr>c_conns := insert uuid (c_conns s)\<rparr>)"
| hit: "uuid \<in> c_conns s \<Longrightarrow> cachedPtr s uuid = Some p \<Longrightarrow> \<not> lim_Revoked (limitOf (ptr s p) (c_heap s)) \<Longrightarrow>
    cstep s (s\<lparr>c_calls := Looked p tx rx # c_calls s\<rparr>)"
| found: "uuid \<in> c_conns s \<Longrightarrow> c_holder s = None \<Longrightarrow> cachedPtr s uuid = Some p \<Longrightarrow>
    cstep s (s\<lparr>c_calls := Looked p tx rx # c_calls s\<rparr>)"
| enter: "uuid \<in> c_conns s \<Longrightarrow> c_holder s = None \<Longrightarrow> cachedPtr s uuid = None \<Longrightarrow>
    lookupLimit uuid (c_node s) (c_heap s) = Some lim \<Longrightarrow>
    cstep s (s\<lparr>c_holder := Some (uuid, lim, tx, rx)\<rparr>)"
| store: "c_holder s = Some (uuid, lim, tx, rx) \<Longrightarrow> storeCache uuid lim (c_node s) (c_heap s) = (p, n, h) \<Longrightarrow>
    cstep s (s\<lparr>c_node := n, c_heap := h, c_holder := None, c_calls := Looked p tx rx # c_calls s\<rparr>)"
| pass: "c_calls s = xs @ Looked p tx rx # ys \<Longrightarrow> mayCount p (c_heap s) = (True, h) \<Longrightarrow>
    cstep s (s\<lparr>c_heap := h, c_calls := xs @ Counting p tx rx # ys\<rparr>)"
| refuse: "c_calls s = xs @ Looked p tx rx # ys \<Longrightarrow> mayCount p (c_heap s) = (False, h) \<Longrightarrow>
    cstep s (s\<lparr>c_heap := h, c_calls := xs @ ys\<rparr>)"
| count: "c_calls s = xs @ Counting p tx rx # ys \<Longrightarrow> fits (counted (ctr s) (tc_id (ptr s p)) + amount tx rx) \<Longrightarrow>
    cstep s (s\<lparr>c_heap := countTraffic p tx rx (c_heap s),
      c_total := (c_total s)(tc_id (ptr s p) := c_total s (tc_id (ptr s p)) + amount tx rx), c_calls := xs @ ys\<rparr>)"
| revoke: "c_settling s = None \<Longrightarrow> n = delAuth uuid (c_node s) \<Longrightarrow>
    cstep s (s\<lparr>c_node := n, c_heap := revokeLimit uuid n (c_heap s), c_settling := Some uuid\<rparr>)"
| settle: "c_settling s = Some uuid \<Longrightarrow> c_holder s = None \<Longrightarrow>
    (\<forall>p tx rx. cachedPtr s uuid = Some p \<longrightarrow> Counting p tx rx \<notin> set (c_calls s)) \<Longrightarrow>
    cstep s (s\<lparr>c_node := settleUser uuid (c_node s), c_settling := None\<rparr>)"
| forget: "c_settling s = None \<Longrightarrow> \<not> active s (user_Uuid u) \<Longrightarrow>
    cstep s (setLim (deleteUser (node_tag (c_node s)) u (lm s)) s)"
| grant: "active s (user_Uuid u) \<Longrightarrow> entry s (user_Uuid u) = None \<Longrightarrow>
    cstep s (setLim (storeUser (node_tag (c_node s)) u (lm s)) s)"
| tune: "same_permissions (lm s) l \<Longrightarrow> cstep s (setLim l s)"
| admit: "c_settling s = None \<Longrightarrow> user_Id u \<noteq> 0 \<Longrightarrow> \<not> active s (user_Uuid u) \<Longrightarrow>
    cstep s (s\<lparr>c_node := addAuth u (c_node s), c_uids := (c_uids s)(user_Uuid u := user_Id u)\<rparr>)"
| capture: "c_settling s = None \<Longrightarrow>
    captureNode minTraffic (c_uids s) (c_node s) (storageHeap (c_heap s)) = (rows, n) \<Longrightarrow>
    cstep s (s\<lparr>c_node := n\<rparr>)"
| commit: "c_settling s = None \<Longrightarrow> row_ok r \<Longrightarrow>
    h = (c_heap s)\<lparr>storageHeap := commitRow (node_counter (c_node s)) r (storageHeap (c_heap s))\<rparr> \<Longrightarrow>
    cstep s (s\<lparr>c_heap := h, c_paid := (c_paid s)(ut_UUID r := c_paid s (ut_UUID r) +
      (counted (ctr s) (ut_UUID r) - counted (node_counter (c_node s), storageHeap h) (ut_UUID r)))\<rparr>)"
| prune: "c_settling s = None \<Longrightarrow> retiredZero (c_node s) (storageHeap (c_heap s)) uuid \<Longrightarrow>
    cstep s (s\<lparr>c_node := (c_node s)\<lparr>node_counter := AList.delete uuid (node_counter (c_node s))\<rparr>,
      c_uids := (c_uids s)(uuid := 0)\<rparr>)"

text \<open>The state after \<open>AddLimiter\<close> and \<open>AddNode\<close>, before any user is admitted.\<close>

definition cstart :: "string \<Rightarrow> UserInfo list \<Rightarrow> (int, int) gomap \<Rightarrow> conc" where
  "cstart tag users alive =
     \<lparr>c_node = \<lparr>node_tag = tag, node_limiter = Some 0, auth_users = [], cache_users = [], node_counter = [],
        limitCache = [], lastLimitCacheSweep = 0, node_stopped = False\<rparr>,
      c_heap = \<lparr>limiters = [AddLimiter ''hysteria2'' tag users alive], limiterMap = [(tag, 0)], storageHeap = [],
        cacheHeap = []\<rparr>,
      c_la = 0, c_uids = (\<lambda>_. 0), c_holder = None, c_calls = [], c_conns = {}, c_settling = None,
      c_total = (\<lambda>_. 0), c_paid = (\<lambda>_. 0)\<rparr>"

inductive creach :: "string \<Rightarrow> UserInfo list \<Rightarrow> (int, int) gomap \<Rightarrow> conc \<Rightarrow> bool"
  for tag users alive where
  start: "creach tag users alive (cstart tag users alive)"
| step: "creach tag users alive s \<Longrightarrow> cstep s s' \<Longrightarrow> creach tag users alive s'"

section \<open>The invariant\<close>

abbreviation unrevoked :: "conc \<Rightarrow> nat \<Rightarrow> bool" where
  "unrevoked s p \<equiv> \<not> lim_Revoked (info_at (lm s) (tc_limit (ptr s p)))"

definition counting :: "conc \<Rightarrow> nat \<Rightarrow> bool" where
  "counting s p \<longleftrightarrow> (\<exists>tx rx. Counting p tx rx \<in> set (c_calls s))"

text \<open>
  The invariant, in parts: the permissions of the limiter are reached by at most one tag; cached
  users point to permissions and storages that exist; a cached user that may still count is the
  one in the cache; and whoever is cached is active or is being deleted.
\<close>

definition perms_ok :: "Limiter \<Rightarrow> bool" where
  "perms_ok l \<longleftrightarrow>
     (\<forall>t a. map_of (UserLimits l) t = Some a \<longrightarrow> a < length (infos l)) \<and>
     inj_on (map_of (UserLimits l)) (dom (map_of (UserLimits l)))"

definition limiter_live :: "conc \<Rightarrow> bool" where
  "limiter_live s \<longleftrightarrow>
     node_limiter (c_node s) = Some (c_la s) \<and> c_la s < length (limiters (c_heap s)) \<and> perms_ok (lm s)"

definition ptrs_ok :: "conc \<Rightarrow> bool" where
  "ptrs_ok s \<longleftrightarrow>
     (\<forall>p < length (cacheHeap (c_heap s)).
        tc_limiter (ptr s p) = c_la s \<and> tc_limit (ptr s p) < length (infos (lm s)) \<and> tc_id (ptr s p) \<in> c_conns s)"

definition calls_ok :: "conc \<Rightarrow> bool" where
  "calls_ok s \<longleftrightarrow>
     (\<forall>p tx rx. Looked p tx rx \<in> set (c_calls s) \<or> Counting p tx rx \<in> set (c_calls s) \<longrightarrow>
        p < length (cacheHeap (c_heap s)))"

definition cached_ok :: "conc \<Rightarrow> bool" where
  "cached_ok s \<longleftrightarrow>
     (\<forall>uuid p. cachedPtr s uuid = Some p \<longrightarrow>
        p < length (cacheHeap (c_heap s)) \<and> tc_id (ptr s p) = uuid \<and>
        map_of (node_counter (c_node s)) uuid = Some (tc_storage (ptr s p)) \<and>
        (active s uuid \<or> c_settling s = Some uuid))"

definition granted_ok :: "conc \<Rightarrow> bool" where
  "granted_ok s \<longleftrightarrow>
     (\<forall>p < length (cacheHeap (c_heap s)). unrevoked s p \<longrightarrow> entry s (tc_id (ptr s p)) = Some (tc_limit (ptr s p)))"

definition current_ok :: "conc \<Rightarrow> bool" where
  "current_ok s \<longleftrightarrow>
     (\<forall>p < length (cacheHeap (c_heap s)). counting s p \<or> unrevoked s p \<longrightarrow> cachedPtr s (tc_id (ptr s p)) = Some p)"

definition conns_ok :: "conc \<Rightarrow> bool" where
  "conns_ok s \<longleftrightarrow>
     (\<forall>uuid a. uuid \<in> c_conns s \<and> entry s uuid = Some a \<and> \<not> lim_Revoked (info_at (lm s) a) \<longrightarrow> active s uuid)"

definition holder_ok :: "conc \<Rightarrow> bool" where
  "holder_ok s \<longleftrightarrow>
     (\<forall>uuid la a tx rx. c_holder s = Some (uuid, (la, a), tx, rx) \<longrightarrow>
        la = c_la s \<and> a < length (infos (lm s)) \<and> uuid \<in> c_conns s \<and> cachedPtr s uuid = None \<and>
        (lim_Revoked (info_at (lm s) a) \<or> entry s uuid = Some a) \<and>
        (active s uuid \<or> c_settling s = Some uuid) \<and> c_uids s uuid \<noteq> 0)"

definition uids_ok :: "conc \<Rightarrow> bool" where
  "uids_ok s \<longleftrightarrow>
     (\<forall>uuid. map_of (node_counter (c_node s)) uuid \<noteq> None \<or> active s uuid \<longrightarrow> c_uids s uuid \<noteq> 0)"

definition settling_ok :: "conc \<Rightarrow> bool" where
  "settling_ok s \<longleftrightarrow> (\<forall>uuid. c_settling s = Some uuid \<longrightarrow> \<not> active s uuid)"

definition conserved :: "conc \<Rightarrow> bool" where
  "conserved s \<longleftrightarrow> (\<forall>uuid. counted (ctr s) uuid + c_paid s uuid = c_total s uuid)"

definition cinv :: "conc \<Rightarrow> bool" where
  "cinv s \<longleftrightarrow> limiter_live s \<and> ptrs_ok s \<and> calls_ok s \<and> cached_ok s \<and> granted_ok s \<and> current_ok s \<and>
     conns_ok s \<and> holder_ok s \<and> uids_ok s \<and> settling_ok s \<and> counter_ok (ctr s) \<and> conserved s"

lemma cinvD:
  assumes "cinv s"
  shows "limiter_live s" "ptrs_ok s" "calls_ok s" "cached_ok s" "granted_ok s" "current_ok s"
    "conns_ok s" "holder_ok s" "uids_ok s" "settling_ok s" "counter_ok (ctr s)" "conserved s"
  using assms by (simp_all add: cinv_def)

lemma cinvI:
  "limiter_live s \<Longrightarrow> ptrs_ok s \<Longrightarrow> calls_ok s \<Longrightarrow> cached_ok s \<Longrightarrow> granted_ok s \<Longrightarrow> current_ok s \<Longrightarrow>
   conns_ok s \<Longrightarrow> holder_ok s \<Longrightarrow> uids_ok s \<Longrightarrow> settling_ok s \<Longrightarrow> counter_ok (ctr s) \<Longrightarrow> conserved s \<Longrightarrow> cinv s"
  by (simp add: cinv_def)

lemma perms_store:
  assumes "perms_ok l"
  shows "perms_ok (storeUser tag u l)"
proof -
  have b: "\<forall>t a. map_of (UserLimits l) t = Some a \<longrightarrow> a < length (infos l)" using assms by (simp add: perms_ok_def)
  then have f: "Some (length (infos l)) \<noteq> map_of (UserLimits l) t" for t by (metis less_irrefl)
  show ?thesis
    using assms b f by (auto simp: perms_ok_def inj_on_def less_SucI)
qed

lemma perms_subset:
  assumes "perms_ok l" "length (infos l') = length (infos l)" "map_of (UserLimits l') \<subseteq>\<^sub>m map_of (UserLimits l)"
  shows "perms_ok l'"
proof -
  have sub: "map_of (UserLimits l) t = Some a" if "map_of (UserLimits l') t = Some a" for t a
    using assms(3) that by (auto simp: map_le_def dom_def)
  then have "dom (map_of (UserLimits l')) \<subseteq> dom (map_of (UserLimits l))"
    "\<forall>t\<in>dom (map_of (UserLimits l')). map_of (UserLimits l') t = map_of (UserLimits l) t" by (auto simp: dom_def)
  then have "inj_on (map_of (UserLimits l')) (dom (map_of (UserLimits l')))"
    using assms(1) inj_on_subset by (fastforce simp: perms_ok_def cong: inj_on_cong)
  with sub assms(1,2) show ?thesis by (auto simp: perms_ok_def)
qed

lemma perms_inj:
  "perms_ok l \<Longrightarrow> map_of (UserLimits l) t = Some a \<Longrightarrow> map_of (UserLimits l) t' = Some a \<Longrightarrow> t' = t"
  unfolding perms_ok_def inj_on_def by (metis domI)

lemma perms_start: "perms_ok (AddLimiter ty tag users alive)"
  unfolding AddLimiter_def by (rule fold_preserves [where P = perms_ok]) (auto simp: perms_store, simp add: perms_ok_def)

lemma cinv_start: "cinv (cstart tag users alive)"
  by (rule cinvI)
    (simp_all add: limiter_live_def ptrs_ok_def calls_ok_def cached_ok_def granted_ok_def current_ok_def conns_ok_def
      holder_ok_def uids_ok_def settling_ok_def conserved_def cstart_def perms_start counter_ok_def counted_None)

section \<open>Every transition preserves the invariant\<close>

text \<open>Each part depends on some fields only.\<close>

lemma limiter_live_frame [simp]:
  "limiter_live (s\<lparr>c_uids := u\<rparr>) = limiter_live s" "limiter_live (s\<lparr>c_holder := w\<rparr>) = limiter_live s"
  "limiter_live (s\<lparr>c_calls := c\<rparr>) = limiter_live s" "limiter_live (s\<lparr>c_conns := d\<rparr>) = limiter_live s"
  "limiter_live (s\<lparr>c_settling := e\<rparr>) = limiter_live s" "limiter_live (s\<lparr>c_total := t\<rparr>) = limiter_live s"
  "limiter_live (s\<lparr>c_paid := p\<rparr>) = limiter_live s"
  by (simp_all add: limiter_live_def)

lemma ptrs_ok_frame [simp]:
  "ptrs_ok (s\<lparr>c_node := n\<rparr>) = ptrs_ok s" "ptrs_ok (s\<lparr>c_uids := u\<rparr>) = ptrs_ok s"
  "ptrs_ok (s\<lparr>c_holder := w\<rparr>) = ptrs_ok s" "ptrs_ok (s\<lparr>c_calls := c\<rparr>) = ptrs_ok s"
  "ptrs_ok (s\<lparr>c_settling := e\<rparr>) = ptrs_ok s" "ptrs_ok (s\<lparr>c_total := t\<rparr>) = ptrs_ok s"
  "ptrs_ok (s\<lparr>c_paid := p\<rparr>) = ptrs_ok s"
  by (simp_all add: ptrs_ok_def)

lemma calls_ok_frame [simp]:
  "calls_ok (s\<lparr>c_node := n\<rparr>) = calls_ok s" "calls_ok (s\<lparr>c_la := l\<rparr>) = calls_ok s"
  "calls_ok (s\<lparr>c_uids := u\<rparr>) = calls_ok s" "calls_ok (s\<lparr>c_holder := w\<rparr>) = calls_ok s"
  "calls_ok (s\<lparr>c_conns := d\<rparr>) = calls_ok s" "calls_ok (s\<lparr>c_settling := e\<rparr>) = calls_ok s"
  "calls_ok (s\<lparr>c_total := t\<rparr>) = calls_ok s" "calls_ok (s\<lparr>c_paid := p\<rparr>) = calls_ok s"
  by (simp_all add: calls_ok_def)

lemma cached_ok_frame [simp]:
  "cached_ok (s\<lparr>c_la := l\<rparr>) = cached_ok s" "cached_ok (s\<lparr>c_uids := u\<rparr>) = cached_ok s"
  "cached_ok (s\<lparr>c_holder := w\<rparr>) = cached_ok s" "cached_ok (s\<lparr>c_calls := c\<rparr>) = cached_ok s"
  "cached_ok (s\<lparr>c_conns := d\<rparr>) = cached_ok s" "cached_ok (s\<lparr>c_total := t\<rparr>) = cached_ok s"
  "cached_ok (s\<lparr>c_paid := p\<rparr>) = cached_ok s"
  by (simp_all add: cached_ok_def)

lemma granted_ok_frame [simp]:
  "granted_ok (s\<lparr>c_uids := u\<rparr>) = granted_ok s" "granted_ok (s\<lparr>c_holder := w\<rparr>) = granted_ok s"
  "granted_ok (s\<lparr>c_calls := c\<rparr>) = granted_ok s" "granted_ok (s\<lparr>c_conns := d\<rparr>) = granted_ok s"
  "granted_ok (s\<lparr>c_settling := e\<rparr>) = granted_ok s" "granted_ok (s\<lparr>c_total := t\<rparr>) = granted_ok s"
  "granted_ok (s\<lparr>c_paid := p\<rparr>) = granted_ok s"
  by (simp_all add: granted_ok_def)

lemma current_ok_frame [simp]:
  "current_ok (s\<lparr>c_uids := u\<rparr>) = current_ok s" "current_ok (s\<lparr>c_holder := w\<rparr>) = current_ok s"
  "current_ok (s\<lparr>c_conns := d\<rparr>) = current_ok s" "current_ok (s\<lparr>c_settling := e\<rparr>) = current_ok s"
  "current_ok (s\<lparr>c_total := t\<rparr>) = current_ok s" "current_ok (s\<lparr>c_paid := p\<rparr>) = current_ok s"
  by (simp_all add: current_ok_def counting_def)

lemma conns_ok_frame [simp]:
  "conns_ok (s\<lparr>c_uids := u\<rparr>) = conns_ok s" "conns_ok (s\<lparr>c_holder := w\<rparr>) = conns_ok s"
  "conns_ok (s\<lparr>c_calls := c\<rparr>) = conns_ok s" "conns_ok (s\<lparr>c_settling := e\<rparr>) = conns_ok s"
  "conns_ok (s\<lparr>c_total := t\<rparr>) = conns_ok s" "conns_ok (s\<lparr>c_paid := p\<rparr>) = conns_ok s"
  by (simp_all add: conns_ok_def)

lemma holder_ok_frame [simp]:
  "holder_ok (s\<lparr>c_calls := c\<rparr>) = holder_ok s" "holder_ok (s\<lparr>c_total := t\<rparr>) = holder_ok s"
  "holder_ok (s\<lparr>c_paid := p\<rparr>) = holder_ok s"
  by (simp_all add: holder_ok_def)

lemma uids_ok_frame [simp]:
  "uids_ok (s\<lparr>c_heap := h\<rparr>) = uids_ok s" "uids_ok (s\<lparr>c_la := l\<rparr>) = uids_ok s"
  "uids_ok (s\<lparr>c_holder := w\<rparr>) = uids_ok s" "uids_ok (s\<lparr>c_calls := c\<rparr>) = uids_ok s"
  "uids_ok (s\<lparr>c_conns := d\<rparr>) = uids_ok s" "uids_ok (s\<lparr>c_settling := e\<rparr>) = uids_ok s"
  "uids_ok (s\<lparr>c_total := t\<rparr>) = uids_ok s" "uids_ok (s\<lparr>c_paid := p\<rparr>) = uids_ok s"
  by (simp_all add: uids_ok_def)

lemma settling_ok_frame [simp]:
  "settling_ok (s\<lparr>c_heap := h\<rparr>) = settling_ok s" "settling_ok (s\<lparr>c_la := l\<rparr>) = settling_ok s"
  "settling_ok (s\<lparr>c_uids := u\<rparr>) = settling_ok s" "settling_ok (s\<lparr>c_holder := w\<rparr>) = settling_ok s"
  "settling_ok (s\<lparr>c_calls := c\<rparr>) = settling_ok s" "settling_ok (s\<lparr>c_conns := d\<rparr>) = settling_ok s"
  "settling_ok (s\<lparr>c_total := t\<rparr>) = settling_ok s" "settling_ok (s\<lparr>c_paid := p\<rparr>) = settling_ok s"
  by (simp_all add: settling_ok_def)

lemma conserved_frame [simp]:
  "conserved (s\<lparr>c_la := l\<rparr>) = conserved s" "conserved (s\<lparr>c_uids := u\<rparr>) = conserved s"
  "conserved (s\<lparr>c_holder := w\<rparr>) = conserved s" "conserved (s\<lparr>c_calls := c\<rparr>) = conserved s"
  "conserved (s\<lparr>c_conns := d\<rparr>) = conserved s" "conserved (s\<lparr>c_settling := e\<rparr>) = conserved s"
  by (simp_all add: conserved_def)

lemma cached_okD:
  assumes "cached_ok s" "cachedPtr s uuid = Some p"
  shows "p < length (cacheHeap (c_heap s))" "tc_id (ptr s p) = uuid"
    "map_of (node_counter (c_node s)) uuid = Some (tc_storage (ptr s p))" "active s uuid \<or> c_settling s = Some uuid"
  using assms by (auto simp: cached_ok_def)

lemma step_connect:
  assumes "cinv s" "active s uuid"
  shows "cinv (s\<lparr>c_conns := insert uuid (c_conns s)\<rparr>)"
proof (rule cinvI)
  note i = cinvD [OF assms(1)]
  let ?s = "s\<lparr>c_conns := insert uuid (c_conns s)\<rparr>"
  show "ptrs_ok ?s" using i(2) by (simp add: ptrs_ok_def)
  show "conns_ok ?s" using i(7) assms(2) by (auto simp: conns_ok_def)
  show "holder_ok ?s" using i(8) by (auto simp: holder_ok_def)
qed (use cinvD [OF assms(1)] in simp_all)

lemma step_look:
  assumes "cinv s" "cachedPtr s uuid = Some p"
  shows "cinv (s\<lparr>c_calls := Looked p tx rx # c_calls s\<rparr>)"
proof -
  have "p < length (cacheHeap (c_heap s))" using cinvD(4) [OF assms(1)] assms(2) by (simp add: cached_ok_def)
  then have "calls_ok (s\<lparr>c_calls := Looked p tx rx # c_calls s\<rparr>)" using cinvD(3) [OF assms(1)] by (simp add: calls_ok_def)
  moreover have "current_ok (s\<lparr>c_calls := Looked p tx rx # c_calls s\<rparr>)"
    using cinvD(6) [OF assms(1)] by (simp add: current_ok_def counting_def)
  ultimately show ?thesis using cinvD [OF assms(1)] by (intro cinvI) simp_all
qed

lemma lookupLimit_Some:
  assumes "lookupLimit uuid (c_node s) (c_heap s) = Some (la, a)" "limiter_live s"
  shows "la = c_la s" "entry s uuid = Some a" "\<not> lim_Revoked (info_at (lm s) a)" "a < length (infos (lm s))"
  using assms by (auto simp: lookupLimit_def loggerLimiter_def limiter_live_def perms_ok_def split: option.splits if_splits)

lemma step_enter:
  assumes "cinv s" "uuid \<in> c_conns s" "cachedPtr s uuid = None"
    "lookupLimit uuid (c_node s) (c_heap s) = Some lim"
  shows "cinv (s\<lparr>c_holder := Some (uuid, lim, tx, rx)\<rparr>)"
proof -
  note i = cinvD [OF assms(1)]
  obtain la a where lim: "lim = (la, a)" by fastforce
  note e = lookupLimit_Some [OF assms(4) [unfolded lim] i(1)]
  have act: "active s uuid" using i(7) assms(2) e by (simp add: conns_ok_def)
  then have "c_uids s uuid \<noteq> 0" using i(9) by (simp add: uids_ok_def)
  with assms(2,3) e lim act have "holder_ok (s\<lparr>c_holder := Some (uuid, lim, tx, rx)\<rparr>)" by (simp add: holder_ok_def)
  then show ?thesis using i by (intro cinvI) simp_all
qed

lemma GetCounter_other:
  "GetCounter k (m, h) = (a, m', h') \<Longrightarrow> j \<noteq> k \<Longrightarrow> map_of m' j = map_of m j"
  by (auto simp: GetCounter_def split: option.splits)

lemma step_store:
  assumes "cinv s" "c_holder s = Some (uuid, lim, tx, rx)" "storeCache uuid lim (c_node s) (c_heap s) = (p, n, h)"
  shows "cinv (s\<lparr>c_node := n, c_heap := h, c_holder := None, c_calls := Looked p tx rx # c_calls s\<rparr>)"
    (is "cinv ?s")
proof -
  note i = cinvD [OF assms(1)]
  obtain la a where lim: "lim = (la, a)" by fastforce
  obtain st m sh where g: "GetCounter uuid (ctr s) = (st, m, sh)" "counter_ok (m, sh)" "map_of m uuid = Some st"
    "\<forall>j. counted (m, sh) j = counted (ctr s) j" by (rule GetCounter_spec [OF i(11), where k = uuid])
  let ?c = "\<lparr>tc_id = uuid, tc_storage = st, tc_limiter = c_la s, tc_limit = a\<rparr>"
  have ho: "la = c_la s" "a < length (infos (lm s))" "uuid \<in> c_conns s" "cachedPtr s uuid = None"
    "lim_Revoked (info_at (lm s) a) \<or> entry s uuid = Some a" "active s uuid \<or> c_settling s = Some uuid" "c_uids s uuid \<noteq> 0"
    using i(8) assms(2) lim by (auto simp: holder_ok_def)
  have st: "p = length (cacheHeap (c_heap s))"
    "n = (c_node s)\<lparr>node_counter := m, cache_users := AList.update uuid p (cache_users (c_node s))\<rparr>"
    "h = (c_heap s)\<lparr>storageHeap := sh, cacheHeap := cacheHeap (c_heap s) @ [?c]\<rparr>"
    using assms(3) g(1) lim ho(1) by (auto simp: storeCache_def)
  have other: "map_of m j = map_of (node_counter (c_node s)) j" if "j \<noteq> uuid" for j
    using GetCounter_other [OF g(1) that] .
  have cnt: "counting ?s q = counting s q" for q by (simp add: counting_def)
  have fresh: "\<not> counting s p" using i(3) st(1) by (auto simp: calls_ok_def counting_def)
  show ?thesis
  proof (rule cinvI)
    show "limiter_live ?s" using i(1) st by (simp add: limiter_live_def)
    show "ptrs_ok ?s" using i(2) ho st by (simp add: ptrs_ok_def nth_append less_Suc_eq)
    show "calls_ok ?s" using i(3) st by (auto simp: calls_ok_def less_SucI)
    show "cached_ok ?s" using i(4) ho st g(3) other by (auto simp: cached_ok_def nth_append less_SucI)
    show "granted_ok ?s" using i(5) ho(5) st by (auto simp: granted_ok_def nth_append less_Suc_eq)
    show "current_ok ?s" using i(6) ho(4) st fresh unfolding current_ok_def cnt by (fastforce simp: nth_append less_Suc_eq)
    show "conns_ok ?s" using i(7) st by (simp add: conns_ok_def)
    show "holder_ok ?s" by (simp add: holder_ok_def)
    show "uids_ok ?s" using i(9) ho(7) st other by (auto simp: uids_ok_def) metis
    show "settling_ok ?s" using i(10) st by (simp add: settling_ok_def)
    show "counter_ok (ctr ?s)" using g(2) st by simp
    show "conserved ?s" using i(12) g(4) st by (simp add: conserved_def)
  qed
qed

lemma mayCount_True: "mayCount p h = (True, h') \<Longrightarrow> h' = h \<and> \<not> lim_Revoked (limitOf (cacheHeap h ! p) h)"
  by (auto simp: mayCount_def Let_def split: if_splits)

lemma step_pass:
  assumes "cinv s" "c_calls s = xs @ Looked p tx rx # ys" "mayCount p (c_heap s) = (True, h)"
  shows "cinv (s\<lparr>c_heap := h, c_calls := xs @ Counting p tx rx # ys\<rparr>)" (is "cinv ?s")
proof -
  note i = cinvD [OF assms(1)]
  note m = mayCount_True [OF assms(3)]
  have p: "p < length (cacheHeap (c_heap s))" using i(3) assms(2) by (auto simp: calls_ok_def)
  have u: "unrevoked s p" using m i(2) p by (simp add: limitOf_def ptrs_ok_def)
  have c: "counting ?s q \<longleftrightarrow> q = p \<or> counting s q" for q using assms(2) by (auto simp: counting_def)
  have "current_ok ?s" using i(6) u m unfolding current_ok_def c by auto
  moreover have "calls_ok ?s" using i(3) assms(2) m by (auto simp: calls_ok_def)
  moreover have "?s = s\<lparr>c_calls := xs @ Counting p tx rx # ys\<rparr>" using m by simp
  ultimately show ?thesis using i by (intro cinvI) simp_all
qed

text \<open>
  A change of the limiter that takes permissions away only by revoking them, and that gives
  permissions only to active users.
\<close>

lemma step_limiter:
  assumes "cinv s" "perms_ok l" "length (infos (lm s)) \<le> length (infos l)"
    and mono: "\<And>a. a < length (infos (lm s)) \<Longrightarrow> lim_Revoked (info_at (lm s) a) \<Longrightarrow> lim_Revoked (info_at l a)"
    and drop: "\<And>uuid a. entry s uuid = Some a \<Longrightarrow>
      map_of (UserLimits l) (UserTag (node_tag (c_node s)) uuid) = Some a \<or> lim_Revoked (info_at l a)"
    and give: "\<And>uuid a. uuid \<in> c_conns s \<Longrightarrow> map_of (UserLimits l) (UserTag (node_tag (c_node s)) uuid) = Some a \<Longrightarrow>
      \<not> lim_Revoked (info_at l a) \<Longrightarrow> active s uuid"
  shows "cinv (setLim l s)"
proof -
  note i = cinvD [OF assms(1)]
  let ?s = "setLim l s"
  have l [simp]: "(limiters (c_heap s))[c_la s := l] ! c_la s = l" using i(1) by (simp add: limiter_live_def)
  have c [simp]: "counting ?s q = counting s q" for q by (simp add: counting_def)
  have lt: "p < length (cacheHeap (c_heap s)) \<Longrightarrow> tc_limit (ptr s p) < length (infos (lm s))" for p
    using i(2) by (simp add: ptrs_ok_def)
  have un: "p < length (cacheHeap (c_heap s)) \<Longrightarrow> unrevoked ?s p \<Longrightarrow> unrevoked s p" for p
    using mono [OF lt] by auto
  show ?thesis
  proof (rule cinvI)
    show "limiter_live ?s" using i(1) assms(2) by (simp add: limiter_live_def)
    show "ptrs_ok ?s" using i(2) assms(3) by (fastforce simp: ptrs_ok_def)
    show "calls_ok ?s" using i(3) by (simp add: calls_ok_def)
    show "cached_ok ?s" using i(4) by (simp add: cached_ok_def)
    show "granted_ok ?s"
      unfolding granted_ok_def
    proof (intro allI impI)
      fix p
      assume p: "p < length (cacheHeap (c_heap ?s))" "unrevoked ?s p"
      then have "entry s (tc_id (ptr s p)) = Some (tc_limit (ptr s p))" using i(5) un [of p] by (simp add: granted_ok_def)
      from drop [OF this] p show "entry ?s (tc_id (ptr ?s p)) = Some (tc_limit (ptr ?s p))"
        by simp
    qed
    show "current_ok ?s" using i(6) un unfolding current_ok_def c by simp
    show "conns_ok ?s" using give by (auto simp: conns_ok_def)
    show "holder_ok ?s"
      unfolding holder_ok_def
    proof (intro allI impI)
      fix uuid la a tx rx
      assume h: "c_holder ?s = Some (uuid, (la, a), tx, rx)"
      then have a: "la = c_la s" "a < length (infos (lm s))" "uuid \<in> c_conns s" "cachedPtr s uuid = None"
        "lim_Revoked (info_at (lm s) a) \<or> entry s uuid = Some a" "active s uuid \<or> c_settling s = Some uuid" "c_uids s uuid \<noteq> 0"
        using i(8) by (auto simp: holder_ok_def)
      with mono [OF a(2)] drop [of uuid a] assms(3)
      show "la = c_la ?s \<and> a < length (infos (lm ?s)) \<and> uuid \<in> c_conns ?s \<and> cachedPtr ?s uuid = None \<and>
        (lim_Revoked (info_at (lm ?s) a) \<or> entry ?s uuid = Some a) \<and>
        (active ?s uuid \<or> c_settling ?s = Some uuid) \<and> c_uids ?s uuid \<noteq> 0" by auto
    qed
    show "counter_ok (ctr ?s)" using i(11) by simp
    show "conserved ?s" using i(12) by (simp add: conserved_def)
  qed (use i in simp_all)
qed

lemma live_bound: "limiter_live s \<Longrightarrow> entry s uuid = Some a \<Longrightarrow> a < length (infos (lm s))"
  by (simp add: limiter_live_def perms_ok_def)

lemma conns_okD:
  "conns_ok s \<Longrightarrow> uuid \<in> c_conns s \<Longrightarrow> entry s uuid = Some a \<Longrightarrow> \<not> lim_Revoked (info_at (lm s) a) \<Longrightarrow> active s uuid"
  by (auto simp: conns_ok_def)

lemma step_tune:
  assumes "cinv s" "same_permissions (lm s) l"
  shows "cinv (setLim l s)"
proof (rule step_limiter [OF assms(1)])
  note i = cinvD [OF assms(1)]
  show "perms_ok l"
    by (rule perms_subset [of "lm s"]) (use i(1) assms(2) in \<open>auto simp: limiter_live_def same_permissions_def\<close>)
  fix uuid a
  assume u: "uuid \<in> c_conns s" "map_of (UserLimits l) (UserTag (node_tag (c_node s)) uuid) = Some a" "\<not> lim_Revoked (info_at l a)"
  then have e: "entry s uuid = Some a" using assms(2) by (simp add: same_permissions_def)
  with u(3) live_bound [OF i(1) e] assms(2) show "active s uuid"
    by (intro conns_okD [OF i(7) u(1) e]) (simp add: same_permissions_def)
qed (use assms(2) in \<open>auto simp: same_permissions_def\<close>)

lemma RevokeUser_revoked:
  "a < length (infos l) \<Longrightarrow> lim_Revoked (info_at (RevokeUser t l) a) \<longleftrightarrow>
     lim_Revoked (info_at l a) \<or> map_of (UserLimits l) t = Some a"
  by (cases "map_of (UserLimits l) t") (auto simp: RevokeUser_def nth_update_at)

lemma step_grant:
  assumes "cinv s" "active s (user_Uuid u)" "entry s (user_Uuid u) = None"
  shows "cinv (setLim (storeUser (node_tag (c_node s)) u (lm s)) s)"
proof (rule step_limiter [OF assms(1)])
  note i = cinvD [OF assms(1)]
  show "perms_ok (storeUser (node_tag (c_node s)) u (lm s))" using i(1) by (simp add: perms_store limiter_live_def)
  fix uuid a
  show "uuid \<in> c_conns s \<Longrightarrow>
     map_of (UserLimits (storeUser (node_tag (c_node s)) u (lm s))) (UserTag (node_tag (c_node s)) uuid) = Some a \<Longrightarrow>
     \<not> lim_Revoked (info_at (storeUser (node_tag (c_node s)) u (lm s)) a) \<Longrightarrow> active s uuid"
    using assms(2) live_bound [OF i(1), of uuid a] conns_okD [OF i(7), of uuid a] by (cases "uuid = user_Uuid u") (simp_all add: nth_append)
qed (use assms(3) in \<open>auto simp: nth_append\<close>)

lemma step_forget:
  assumes "cinv s"
  shows "cinv (setLim (deleteUser (node_tag (c_node s)) u (lm s)) s)"
proof (rule step_limiter [OF assms(1)])
  note i = cinvD [OF assms(1)]
  let ?t = "UserTag (node_tag (c_node s)) (user_Uuid u)" and ?l = "deleteUser (node_tag (c_node s)) u (lm s)"
  have f: "infos ?l = infos (RevokeUser ?t (lm s))" "UserLimits ?l = AList.delete ?t (UserLimits (lm s))"
    by (simp_all add: deleteUser_def Let_def)
  show "perms_ok ?l"
    by (rule perms_subset [of "lm s"]) (use i(1) in \<open>auto simp: f limiter_live_def map_le_def\<close>)
  show "length (infos (lm s)) \<le> length (infos ?l)" by (simp add: f)
  fix uuid a
  show "a < length (infos (lm s)) \<Longrightarrow> lim_Revoked (info_at (lm s) a) \<Longrightarrow> lim_Revoked (info_at ?l a)"
    by (simp add: f RevokeUser_revoked)
  show "entry s uuid = Some a \<Longrightarrow> map_of (UserLimits ?l) (UserTag (node_tag (c_node s)) uuid) = Some a \<or> lim_Revoked (info_at ?l a)"
    using live_bound [OF i(1), of uuid a] by (auto simp: f RevokeUser_revoked)
  show "uuid \<in> c_conns s \<Longrightarrow> map_of (UserLimits ?l) (UserTag (node_tag (c_node s)) uuid) = Some a \<Longrightarrow>
     \<not> lim_Revoked (info_at ?l a) \<Longrightarrow> active s uuid"
    using live_bound [OF i(1), of uuid a] conns_okD [OF i(7), of uuid a]
    by (cases "uuid = user_Uuid u") (simp_all add: f RevokeUser_revoked)
qed

lemma same_permissions_set:
  "lim_Revoked u = lim_Revoked (info_at l a) \<Longrightarrow> same_permissions l (l\<lparr>infos := (infos l)[a := u]\<rparr>)"
  by (simp add: same_permissions_def nth_update_at)

lemma step_refuse:
  assumes "cinv s" "c_calls s = xs @ Looked p tx rx # ys" "mayCount p (c_heap s) = (False, h)"
  shows "cinv (s\<lparr>c_heap := h, c_calls := xs @ ys\<rparr>)"
proof -
  note i = cinvD [OF assms(1)]
  have p: "p < length (cacheHeap (c_heap s))" using i(3) assms(2) by (auto simp: calls_ok_def)
  then have la: "tc_limiter (ptr s p) = c_la s" using i(2) by (simp add: ptrs_ok_def)
  let ?u = "info_at (lm s) (tc_limit (ptr s p))"
  let ?l = "(lm s)\<lparr>infos := (infos (lm s))[tc_limit (ptr s p) := ?u\<lparr>lim_OverLimit := False\<rparr>]\<rparr>"
  have "cinv (setLim ?l s)" by (rule step_tune [OF assms(1)]) (simp add: same_permissions_set)
  moreover have "s\<lparr>c_heap := h\<rparr> = s \<or> s\<lparr>c_heap := h\<rparr> = setLim ?l s"
    using assms(3) la by (auto simp: mayCount_def Let_def limitOf_def setLimit_def split: if_splits)
  ultimately have j: "cinv (s\<lparr>c_heap := h\<rparr>)" using assms(1) by metis
  let ?s = "s\<lparr>c_heap := h, c_calls := xs @ ys\<rparr>"
  have "calls_ok ?s" using cinvD(3) [OF j] assms(2) by (auto simp: calls_ok_def)
  moreover have "current_ok ?s" using cinvD(6) [OF j] assms(2) by (auto simp: current_ok_def counting_def)
  ultimately show ?thesis using cinvD [OF j] by (intro cinvI) simp_all
qed

text \<open>Changes of the storages only.\<close>

lemma step_storages:
  assumes "cinv s" "counter_ok (node_counter (c_node s), sh)"
    "conserved (s\<lparr>c_heap := (c_heap s)\<lparr>storageHeap := sh\<rparr>, c_total := t, c_paid := q\<rparr>)"
  shows "cinv (s\<lparr>c_heap := (c_heap s)\<lparr>storageHeap := sh\<rparr>, c_total := t, c_paid := q\<rparr>)" (is "cinv ?s")
proof -
  note i = cinvD [OF assms(1)]
  have "limiter_live ?s" "ptrs_ok ?s" "calls_ok ?s" using i(1-3) by (simp_all add: limiter_live_def ptrs_ok_def calls_ok_def)
  moreover have "cached_ok ?s" "granted_ok ?s" using i(4,5) by (simp_all add: cached_ok_def granted_ok_def)
  moreover have "current_ok ?s" using i(6) by (simp add: current_ok_def counting_def)
  moreover have "conns_ok ?s" "holder_ok ?s" using i(7,8) by (simp add: conns_ok_def, auto simp: holder_ok_def)
  ultimately show ?thesis using i assms(2,3) by (intro cinvI) simp_all
qed

lemma int64_of_small: "uint x < 2 ^ 63 \<Longrightarrow> int64_of_u64 x = uint (x :: u64)"
  by (simp add: int64_of_u64_def sint_uint signed_take_bit_int_eq_self_iff order_trans [of _ 0])

lemma storage_same [simp]: "st\<lparr>UpCounter := UpCounter st\<rparr> = st" "st\<lparr>DownCounter := DownCounter st\<rparr> = st"
  "st\<lparr>DownCounter := n, UpCounter := UpCounter st\<rparr> = st\<lparr>DownCounter := n\<rparr>"
  by (cases st; simp)+

lemma heap_same [simp]: "h\<lparr>storageHeap := storageHeap h\<rparr> = h"
  by (cases h) simp

lemma countTraffic_storages:
  assumes "counter_ok (m, storageHeap h)" "map_of m k = Some (tc_storage (cacheHeap h ! p))"
    "fits (counted (m, storageHeap h) k + amount tx rx)"
  shows "\<exists>sh. countTraffic p tx rx h = h\<lparr>storageHeap := sh\<rparr> \<and> counter_ok (m, sh) \<and>
    (\<forall>j. counted (m, sh) j = (if j = k then counted (m, storageHeap h) k + amount tx rx else counted (m, storageHeap h) j))"
proof -
  let ?a = "tc_storage (cacheHeap h ! p)" and ?h = "storageHeap h"
  let ?st = "(?h ! ?a)\<lparr>DownCounter := DownCounter (?h ! ?a) + uint rx, UpCounter := UpCounter (?h ! ?a) + uint tx\<rparr>"
  note c = counted_Some [OF assms(2), of ?h]
  have a: "?a < length ?h" by (rule counter_bound [OF assms(1,2)])
  have f: "fits (Usage (UpCounter (?h ! ?a)) (DownCounter (?h ! ?a)))" using counted_fits [OF assms(1), of k] c by simp
  have t: "uint tx < 2 ^ 63" "uint rx < 2 ^ 63"
    using assms(3) f by (auto simp: c amount_def fits_def nonneg_def)
  have w: "in_int64 (UpCounter (?h ! ?a) + uint tx)" "in_int64 (DownCounter (?h ! ?a) + uint rx)"
    using assms(3) f by (auto intro!: in_int64_fits add_nonneg_nonneg simp: c amount_def fits_def nonneg_def)
  have z: "0 < x \<longleftrightarrow> uint x \<noteq> 0" for x :: u64 by (simp add: word_neq_0_conv [symmetric] uint_0_iff)
  have "countTraffic p tx rx h = h\<lparr>storageHeap := ?h[?a := ?st]\<rparr>"
    using a w t by (auto simp: countTraffic_def Let_def addUp_def addDown_def int64_of_small z)
  moreover have "counter_ok (m, ?h[?a := ?st])"
    using assms(3) by (intro write_ok [OF assms(1)]) (simp add: c amount_def plus_usage_def)
  moreover have "counted (m, ?h[?a := ?st]) j =
      (if j = k then counted (m, ?h) k + amount tx rx else counted (m, ?h) j)" for j
    using counted_write [OF assms(1,2), of ?st j] by (simp add: c amount_def plus_usage_def)
  ultimately show ?thesis by blast
qed

lemma step_count:
  assumes "cinv s" "c_calls s = xs @ Counting p tx rx # ys" "fits (counted (ctr s) (tc_id (ptr s p)) + amount tx rx)"
  shows "cinv (s\<lparr>c_heap := countTraffic p tx rx (c_heap s),
      c_total := (c_total s)(tc_id (ptr s p) := c_total s (tc_id (ptr s p)) + amount tx rx), c_calls := xs @ ys\<rparr>)"
proof -
  note i = cinvD [OF assms(1)]
  let ?k = "tc_id (ptr s p)"
  have p: "p < length (cacheHeap (c_heap s))" using i(3) assms(2) by (auto simp: calls_ok_def)
  have "counting s p" using assms(2) by (auto simp: counting_def)
  then have "cachedPtr s ?k = Some p" using i(6) p by (simp add: current_ok_def)
  then have k: "map_of (node_counter (c_node s)) ?k = Some (tc_storage (ptr s p))" by (rule cached_okD(3) [OF i(4)])
  obtain sh where sh: "countTraffic p tx rx (c_heap s) = (c_heap s)\<lparr>storageHeap := sh\<rparr>" "counter_ok (node_counter (c_node s), sh)"
    "\<forall>j. counted (node_counter (c_node s), sh) j = (if j = ?k then counted (ctr s) ?k + amount tx rx else counted (ctr s) j)"
    using countTraffic_storages [OF i(11) k assms(3)] by blast
  let ?t = "(c_total s)(?k := c_total s ?k + amount tx rx)"
  have "cinv (s\<lparr>c_heap := (c_heap s)\<lparr>storageHeap := sh\<rparr>, c_total := ?t, c_paid := c_paid s\<rparr>)" (is "cinv ?s")
    using i(12) sh(3) by (intro step_storages [OF assms(1) sh(2)]) (auto simp: conserved_def ac_simps)
  note j = cinvD [OF this]
  have "calls_ok (?s\<lparr>c_calls := xs @ ys\<rparr>)" using j(3) assms(2) by (auto simp: calls_ok_def)
  moreover have "current_ok (?s\<lparr>c_calls := xs @ ys\<rparr>)" using j(6) assms(2) by (auto simp: current_ok_def counting_def)
  ultimately have "cinv (?s\<lparr>c_calls := xs @ ys\<rparr>)" using j by (intro cinvI) simp_all
  then show ?thesis by (simp add: sh(1))
qed

lemma step_commit:
  assumes "cinv s" "row_ok r"
    "h = (c_heap s)\<lparr>storageHeap := commitRow (node_counter (c_node s)) r (storageHeap (c_heap s))\<rparr>"
  shows "cinv (s\<lparr>c_heap := h, c_paid := (c_paid s)(ut_UUID r := c_paid s (ut_UUID r) +
      (counted (ctr s) (ut_UUID r) - counted (node_counter (c_node s), storageHeap h) (ut_UUID r)))\<rparr>)"
proof -
  note i = cinvD [OF assms(1)]
  let ?m = "node_counter (c_node s)" and ?u = "Usage (ut_Upload r) (ut_Download r)"
  let ?sh = "commitRow ?m r (storageHeap (c_heap s))"
  let ?q = "(c_paid s)(ut_UUID r := c_paid s (ut_UUID r) + (counted (ctr s) (ut_UUID r) - counted (?m, ?sh) (ut_UUID r)))"
  have u: "nonneg ?u" "used_up ?u < 2 ^ 63" "used_down ?u < 2 ^ 63" using assms(2) by (simp_all add: row_ok_def fits_def)
  have e: "(?m, ?sh) = ctr s \<or> (?m, ?sh) = subtractBoth (ut_UUID r) ?u (ctr s)"
    by (auto simp: commitRow_def subtractBoth_def Subtract_def split: option.splits)
  then have ok: "counter_ok (?m, ?sh)" using Subtract_spec(1) [OF i(11) u] i(11) by (elim disjE) (simp_all del: fst_conv)
  have other: "counted (?m, ?sh) j = counted (ctr s) j" if "j \<noteq> ut_UUID r" for j
    using e Subtract_spec(2) [OF i(11) u, of "ut_UUID r" j] that by auto
  have "cinv (s\<lparr>c_heap := (c_heap s)\<lparr>storageHeap := ?sh\<rparr>, c_total := c_total s, c_paid := ?q\<rparr>)"
    using i(12) other by (intro step_storages [OF assms(1) ok]) (simp add: conserved_def add.commute)
  then show ?thesis by (simp add: assms(3))
qed

text \<open>Changes of the node.\<close>

lemma step_revoke:
  assumes "cinv s" "c_settling s = None" "n = delAuth uuid (c_node s)"
  shows "cinv (s\<lparr>c_node := n, c_heap := revokeLimit uuid n (c_heap s), c_settling := Some uuid\<rparr>)" (is "cinv ?s")
proof -
  note i = cinvD [OF assms(1)]
  let ?t = "UserTag (node_tag (c_node s)) uuid"
  let ?s1 = "setLim (RevokeUser ?t (lm s)) s"
  have n: "n = (c_node s)\<lparr>auth_users := AList.delete uuid (auth_users (c_node s))\<rparr>" using assms(3) by (simp add: delAuth_def)
  have s: "?s = ?s1\<lparr>c_node := n, c_settling := Some uuid\<rparr>"
    using i(1) by (simp add: n revokeLimit_def loggerLimiter_def limiter_live_def)
  have l: "(limiters (c_heap s))[c_la s := x] ! c_la s = x" for x using i(1) by (simp add: limiter_live_def)
  have "cinv ?s1"
  proof (rule step_limiter [OF assms(1)])
    show "perms_ok (RevokeUser ?t (lm s))"
      by (rule perms_subset [of "lm s"]) (use i(1) in \<open>auto simp: limiter_live_def\<close>)
    fix u a
    assume "u \<in> c_conns s" and e: "map_of (UserLimits (RevokeUser ?t (lm s))) (UserTag (node_tag (c_node s)) u) = Some a"
      "\<not> lim_Revoked (info_at (RevokeUser ?t (lm s)) a)"
    with live_bound [OF i(1), of u a] show "active s u" by (intro conns_okD [OF i(7), of u a]) (auto simp: RevokeUser_revoked)
  qed (auto simp: RevokeUser_revoked)
  note j = cinvD [OF this]
  have act: "active ?s u \<longleftrightarrow> active s u \<and> u \<noteq> uuid" for u by (simp add: n)
  have keep: "active s u \<or> c_settling s = Some u \<Longrightarrow> active ?s u \<or> c_settling ?s = Some u" for u
    using act [of u] assms(2) by auto
  show ?thesis
    unfolding s
  proof (rule cinvI)
    let ?s2 = "?s1\<lparr>c_node := n, c_settling := Some uuid\<rparr>"
    show "limiter_live ?s2" "granted_ok ?s2" "current_ok ?s2"
      using j(1,5,6) by (simp_all add: n l limiter_live_def granted_ok_def current_ok_def counting_def)
    show "cached_ok ?s2" using j(4) keep by (auto simp: n cached_ok_def)
    show "conns_ok ?s2"
      using j(7) live_bound [OF i(1), of uuid] by (auto simp: n conns_ok_def l RevokeUser_revoked)
    show "holder_ok ?s2" using j(8) keep by (auto simp: n holder_ok_def l)
    show "uids_ok ?s2" using j(9) by (auto simp: n uids_ok_def)
    show "settling_ok ?s2" by (simp add: n settling_ok_def)
    show "counter_ok (ctr ?s2)" "conserved ?s2" using j(11,12) by (simp_all add: n conserved_def)
  qed (use j in simp_all)
qed

lemma step_settle:
  assumes "cinv s" "c_settling s = Some uuid" "c_holder s = None"
    "\<forall>p tx rx. cachedPtr s uuid = Some p \<longrightarrow> Counting p tx rx \<notin> set (c_calls s)"
  shows "cinv (s\<lparr>c_node := settleUser uuid (c_node s), c_settling := None\<rparr>)" (is "cinv ?s")
proof -
  note i = cinvD [OF assms(1)]
  obtain m where n: "settleUser uuid (c_node s) = (c_node s)\<lparr>cache_users := m\<rparr>" "map_of m = (cachedPtr s)(uuid := None)"
  proof (cases "cachedPtr s uuid")
    case None
    then have "cachedPtr s = (cachedPtr s)(uuid := None)" by auto
    with None show ?thesis by (intro that [of "cache_users (c_node s)"]) (auto simp: settleUser_def)
  next
    case (Some p)
    then show ?thesis by (intro that [of "AList.delete uuid (cache_users (c_node s))"]) (simp_all add: settleUser_def)
  qed
  have gone: "tc_id (ptr s q) \<noteq> uuid" if q: "q < length (cacheHeap (c_heap s))" "counting s q \<or> unrevoked s q" for q
  proof
    assume u: "tc_id (ptr s q) = uuid"
    then have "cachedPtr s uuid = Some q" using i(6) q by (auto simp: current_ok_def)
    then have "unrevoked s q" using assms(4) q(2) by (auto simp: counting_def)
    then have e: "entry s uuid = Some (tc_limit (ptr s q))" using i(5) q(1) u by (auto simp: granted_ok_def)
    have "uuid \<in> c_conns s" using i(2) q(1) u by (auto simp: ptrs_ok_def)
    from conns_okD [OF i(7) this e \<open>unrevoked s q\<close>] show False using i(10) assms(2) by (simp add: settling_ok_def)
  qed
  show ?thesis
  proof (rule cinvI)
    show "limiter_live ?s" "granted_ok ?s" using i(1,5) by (simp_all add: n limiter_live_def granted_ok_def)
    show "cached_ok ?s" using i(4) assms(2) by (auto simp: n cached_ok_def)
    show "current_ok ?s" using i(6) gone by (simp add: n current_ok_def counting_def)
    show "conns_ok ?s" using i(7) by (simp add: n conns_ok_def)
    show "holder_ok ?s" using assms(3) by (simp add: holder_ok_def)
    show "uids_ok ?s" using i(9) by (simp add: n uids_ok_def)
    show "settling_ok ?s" by (simp add: settling_ok_def)
    show "counter_ok (ctr ?s)" "conserved ?s" using i(11,12) by (simp_all add: n conserved_def)
  qed (use i in simp_all)
qed

lemma step_admit:
  assumes "cinv s" "c_settling s = None" "user_Id u \<noteq> 0" "\<not> active s (user_Uuid u)"
  shows "cinv (s\<lparr>c_node := addAuth u (c_node s), c_uids := (c_uids s)(user_Uuid u := user_Id u)\<rparr>)" (is "cinv ?s")
proof -
  note i = cinvD [OF assms(1)]
  have none: "cachedPtr s (user_Uuid u) = None"
    using cached_okD(4) [OF i(4), of "user_Uuid u"] assms(2,4) by (cases "cachedPtr s (user_Uuid u)") auto
  let ?m = "AList.delete (user_Uuid u) (cache_users (c_node s))"
  have m: "map_of ?m = cachedPtr s" using none by auto
  have n: "addAuth u (c_node s) = (c_node s)\<lparr>cache_users := ?m,
      auth_users := AList.update (user_Uuid u) (user_Id u) (auth_users (c_node s))\<rparr>"
    by (simp add: addAuth_def ForgetUser_def Let_def)
  show ?thesis
  proof (rule cinvI)
    show "limiter_live ?s" "granted_ok ?s" using i(1,5) by (simp_all add: n limiter_live_def granted_ok_def)
    show "cached_ok ?s" using i(4) m by (auto simp: n cached_ok_def simp del: map_of_delete)
    show "current_ok ?s" using i(6) m by (simp add: n current_ok_def counting_def del: map_of_delete)
    show "conns_ok ?s" using i(7) by (auto simp: n conns_ok_def)
    show "holder_ok ?s" using i(8) assms(3) m by (auto simp: n holder_ok_def simp del: map_of_delete)
    show "uids_ok ?s" using i(9) assms(3) by (auto simp: n uids_ok_def)
    show "settling_ok ?s" using assms(2) by (simp add: settling_ok_def)
    show "counter_ok (ctr ?s)" "conserved ?s" using i(11,12) by (simp_all add: n conserved_def)
  qed (use i in simp_all)
qed

text \<open>A capture leaves the counters as they are: every counted user has a UID.\<close>

lemma capture_keeps:
  assumes "cinv s"
  shows "snd (captureNode minTraffic (c_uids s) (c_node s) (storageHeap (c_heap s))) = c_node s"
proof -
  have "captureOne minTraffic (c_uids s) (c_node s) (storageHeap (c_heap s)) e \<noteq> Drop" if "e \<in> set (node_counter (c_node s))" for e
  proof -
    obtain uuid a where e: "e = (uuid, a)" by fastforce
    then have "map_of (node_counter (c_node s)) uuid \<noteq> None" using that by (auto dest: weak_map_of_SomeI)
    then have "c_uids s uuid \<noteq> 0" using cinvD(9) [OF assms] by (simp add: uids_ok_def)
    then show ?thesis by (simp add: e captureOne_def Let_def)
  qed
  then have "filter (\<lambda>e. captureOne minTraffic (c_uids s) (c_node s) (storageHeap (c_heap s)) e \<noteq> Drop) (node_counter (c_node s)) =
    node_counter (c_node s)" by (simp add: filter_id_conv)
  then show ?thesis by (cases "c_node s") (simp add: captureNode_def)
qed

lemma counter_ok_delete: "counter_ok (m, h) \<Longrightarrow> counter_ok (AList.delete k m, h)"
  by (auto simp: counter_ok_def AList.delete_eq distinct_map_filter)

lemma step_prune:
  assumes "cinv s" "c_settling s = None" "retiredZero (c_node s) (storageHeap (c_heap s)) uuid"
  shows "cinv (s\<lparr>c_node := (c_node s)\<lparr>node_counter := AList.delete uuid (node_counter (c_node s))\<rparr>,
      c_uids := (c_uids s)(uuid := 0)\<rparr>)" (is "cinv ?s")
proof -
  note i = cinvD [OF assms(1)]
  have r: "\<not> active s uuid" "counted (ctr s) uuid = 0" using assms(3) by (auto simp: retiredZero_def counted_def zero_usage_def)
  have none: "cachedPtr s uuid = None" using cached_okD(4) [OF i(4), of uuid] assms(2) r(1) by (cases "cachedPtr s uuid") auto
  have cnt: "counted (ctr ?s) j = counted (ctr s) j" for j
    using r(2) by (cases "j = uuid") (auto simp: counted_None, simp add: counted_def GetUpCount_def GetDownCount_def)
  show ?thesis
  proof (rule cinvI)
    show "limiter_live ?s" "granted_ok ?s" using i(1,5) by (simp_all add: limiter_live_def granted_ok_def)
    show "cached_ok ?s" using i(4) none by (auto simp: cached_ok_def)
    show "current_ok ?s" using i(6) by (simp add: current_ok_def counting_def)
    show "conns_ok ?s" using i(7) by (auto simp: conns_ok_def)
    show "holder_ok ?s" using i(8) r(1) assms(2) by (auto simp: holder_ok_def)
    show "uids_ok ?s" using i(9) r(1) by (auto simp: uids_ok_def)
    show "settling_ok ?s" using assms(2) by (simp add: settling_ok_def)
    show "counter_ok (ctr ?s)" using i(11) by (simp add: counter_ok_delete)
    show "conserved ?s" using i(12) cnt by (simp add: conserved_def)
  qed (use i in simp_all)
qed

lemma cinv_step:
  assumes "cinv s" "cstep s s'"
  shows "cinv s'"
  using assms(2)
proof (cases rule: cstep.cases)
  case (commit r h)
  then show ?thesis using step_commit [OF assms(1) commit(3,4)] by (simp only:)
next
  case (capture minTraffic rows n)
  then show ?thesis using capture_keeps [OF assms(1), of minTraffic] assms(1) by simp
qed (use assms(1) in \<open>auto intro: step_connect step_look step_enter step_store step_pass step_refuse step_count
      step_revoke step_settle step_forget step_grant step_tune step_admit step_prune\<close>)

lemma cinv_creach: "creach tag users alive s \<Longrightarrow> cinv s"
  by (induction rule: creach.induct) (auto intro: cinv_start cinv_step)

section \<open>Properties\<close>


text \<open>What is true of a connected user who is neither active nor being deleted.\<close>

lemma retired_facts:
  assumes "cinv s" "uuid \<in> c_conns s" "\<not> active s uuid" "c_settling s \<noteq> Some uuid"
  shows "cachedPtr s uuid = None" "\<And>p. p < length (cacheHeap (c_heap s)) \<Longrightarrow> tc_id (ptr s p) = uuid \<Longrightarrow> \<not> counting s p"
    "lookupLimit uuid (c_node s) (c_heap s) = None"
proof -
  note i = cinvD [OF assms(1)]
  show none: "cachedPtr s uuid = None"
    using cached_okD(4) [OF i(4), of uuid] assms(3,4) by (cases "cachedPtr s uuid") auto
  show "\<not> counting s p" if "p < length (cacheHeap (c_heap s))" "tc_id (ptr s p) = uuid" for p
    using i(6) that none by (auto simp: current_ok_def)
  show "lookupLimit uuid (c_node s) (c_heap s) = None"
  proof (cases "lookupLimit uuid (c_node s) (c_heap s)")
    case (Some lim)
    obtain la a where "lim = (la, a)" by fastforce
    with Some lookupLimit_Some [of uuid s la a] i(1) conns_okD [OF i(7) assms(2), of a] assms(3) show ?thesis by simp
  qed simp
qed

text \<open>C14: Deletion is final. Once \<open>DelUsers\<close> has returned for a connected user, a traffic callback for
  that user is refused, and no step of any goroutine adds to what has been counted for the user
  (until the user is admitted again).\<close>

theorem hy2_deleted_user_frozen:
  assumes "creach tag users alive s" "uuid \<in> c_conns s" "\<not> active s uuid" "c_settling s \<noteq> Some uuid"
  shows "\<not> fst (LogTraffic uuid tx rx (c_node s) (c_heap s)) \<and>
    (\<forall>s'. cstep s s' \<longrightarrow> c_total s' uuid = c_total s uuid)"
proof -
  note inv = cinv_creach [OF assms(1)]
  note r = retired_facts [OF inv assms(2-4)]
  have "c_total s' uuid = c_total s uuid" if "cstep s s'" for s'
    using that
  proof (cases rule: cstep.cases)
    case (count xs p tx rx ys)
    then have "counting s p" "p < length (cacheHeap (c_heap s))"
      using cinvD(3) [OF inv] by (auto simp: counting_def calls_ok_def)
    with r(2) [of p] have "tc_id (ptr s p) \<noteq> uuid" by blast
    with count show ?thesis by simp
  qed auto
  then show ?thesis using r(1,3) by (simp add: LogTraffic_def getUser_def)
qed

lemma wrap64_nonzero:
  assumes "0 < z" "z < 2 ^ 64"
  shows "wrap64 z \<noteq> 0"
proof (cases "z < 2 ^ 63")
  case True
  then show ?thesis using assms by (simp add: in_int64_def)
next
  case False
  have "(z + 2 ^ 63) mod 2 ^ 64 = (z + 2 ^ 63 - 2 ^ 64) mod 2 ^ 64" by (simp only: minus_mod_self2)
  also have "\<dots> = z + 2 ^ 63 - 2 ^ 64" using False assms by (intro mod_pos_pos_trivial) simp_all
  finally show ?thesis using assms by (simp add: wrap64_def)
qed

lemma map_filter_mem: "x \<in> set xs \<Longrightarrow> f x = Some y \<Longrightarrow> y \<in> set (List.map_filter f xs)"
  by (force simp: List.map_filter_def)

text \<open>C15: The last traffic of a deleted user is reported. Whenever a capture runs, every deleted user
  with a nonzero counter appears in the report with the UID it had and with its exact counter,
  whatever the reporting threshold, and the capture discards no counter.\<close>

theorem hy2_deleted_user_reported:
  assumes "creach tag users alive s" "\<not> active s uuid" "counted (ctr s) uuid \<noteq> 0"
  shows "\<lparr>ut_UID = c_uids s uuid, ut_Upload = used_up (counted (ctr s) uuid), ut_Download = used_down (counted (ctr s) uuid),
      ut_UUID = uuid\<rparr> \<in> set (fst (captureNode minTraffic (c_uids s) (c_node s) (storageHeap (c_heap s)))) \<and>
    c_uids s uuid \<noteq> 0 \<and> snd (captureNode minTraffic (c_uids s) (c_node s) (storageHeap (c_heap s))) = c_node s"
proof -
  note inv = cinv_creach [OF assms(1)]
  let ?h = "storageHeap (c_heap s)"
  obtain a where a: "map_of (node_counter (c_node s)) uuid = Some a"
    using assms(3) by (cases "map_of (node_counter (c_node s)) uuid") (auto simp: counted_None)
  then have uid: "c_uids s uuid \<noteq> 0" using cinvD(9) [OF inv] by (simp add: uids_ok_def)
  note c = counted_Some [OF a, of ?h]
  have "fits (Usage (UpCounter (?h ! a)) (DownCounter (?h ! a)))" using counted_fits [OF cinvD(11) [OF inv], of uuid] c by simp
  then have "wrap64 (UpCounter (?h ! a) + DownCounter (?h ! a)) \<noteq> 0"
    using assms(3) c by (intro wrap64_nonzero) (auto simp: fits_def nonneg_def zero_usage_def)
  then have "captureOne minTraffic (c_uids s) (c_node s) ?h (uuid, a) =
      Report \<lparr>ut_UID = c_uids s uuid, ut_Upload = UpCounter (?h ! a), ut_Download = DownCounter (?h ! a), ut_UUID = uuid\<rparr>"
    using uid assms(2) by (simp add: captureOne_def Let_def)
  with map_of_SomeD [OF a] have "\<lparr>ut_UID = c_uids s uuid, ut_Upload = UpCounter (?h ! a), ut_Download = DownCounter (?h ! a),
      ut_UUID = uuid\<rparr> \<in> set (fst (captureNode minTraffic (c_uids s) (c_node s) ?h))"
    unfolding captureNode_def reportsOf_def fst_conv
    by (intro map_filter_mem [where x = "captureOne minTraffic (c_uids s) (c_node s) ?h (uuid, a)"])
      (simp_all del: split_paired_all add: rev_image_eqI)
  then show ?thesis using uid capture_keeps [OF inv] c by simp
qed


text \<open>The methods of the limiter that are transitions of the kind \<open>tune\<close>.\<close>

lemma modifyUser_same: "same_permissions l (modifyUser tag u l)"
  by (auto simp: same_permissions_def modifyUser_def Let_def nth_update_at split: option.splits)

lemma UpdateAliveList_same: "same_permissions l (UpdateAliveList alive l)"
  by (simp add: same_permissions_def UpdateAliveList_def)

lemma GetOnlineDevice_same: "same_permissions l (snd (GetOnlineDevice l))"
  by (simp add: same_permissions_def GetOnlineDevice_def)

lemma CheckLimit_same:
  assumes "CheckLimit now t ip udp l = ((b, reject), l')"
  shows "same_permissions l l'"
  using assms
proof (cases rule: CheckLimit_cases)
  case (checked a n u' l1 l2 rejected)
  have u: "lim_Revoked u' = lim_Revoked (info_at l a)" using currentLimit_keeps [OF checked(3)] by simp
  have "UserLimits l2 = UserLimits l1 \<and> infos l2 = infos l1"
    using checked(5) recordDevice_fields by (auto split: if_splits)
  moreover have "UserLimits l' = UserLimits l2 \<and> infos l' = infos l2"
    using checked(7) speedBucket_fields by (auto split: if_splits)
  ultimately show ?thesis using same_permissions_set [OF u, unfolded same_permissions_def] checked(4)
    by (simp add: same_permissions_def)
qed (simp add: same_permissions_def)

section \<open>A run\<close>

text \<open>
  A user of the list is admitted, connects, transfers, and is deleted.
\<close>

definition runUser :: UserInfo where
  "runUser = \<lparr>user_Id = 7, user_Uuid = ''u'', user_SpeedLimit = 0, user_DeviceLimit = 0\<rparr>"

lemma demo_run:
  "\<exists>s. creach ''n'' [runUser] [] s \<and> ''u'' \<in> c_conns s \<and> \<not> active s ''u'' \<and> c_settling s = None \<and>
     counted (ctr s) ''u'' = Usage 3 4 \<and> c_uids s ''u'' = 7"
proof -
  let ?R = "creach ''n'' [runUser] []"
  define s0 where "s0 = cstart ''n'' [runUser] []"
  define s1 where "s1 = s0\<lparr>c_node := addAuth runUser (c_node s0), c_uids := (c_uids s0)(user_Uuid runUser := user_Id runUser)\<rparr>"
  define s2 where "s2 = s1\<lparr>c_conns := insert ''u'' (c_conns s1)\<rparr>"
  define s3 where "s3 = s2\<lparr>c_holder := Some (''u'', (0, 0), 3, 4)\<rparr>"
  define s4 where "s4 = s3\<lparr>c_node := (c_node s3)\<lparr>node_counter := [(''u'', 0)], cache_users := [(''u'', 0)]\<rparr>,
    c_heap := (c_heap s3)\<lparr>storageHeap := [emptyStorage], cacheHeap := [\<lparr>tc_id = ''u'', tc_storage = 0, tc_limiter = 0, tc_limit = 0\<rparr>]\<rparr>,
    c_holder := None, c_calls := Looked 0 3 4 # c_calls s3\<rparr>"
  define s5 where "s5 = s4\<lparr>c_heap := c_heap s4, c_calls := [] @ Counting 0 3 4 # []\<rparr>"
  define s6 where "s6 = s5\<lparr>c_heap := countTraffic 0 3 4 (c_heap s5),
    c_total := (c_total s5)(tc_id (ptr s5 0) := c_total s5 (tc_id (ptr s5 0)) + amount 3 4), c_calls := [] @ []\<rparr>"
  define s7 where "s7 = s6\<lparr>c_node := delAuth ''u'' (c_node s6), c_heap := revokeLimit ''u'' (delAuth ''u'' (c_node s6)) (c_heap s6),
    c_settling := Some ''u''\<rparr>"
  define s8 where "s8 = s7\<lparr>c_node := settleUser ''u'' (c_node s7), c_settling := None\<rparr>"
  note defs = s0_def s1_def s2_def s3_def s4_def s5_def s6_def runUser_def
  note eval = addAuth_def ForgetUser_def cstart_def Let_def AddLimiter_def newInfo_def
  have r0: "?R s0" unfolding s0_def by (rule creach.start)
  have "cstep s0 s1" unfolding s1_def by (rule cstep.admit) (simp_all add: s0_def runUser_def cstart_def)
  with r0 have r1: "?R s1" by (rule creach.step)
  have "cstep s1 s2" unfolding s2_def by (rule cstep.connect) (simp add: defs eval)
  with r1 have r2: "?R s2" by (rule creach.step)
  have "lookupLimit ''u'' (c_node s2) (c_heap s2) = Some (0, 0)"
    by (simp add: lookupLimit_def loggerLimiter_def defs eval)
  then have "cstep s2 s3" unfolding s3_def by (rule cstep.enter [rotated 3]) (simp_all add: defs eval)
  with r2 have r3: "?R s3" by (rule creach.step)
  have "cstep s3 s4" unfolding s4_def
    by (rule cstep.store [where uuid = "''u''" and lim = "(0, 0)"])
      (simp_all add: s3_def, simp add: storeCache_def GetCounter_def defs eval)
  with r3 have r4: "?R s4" by (rule creach.step)
  have c4: "c_calls s4 = [] @ Looked 0 3 4 # []" by (simp add: defs eval)
  have "mayCount 0 (c_heap s4) = (True, c_heap s4)" by (simp add: mayCount_def limitOf_def defs eval)
  with c4 have "cstep s4 s5" unfolding s5_def by (rule cstep.pass)
  with r4 have r5: "?R s5" by (rule creach.step)
  have c5: "c_calls s5 = [] @ Counting 0 3 4 # []" by (simp add: s5_def)
  have "fits (counted (ctr s5) (tc_id (ptr s5 0)) + amount 3 4)"
    by (simp add: defs eval amount_def counted_def GetUpCount_def GetDownCount_def fits_def nonneg_def)
  with c5 have "cstep s5 s6" unfolding s6_def by (rule cstep.count)
  with r5 have r6: "?R s6" by (rule creach.step)
  have "cstep s6 s7" unfolding s7_def by (rule cstep.revoke) (simp_all add: defs eval)
  with r6 have r7: "?R s7" by (rule creach.step)
  have "c_holder s7 = None" "c_settling s7 = Some ''u''" "c_calls s7 = []" by (simp_all add: s7_def s6_def s5_def s4_def)
  then have "cstep s7 s8" unfolding s8_def by (intro cstep.settle) simp_all
  with r7 have r8: "?R s8" by (rule creach.step)
  have h: "storageHeap (revokeLimit ''u'' n h) = storageHeap h" for n h by (simp add: revokeLimit_def split: option.splits)
  have n: "node_counter (settleUser ''u'' n) = node_counter n" "auth_users (settleUser ''u'' n) = auth_users n" for n
    by (simp_all add: settleUser_def split: option.splits)
  have "storageHeap (c_heap s8) = [\<lparr>UpCounter = 3, DownCounter = 4\<rparr>]"
    by (simp add: s8_def s7_def h s6_def s5_def s4_def countTraffic_def Let_def addUp_def addDown_def int64_of_u64_def in_int64_def)
  moreover have "node_counter (c_node s8) = [(''u'', 0)]" by (simp add: s8_def s7_def n delAuth_def s6_def s5_def s4_def)
  ultimately have "counted (ctr s8) ''u'' = Usage 3 4" by (simp add: counted_def GetUpCount_def GetDownCount_def)
  moreover have "\<not> active s8 ''u''" "c_settling s8 = None" by (simp_all add: s8_def s7_def n delAuth_def)
  moreover have "''u'' \<in> c_conns s8" "c_uids s8 ''u'' = 7" by (simp_all add: s8_def s7_def defs)
  ultimately show ?thesis using r8 by blast
qed



theorem hy2_deleted_user_frozen_witness:
  "\<exists>s. creach ''n'' [runUser] [] s \<and> counted (ctr s) ''u'' = Usage 3 4 \<and> \<not> fst (LogTraffic ''u'' 1 1 (c_node s) (c_heap s))"
proof -
  obtain s where s: "creach ''n'' [runUser] [] s" "''u'' \<in> c_conns s" "\<not> active s ''u''" "c_settling s = None"
    "counted (ctr s) ''u'' = Usage 3 4" using demo_run by blast
  from hy2_deleted_user_frozen [OF s(1-3), of 1 1] s show ?thesis by (metis option.distinct(1))
qed

theorem hy2_deleted_user_reported_witness:
  "\<exists>s. creach ''n'' [runUser] [] s \<and> \<lparr>ut_UID = 7, ut_Upload = 3, ut_Download = 4, ut_UUID = ''u''\<rparr> \<in>
     set (fst (captureNode 100 (c_uids s) (c_node s) (storageHeap (c_heap s))))"
proof -
  obtain s where s: "creach ''n'' [runUser] [] s" "\<not> active s ''u''" "counted (ctr s) ''u'' = Usage 3 4" "c_uids s ''u'' = 7"
    using demo_run by blast
  then have "counted (ctr s) ''u'' \<noteq> 0" by (simp add: zero_usage_def)
  from hy2_deleted_user_reported [OF s(1,2) this, of 100] s show ?thesis by (intro exI [of _ s]) simp
qed

end
