(* ===== verification/Hy2_Events.thy ===== *)
theory Hy2_Events
  imports Hy2_Concurrent
begin

text \<open>
  The callbacks of the event logger (\<open>core/officialhy2/logger.go\<close>) and how a decision of the limiter
  reaches a connection. The server reports connections and requests to the event logger, which
  has no way to refuse them: it marks the user as over the limit, and the next traffic callback
  of the user finds the mark and tells the server to close the connection it was called for.
\<close>

section \<open>Events\<close>

text \<open>The kinds of \<open>net.Addr\<close>, with the text of the address; any other kind has a network of its own.\<close>

datatype netAddr = TCPAddr string | UDPAddr string | IPAddr string | OtherAddr string

fun addrNetwork :: "netAddr \<Rightarrow> string" where
  "addrNetwork (TCPAddr ip) = ''tcp''"
| "addrNetwork (UDPAddr ip) = ''udp''"
| "addrNetwork (IPAddr ip) = ''ip''"
| "addrNetwork (OtherAddr network) = network"

fun extractIPFromAddr :: "netAddr \<Rightarrow> string" where
  "extractIPFromAddr (TCPAddr ip) = ip"
| "extractIPFromAddr (UDPAddr ip) = ip"
| "extractIPFromAddr (IPAddr ip) = ip"
| "extractIPFromAddr (OtherAddr network) = []"

datatype clientEvent = Connect | Disconnect | TCPRequest | TCPError | UDPRequest | UDPError

fun checks :: "clientEvent \<Rightarrow> bool" where
  "checks Connect = True"
| "checks TCPRequest = True"
| "checks UDPRequest = True"
| "checks _ = False"

definition handleEvent :: "int \<Rightarrow> netAddr \<Rightarrow> string \<Rightarrow> clientEvent \<Rightarrow> hy2Node \<Rightarrow> heap \<Rightarrow> hy2Node \<times> heap" where
  "handleEvent now addr uuid ev n h =
     (if checks ev then checkLimit now (extractIPFromAddr addr) (addrNetwork addr) uuid n h else (n, h))"

text \<open>The decision that a check takes: the cached one while it lasts, a new one of the limiter otherwise.\<close>

definition freshDecision :: "int \<Rightarrow> netAddr \<Rightarrow> string \<Rightarrow> hy2Node \<Rightarrow> heap \<Rightarrow> bool" where
  "freshDecision now addr uuid n h =
     (case loggerLimiter n h of None \<Rightarrow> False
      | Some la \<Rightarrow> snd (fst (CheckLimit (now div 10 ^ 9) (UserTag (node_tag n) uuid) (extractIPFromAddr addr)
          (addrNetwork addr = ''tcp'') (limiters h ! la))))"

definition cachedDecision :: "int \<Rightarrow> netAddr \<Rightarrow> string \<Rightarrow> hy2Node \<Rightarrow> bool option" where
  "cachedDecision now addr uuid n =
     (case map_of (limitCache n) (cacheKey (UserTag (node_tag n) uuid) (extractIPFromAddr addr) (addrNetwork addr)) of
        None \<Rightarrow> None
      | Some e \<Rightarrow> if now < lce_expiresAt e then Some (lce_reject e) else None)"

definition rejects :: "int \<Rightarrow> netAddr \<Rightarrow> string \<Rightarrow> hy2Node \<Rightarrow> heap \<Rightarrow> bool" where
  "rejects now addr uuid n h =
     (case cachedDecision now addr uuid n of Some r \<Rightarrow> r | None \<Rightarrow> freshDecision now addr uuid n h)"

section \<open>From the mark to the traffic callback\<close>

text \<open>What the callbacks rely on: a cached user that is not revoked holds the registered permission.\<close>

definition linked :: "string \<Rightarrow> nat \<Rightarrow> hy2Node \<Rightarrow> heap \<Rightarrow> bool" where
  "linked uuid la n h \<longleftrightarrow>
     node_limiter n = Some la \<and> la < length (limiters h) \<and>
     (\<forall>t a. map_of (UserLimits (limiters h ! la)) t = Some a \<longrightarrow> a < length (infos (limiters h ! la))) \<and>
     (\<forall>p. map_of (cache_users n) uuid = Some p \<longrightarrow> tc_limiter (cacheHeap h ! p) = la \<and>
        tc_limit (cacheHeap h ! p) < length (infos (limiters h ! la)) \<and>
        (lim_Revoked (limitOf (cacheHeap h ! p) h) \<or>
         map_of (UserLimits (limiters h ! la)) (UserTag (node_tag n) uuid) = Some (tc_limit (cacheHeap h ! p))))"

definition permission :: "string \<Rightarrow> nat \<Rightarrow> hy2Node \<Rightarrow> heap \<Rightarrow> UserLimitInfo option" where
  "permission uuid la n h =
     map_option (info_at (limiters h ! la)) (map_of (UserLimits (limiters h ! la)) (UserTag (node_tag n) uuid))"

lemma linked_reachable:
  assumes "creach tag users alive s"
  shows "linked uuid (c_la s) (c_node s) (c_heap s)"
proof -
  note i = cinvD [OF cinv_creach [OF assms]]
  have "tc_limiter (ptr s p) = c_la s \<and> tc_limit (ptr s p) < length (infos (lm s)) \<and>
      (lim_Revoked (limitOf (ptr s p) (c_heap s)) \<or> entry s uuid = Some (tc_limit (ptr s p)))"
    if "cachedPtr s uuid = Some p" for p
  proof -
    have p: "p < length (cacheHeap (c_heap s))" "tc_id (ptr s p) = uuid" using i(4) that by (auto simp: cached_ok_def)
    then have la: "tc_limiter (ptr s p) = c_la s" "tc_limit (ptr s p) < length (infos (lm s))" using i(2) by (auto simp: ptrs_ok_def)
    with p i(5) show ?thesis by (auto simp: granted_ok_def limitOf_def)
  qed
  with i(1) show ?thesis by (simp add: linked_def limiter_live_def perms_ok_def)
qed

lemma getUser_linked:
  assumes "linked uuid la n h" "getUser uuid n h = (Some p, n', h')"
  shows "limiters h' = limiters h \<and> permission uuid la n h = Some (limitOf (cacheHeap h' ! p) h') \<and>
    tc_limiter (cacheHeap h' ! p) = la \<and> \<not> lim_Revoked (limitOf (cacheHeap h' ! p) h')"
  using assms
  by (auto simp: getUser_def linked_def permission_def lookupLimit_def loggerLimiter_def storeCache_def limitOf_def nth_append
      split: option.splits if_splits prod.splits)

lemma getUser_permission:
  assumes "linked uuid la n h" "permission uuid la n h = Some u" "\<not> lim_Revoked u"
    "\<forall>p. map_of (cache_users n) uuid = Some p \<longrightarrow> \<not> lim_Revoked (limitOf (cacheHeap h ! p) h)"
  shows "\<exists>p n' h'. getUser uuid n h = (Some p, n', h')"
  using assms
  by (auto simp: getUser_def linked_def permission_def lookupLimit_def loggerLimiter_def storeCache_def
      split: option.splits prod.splits)

lemma getUser_counted:
  assumes "counter_ok (node_counter n, storageHeap h)" "getUser uuid n h = (r, n', h')"
  shows "counted (node_counter n', storageHeap h') k = counted (node_counter n, storageHeap h) k"
  using assms(2)
  by (rule_tac GetCounter_spec [OF assms(1), where k = uuid])
    (auto simp: getUser_def storeCache_def split: option.splits if_splits)

lemma mayCount_storage [simp]: "storageHeap (snd (mayCount p h)) = storageHeap h"
  by (simp add: mayCount_def setLimit_def Let_def)

text \<open>A revoked or marked user is refused and nothing is counted; any other user is served.\<close>

lemma LogTraffic_refused:
  assumes "linked uuid la n h" "counter_ok (node_counter n, storageHeap h)"
    "\<forall>u. permission uuid la n h = Some u \<longrightarrow> lim_Revoked u \<or> lim_OverLimit u"
    "LogTraffic uuid tx rx n h = (r, n', h')"
  shows "\<not> r \<and> (\<forall>k. counted (node_counter n', storageHeap h') k = counted (node_counter n, storageHeap h) k)"
proof -
  obtain q n1 h1 where g: "getUser uuid n h = (q, n1, h1)" by (rule prod_cases3)
  note c = getUser_counted [OF assms(2) g]
  show ?thesis
  proof (cases q)
    case None
    with g c assms(4) show ?thesis by (simp add: LogTraffic_def)
  next
    case (Some p)
    then have "lim_OverLimit (limitOf (cacheHeap h1 ! p) h1)" using getUser_linked [OF assms(1), of p n1 h1] g assms(3) by auto
    then have "\<not> fst (mayCount p h1)" by (simp add: mayCount_def Let_def)
    then obtain h2 where m: "mayCount p h1 = (False, h2)" by (metis prod.collapse)
    with g Some assms(4) have "\<not> r" "n' = n1" "h' = h2" by (auto simp: LogTraffic_def)
    then show ?thesis using c mayCount_storage [of p h1] m by simp
  qed
qed

lemma LogTraffic_served:
  assumes "linked uuid la n h" "permission uuid la n h = Some u" "\<not> lim_Revoked u" "\<not> lim_OverLimit u"
    "\<forall>p. map_of (cache_users n) uuid = Some p \<longrightarrow> \<not> lim_Revoked (limitOf (cacheHeap h ! p) h)"
  shows "fst (LogTraffic uuid tx rx n h)"
proof -
  obtain p n' h' where g: "getUser uuid n h = (Some p, n', h')" using getUser_permission [OF assms(1-3,5)] by blast
  with getUser_linked [OF assms(1) g] assms(2,4) have "mayCount p h' = (True, h')" by (simp add: mayCount_def Let_def)
  with g show ?thesis by (simp add: LogTraffic_def)
qed

section \<open>From the check to the mark\<close>

lemma check_cases:
  assumes "node_limiter n = Some la" "handleEvent now addr uuid ev n h = (n', h')" "checks ev"
  obtains (cached) r where "cachedDecision now addr uuid n = Some r" "n' = n"
      "h' = (if r then setLimiterOverLimit la (UserTag (node_tag n) uuid) True h else h)"
    | (fresh) b l where "cachedDecision now addr uuid n = None" "cache_users n' = cache_users n" "node_tag n' = node_tag n"
      "node_limiter n' = node_limiter n" "node_counter n' = node_counter n"
      "CheckLimit (now div 10 ^ 9) (UserTag (node_tag n) uuid) (extractIPFromAddr addr) (addrNetwork addr = ''tcp'')
         (limiters h ! la) = ((b, freshDecision now addr uuid n h), l)"
      "h' = setLimiterOverLimit la (UserTag (node_tag n) uuid) (freshDecision now addr uuid n h)
         (h\<lparr>limiters := (limiters h)[la := l]\<rparr>)"
proof (cases "cachedDecision now addr uuid n")
  case (Some r)
  then show ?thesis
    using assms cached
    by (auto simp: handleEvent_def checkLimit_def cachedDecision_def setUserOverLimit_def loggerLimiter_def Let_def
        split: option.splits if_splits)
next
  case None
  let ?t = "UserTag (node_tag n) uuid"
  obtain b r l where c: "CheckLimit (now div 10 ^ 9) ?t (extractIPFromAddr addr) (addrNetwork addr = ''tcp'') (limiters h ! la) = ((b, r), l)"
    by (metis surj_pair)
  then have r: "freshDecision now addr uuid n h = r" using assms(1) by (simp add: freshDecision_def loggerLimiter_def)
  from assms None obtain n1 where n1: "freshCheck now ?t (extractIPFromAddr addr) (addrNetwork addr) n1 h = (n', h')"
      "\<exists>lc. n1 = n\<lparr>limitCache := lc\<rparr>"
    by (auto simp: handleEvent_def checkLimit_def cachedDecision_def Let_def split: option.splits if_splits)
      (metis hy2Node.surjective hy2Node.update_convs(6))
  then show ?thesis
    using fresh [OF None] c r assms(1) by (auto simp: freshCheck_def loggerLimiter_def sweepLimitCache_def)
qed

lemma mark_linked:
  assumes "linked uuid la n h"
  shows "linked uuid la n (setLimiterOverLimit la t r h)"
    "permission uuid la n (setLimiterOverLimit la (UserTag (node_tag n) uuid) r h) =
       map_option (\<lambda>u. u\<lparr>lim_OverLimit := r\<rparr>) (permission uuid la n h)"
    "tc_limiter c = la \<Longrightarrow> lim_Revoked (limitOf c (setLimiterOverLimit la t r h)) = lim_Revoked (limitOf c h)"
  using assms
  by (auto simp: linked_def permission_def setLimiterOverLimit_def setLimit_def limitOf_def nth_list_update split: option.splits)

lemma same_permissions_linked:
  assumes "linked uuid la n h" "same_permissions (limiters h ! la) l"
  shows "linked uuid la n (h\<lparr>limiters := (limiters h)[la := l]\<rparr>)"
  using assms by (auto simp: linked_def same_permissions_def limitOf_def)

lemma handleEvent_linked:
  assumes "linked uuid la n h" "handleEvent now addr uuid' ev n h = (n', h')"
  shows "linked uuid la n' h' \<and> node_tag n' = node_tag n \<and> node_counter n' = node_counter n \<and>
    cache_users n' = cache_users n \<and> storageHeap h' = storageHeap h \<and> cacheHeap h' = cacheHeap h"
proof (cases "checks ev")
  case True
  have la: "node_limiter n = Some la" using assms(1) by (simp add: linked_def)
  from la assms(2) True show ?thesis
  proof (cases rule: check_cases)
    case (cached r)
    then show ?thesis using assms(1) mark_linked(1) [OF assms(1)]
      by (simp add: setLimiterOverLimit_def setLimit_def split: option.split)
  next
    case (fresh b l)
    note l = same_permissions_linked [OF assms(1) CheckLimit_same [OF fresh(6)]]
    from mark_linked(1) [OF l] fresh(1-5) show ?thesis unfolding fresh(7)
      by (simp add: linked_def setLimiterOverLimit_def setLimit_def split: option.split)
  qed
qed (use assms in \<open>simp add: handleEvent_def\<close>)

lemma handleEvent_revoked:
  assumes "linked uuid la n h" "handleEvent now addr uuid' ev n h = (n', h')" "map_of (cache_users n) uuid = Some p"
  shows "lim_Revoked (limitOf (cacheHeap h ! p) h') = lim_Revoked (limitOf (cacheHeap h ! p) h)"
proof (cases "checks ev")
  case True
  have la: "node_limiter n = Some la" "la < length (limiters h)" "tc_limiter (cacheHeap h ! p) = la"
      "tc_limit (cacheHeap h ! p) < length (infos (limiters h ! la))"
    using assms(1,3) by (auto simp: linked_def)
  from la(1) assms(2) True show ?thesis
  proof (cases rule: check_cases)
    case (cached r)
    then show ?thesis using mark_linked(3) [OF assms(1) la(3)] by simp
  next
    case (fresh b l)
    note same = CheckLimit_same [OF fresh(6)]
    show ?thesis unfolding fresh(7) mark_linked(3) [OF same_permissions_linked [OF assms(1) same] la(3)]
      using same la by (simp add: limitOf_def same_permissions_def)
  qed
qed (use assms in \<open>simp add: handleEvent_def\<close>)

lemma rejected_marked:
  assumes "linked uuid la n h" "checks ev" "rejects now addr uuid n h" "handleEvent now addr uuid ev n h = (n', h')"
  shows "\<forall>u. permission uuid la n' h' = Some u \<longrightarrow> lim_OverLimit u"
proof -
  have la: "node_limiter n = Some la" using assms(1) by (simp add: linked_def)
  from la assms(4,2) show ?thesis
  proof (cases rule: check_cases)
    case (cached r)
    then show ?thesis using assms(3) mark_linked(2) [OF assms(1)] by (auto simp: rejects_def)
  next
    case (fresh b l)
    note l = same_permissions_linked [OF assms(1) CheckLimit_same [OF fresh(6)]]
    have "freshDecision now addr uuid n h" using fresh(1) assms(3) by (simp add: rejects_def)
    then show ?thesis unfolding fresh(7) using mark_linked(2) [OF l] fresh(3) by (auto simp: permission_def)
  qed
qed

lemma accepted_cleared:
  assumes "linked uuid la n h" "checks ev" "cachedDecision now addr uuid n = None" "\<not> freshDecision now addr uuid n h"
    "handleEvent now addr uuid ev n h = (n', h')"
  shows "\<exists>u. permission uuid la n' h' = Some u \<and> \<not> lim_OverLimit u \<and> \<not> lim_Revoked u"
proof -
  have la: "node_limiter n = Some la" using assms(1) by (simp add: linked_def)
  from la assms(5,2) show ?thesis
  proof (cases rule: check_cases)
    case (fresh b l)
    note same = CheckLimit_same [OF fresh(6)]
    note l = same_permissions_linked [OF assms(1) same]
    obtain a where "map_of (UserLimits (limiters h ! la)) (UserTag (node_tag n) uuid) = Some a"
        "\<not> lim_Revoked (info_at (limiters h ! la) a)"
      using fresh(6) assms(4) by (cases rule: CheckLimit_cases) auto
    then have "\<exists>u. permission uuid la n (h\<lparr>limiters := (limiters h)[la := l]\<rparr>) = Some u \<and> \<not> lim_Revoked u"
      using assms(1) same by (auto simp: permission_def same_permissions_def linked_def)
    then show ?thesis unfolding fresh(7) using mark_linked(2) [OF l] fresh(3) assms(4) by (auto simp: permission_def)
  qed (use assms(3) in simp)
qed

section \<open>Properties\<close>


text \<open>
  The mark belongs to the user and not to the connection: a new check that accepts another address
  of the same user removes it, so that the traffic of the rejected connection is let through.
\<close>

lemma over_limit_mark_shared:
  assumes "creach tag users alive s" "checks ev" "checks ev'"
    and "\<forall>p. cachedPtr s uuid = Some p \<longrightarrow> \<not> lim_Revoked (limitOf (ptr s p) (c_heap s))"
    and "rejects now bad uuid (c_node s) (c_heap s)" "handleEvent now bad uuid ev (c_node s) (c_heap s) = (n, h)"
    and "cachedDecision now good uuid n = None" "\<not> freshDecision now good uuid n h"
    and "handleEvent now good uuid ev' n h = (n', h')"
  shows "fst (LogTraffic uuid tx rx n' h')"
proof -
  note l = linked_reachable [OF assms(1), of uuid]
  note h = handleEvent_linked [OF l assms(6)]
  note h' = handleEvent_linked [OF conjunct1 [OF h] assms(9)]
  obtain u where u: "permission uuid (c_la s) n' h' = Some u" "\<not> lim_OverLimit u" "\<not> lim_Revoked u"
    using accepted_cleared [OF conjunct1 [OF h] assms(3,7,8,9)] by blast
  show ?thesis
  proof (rule LogTraffic_served [OF conjunct1 [OF h'] u(1,3,2)])
    show "\<forall>p. map_of (cache_users n') uuid = Some p \<longrightarrow> \<not> lim_Revoked (limitOf (cacheHeap h' ! p) h')"
      using assms(4) h h' handleEvent_revoked [OF l assms(6)] handleEvent_revoked [OF conjunct1 [OF h] assms(9)] by simp
  qed
qed

section \<open>A run\<close>

text \<open>
  A user with one device, which the panel has counted already: the known address 10.0.0.2 is
  accepted, the address 10.0.0.1 is not.
\<close>

definition limUser :: UserInfo where
  "limUser = \<lparr>user_Id = 7, user_Uuid = ''u'', user_SpeedLimit = 0, user_DeviceLimit = 1\<rparr>"

definition limStart :: conc where
  "limStart = cstart ''n'' [limUser] [(7, 1)]"

definition limRun :: conc where
  "limRun = (let s = limStart\<lparr>c_node := addAuth limUser (c_node limStart), c_uids := (c_uids limStart)(''u'' := 7)\<rparr> in
     setLim ((lm s)\<lparr>OldUserOnline := [(''10.0.0.2'', 7)]\<rparr>) s)"

lemmas limRun_eval = limRun_def limStart_def limUser_def cstart_def addAuth_def ForgetUser_def AddLimiter_def newInfo_def Let_def

lemmas check_eval = rejects_def cachedDecision_def freshDecision_def loggerLimiter_def CheckLimit_def currentLimit_def
  recordDevice_def aliveOf_def trimPrefix_def UserTag_def determineSpeedLimit_def speedBucket_def

lemma limRun_reach: "creach ''n'' [limUser] [(7, 1)] limRun"
proof -
  let ?s = "limStart\<lparr>c_node := addAuth limUser (c_node limStart), c_uids := (c_uids limStart)(user_Uuid limUser := user_Id limUser)\<rparr>"
  have "cstep limStart ?s" by (rule cstep.admit) (simp_all add: limStart_def limUser_def cstart_def)
  then have "creach ''n'' [limUser] [(7, 1)] ?s" using creach.start creach.step by (metis limStart_def)
  moreover have "cstep ?s (setLim ((lm ?s)\<lparr>OldUserOnline := [(''10.0.0.2'', 7)]\<rparr>) ?s)"
    by (rule cstep.tune) (simp add: same_permissions_def)
  ultimately show ?thesis unfolding limRun_def Let_def using creach.step by (simp add: limUser_def)
qed

lemma limRun_rejects: "rejects 0 (UDPAddr ''10.0.0.1'') ''u'' (c_node limRun) (c_heap limRun)"
  by (simp add: check_eval limRun_eval)


lemma limRun_after:
  obtains n h where "handleEvent 0 (UDPAddr ''10.0.0.1'') ''u'' UDPRequest (c_node limRun) (c_heap limRun) = (n, h)"
    "cachedDecision 0 (UDPAddr ''10.0.0.2'') ''u'' n = None" "\<not> freshDecision 0 (UDPAddr ''10.0.0.2'') ''u'' n h"
proof (rule that [OF prod.collapse [symmetric]])
  let ?x = "handleEvent 0 (UDPAddr ''10.0.0.1'') ''u'' UDPRequest (c_node limRun) (c_heap limRun)"
  show "cachedDecision 0 (UDPAddr ''10.0.0.2'') ''u'' (fst ?x) = None"
    by (simp add: handleEvent_def checkLimit_def freshCheck_def sweepLimitCache_def cacheKey_def check_eval limRun_eval limitCheckCacheTTL_def)
  show "\<not> freshDecision 0 (UDPAddr ''10.0.0.2'') ''u'' (fst ?x) (snd ?x)"
    by (simp add: handleEvent_def checkLimit_def freshCheck_def sweepLimitCache_def cacheKey_def setLimiterOverLimit_def setLimit_def
        check_eval limRun_eval limitCheckCacheTTL_def)
qed

lemma over_limit_mark_shared_example:
  "\<exists>n h n' h'. handleEvent 0 (UDPAddr ''10.0.0.1'') ''u'' UDPRequest (c_node limRun) (c_heap limRun) = (n, h) \<and>
     handleEvent 0 (UDPAddr ''10.0.0.2'') ''u'' UDPRequest n h = (n', h') \<and> fst (LogTraffic ''u'' 3 4 n' h')"
proof -
  obtain n h where x: "handleEvent 0 (UDPAddr ''10.0.0.1'') ''u'' UDPRequest (c_node limRun) (c_heap limRun) = (n, h)"
    "cachedDecision 0 (UDPAddr ''10.0.0.2'') ''u'' n = None" "\<not> freshDecision 0 (UDPAddr ''10.0.0.2'') ''u'' n h"
    by (rule limRun_after)
  obtain n' h' where y: "handleEvent 0 (UDPAddr ''10.0.0.2'') ''u'' UDPRequest n h = (n', h')" by fastforce
  have "\<forall>p. cachedPtr limRun ''u'' = Some p \<longrightarrow> \<not> lim_Revoked (limitOf (ptr limRun p) (c_heap limRun))"
    by (simp add: limRun_eval)
  from over_limit_mark_shared [OF limRun_reach _ _ this limRun_rejects x y] x(1) y show ?thesis by auto
qed

end
