(* ===== verification/Receive_Buffer.thy ===== *)
theory Receive_Buffer
  imports Outbox Go_Strings
begin

text \<open>
  The receive buffer of the listening socket (\<open>core/officialhy2/socket_buffer.go\<close> and
  \<open>socket_buffer_linux.go\<close>). The calls of the operating system are the fields of a record over an
  arbitrary state of the socket; what they promise on Linux is the predicate \<open>linux_buffer\<close>.
\<close>

section \<open>Operations\<close>

record 'k sockEnv =
  so_raw :: "'k \<Rightarrow> goerr option"
  so_control :: "'k \<Rightarrow> goerr option"
  so_getRcvbuf :: "'k \<Rightarrow> int \<times> goerr option"
  so_rmemMax :: "'k \<Rightarrow> string option"
  so_setReadBuffer :: "int \<Rightarrow> 'k \<Rightarrow> goerr option \<times> 'k"
  so_setRcvbufForce :: "int \<Rightarrow> 'k \<Rightarrow> goerr option \<times> 'k"

definition udpReceiveBufferRequest :: int where
  "udpReceiveBufferRequest = 32 * 1024 * 1024"

definition udpReceiveBufferSize :: "'k sockEnv \<Rightarrow> 'k \<Rightarrow> int \<times> goerr option" where
  "udpReceiveBufferSize env k =
     (case so_raw env k of Some e \<Rightarrow> (0, Some e)
      | None \<Rightarrow> (case so_control env k of Some e \<Rightarrow> (0, Some e) | None \<Rightarrow> so_getRcvbuf env k))"

text \<open>The limit of the system in force: \<open>None\<close> when the file is unreadable, not a number or not positive.\<close>

definition systemCap :: "'k sockEnv \<Rightarrow> 'k \<Rightarrow> int option" where
  "systemCap env k =
     (case Option.bind (so_rmemMax env k) (\<lambda>data. parseInt64 (trimSpace data)) of
        None \<Rightarrow> None | Some c \<Rightarrow> if c > 0 then Some c else None)"

definition belowTarget :: "int \<Rightarrow> int \<Rightarrow> string" where
  "belowTarget actual requested =
     ''receive buffer is '' @ itoa actual @ '' bytes, target '' @ itoa (wrap64 (requested * 2))"

text \<open>The second half: raise the limit of this socket only, and read the size again.\<close>

definition forceBuffer :: "'k sockEnv \<Rightarrow> int \<Rightarrow> int \<Rightarrow> 'k \<Rightarrow> (int \<times> goerr option) \<times> 'k" where
  "forceBuffer env requested actual k =
     (case so_raw env k of Some e \<Rightarrow> ((actual, Some e), k)
      | None \<Rightarrow>
          (case so_control env k of Some e \<Rightarrow> ((actual, Some e), k)
           | None \<Rightarrow>
               (case so_setRcvbufForce env requested k of
                  (Some e, k) \<Rightarrow> ((actual, Some (Wrap (belowTarget actual requested) e)), k)
                | (None, k) \<Rightarrow>
                    (case udpReceiveBufferSize env k of
                       (actual, Some e) \<Rightarrow> ((actual, Some e), k)
                     | (actual, None) \<Rightarrow>
                         ((actual, if actual < wrap64 (requested * 2) then Some (Err (belowTarget actual requested)) else None), k)))))"

text \<open>The first half: ask for the size within the limit of the system.\<close>

definition setReadBuffer :: "'k sockEnv \<Rightarrow> int \<Rightarrow> int \<Rightarrow> 'k \<Rightarrow> (int \<times> goerr option) \<times> 'k" where
  "setReadBuffer env requested before k =
     (case so_setReadBuffer env requested k of
        (Some e, k) \<Rightarrow> ((before, Some e), k)
      | (None, k) \<Rightarrow>
          (case udpReceiveBufferSize env k of
             (actual, Some e) \<Rightarrow> ((actual, Some e), k)
           | (actual, None) \<Rightarrow>
               (if actual \<ge> wrap64 (requested * 2) then ((actual, None), k) else forceBuffer env requested actual k)))"

definition setUDPReceiveBuffer :: "'k sockEnv \<Rightarrow> int \<Rightarrow> 'k \<Rightarrow> (int \<times> goerr option) \<times> 'k" where
  "setUDPReceiveBuffer env requested k =
     (case udpReceiveBufferSize env k of
        (_, Some e) \<Rightarrow> ((0, Some e), k)
      | (before, None) \<Rightarrow>
          (let target = wrap64 (requested * 2) in
           if before \<ge> target then ((before, None), k)
           else (case systemCap env k of
               None \<Rightarrow> forceBuffer env requested before k
             | Some cap \<Rightarrow>
                 (if wrap64 (min requested cap * 2) > before
                  then setReadBuffer env requested before k
                  else forceBuffer env requested before k))))"

text \<open>\<open>prepareUDPReceiveBuffer\<close> only logs the outcome: the listener is kept in every case.\<close>

definition prepareUDPReceiveBuffer :: "'k sockEnv \<Rightarrow> 'k \<Rightarrow> 'k" where
  "prepareUDPReceiveBuffer env k = snd (setUDPReceiveBuffer env udpReceiveBufferRequest k)"

section \<open>Linux\<close>

text \<open>
  The documented behaviour of the socket options, for the true size of the buffer and a limit of
  the system that stays the same: a successful read gives the size, \<open>SO_RCVBUF\<close> sets twice the
  requested value, capped by the limit of the system but not below a minimum, \<open>SO_RCVBUFFORCE\<close>
  does so without the cap, and a failing option changes nothing.
\<close>

definition linux_buffer :: "'k sockEnv \<Rightarrow> ('k \<Rightarrow> int) \<Rightarrow> int \<Rightarrow> int \<Rightarrow> bool" where
  "linux_buffer env bufsize cap low \<longleftrightarrow>
     (\<forall>k n. so_getRcvbuf env k = (n, None) \<longrightarrow> n = bufsize k) \<and>
     (\<forall>k s. so_rmemMax env k = Some s \<longrightarrow> parseInt64 (trimSpace s) = Some cap) \<and>
     (\<forall>r k k'. so_setReadBuffer env r k = (None, k') \<longrightarrow> bufsize k' = max (2 * min r cap) low) \<and>
     (\<forall>r k k'. so_setRcvbufForce env r k = (None, k') \<longrightarrow> bufsize k' = max (2 * r) low) \<and>
     (\<forall>r k e k'. so_setReadBuffer env r k = (Some e, k') \<or> so_setRcvbufForce env r k = (Some e, k') \<longrightarrow> bufsize k' = bufsize k)"

lemma read_size:
  assumes "linux_buffer env bufsize cap low" "udpReceiveBufferSize env k = (n, None)"
  shows "n = bufsize k"
  using assms by (auto simp: udpReceiveBufferSize_def linux_buffer_def split: option.splits)

lemma systemCap_linux:
  assumes "linux_buffer env bufsize cap low" "systemCap env k = Some c"
  shows "c = cap"
  using assms by (auto simp: systemCap_def linux_buffer_def split: option.splits if_splits Option.bind_splits)

definition good_outcome :: "('k \<Rightarrow> int) \<Rightarrow> int \<Rightarrow> 'k \<Rightarrow> (int \<times> goerr option) \<times> 'k \<Rightarrow> bool" where
  "good_outcome bufsize requested k r \<longleftrightarrow>
     bufsize k \<le> bufsize (snd r) \<and> (snd (fst r) = None \<longrightarrow> fst (fst r) = bufsize (snd r) \<and> 2 * requested \<le> bufsize (snd r))"

lemma good_outcome_trans: "bufsize k0 \<le> bufsize k \<Longrightarrow> good_outcome bufsize requested k r \<Longrightarrow> good_outcome bufsize requested k0 r"
  by (auto simp: good_outcome_def)

lemma forceBuffer_good:
  assumes "linux_buffer env bufsize cap low" "bufsize k < 2 * requested" "in_int64 (requested * 2)"
  shows "good_outcome bufsize requested k (forceBuffer env requested actual k)"
proof (cases "so_setRcvbufForce env requested k")
  case (Pair res k')
  then have "bufsize k \<le> bufsize k'" "res = None \<Longrightarrow> 2 * requested \<le> bufsize k'"
    using assms(1,2) by (cases res; fastforce simp: linux_buffer_def)+
  with Pair read_size [OF assms(1), of k'] assms(3) show ?thesis
    by (auto simp: forceBuffer_def good_outcome_def split: option.splits prod.splits)
qed

text \<open>
  The buffer never gets smaller, whatever fails on the way, and without an error it has the target
  size, which is also the size returned.
\<close>

theorem receive_buffer_grows:
  assumes "linux_buffer env bufsize cap low" "in_int64 (requested * 2)" "in_int64 (min requested cap * 2)"
  shows "good_outcome bufsize requested k (setUDPReceiveBuffer env requested k)"
proof -
  have w: "wrap64 (requested * 2) = 2 * requested" "wrap64 (min requested cap * 2) = 2 * min requested cap"
    using assms(2,3) by simp_all
  obtain before err where b: "udpReceiveBufferSize env k = (before, err)" by fastforce
  show ?thesis
  proof (cases "err = None \<and> before < 2 * requested")
    case False
    with b w read_size [OF assms(1), of k before] show ?thesis
      by (cases err) (auto simp: setUDPReceiveBuffer_def good_outcome_def)
  next
    case True
    note before = read_size [OF assms(1) b [unfolded conjunct1 [OF True]]]
    show ?thesis
    proof (cases "systemCap env k = Some cap \<and> before < 2 * min requested cap")
      case False
      then have "setUDPReceiveBuffer env requested k = forceBuffer env requested before k"
        using True b w systemCap_linux [OF assms(1), of k] by (cases "systemCap env k") (auto simp: setUDPReceiveBuffer_def)
      with True before forceBuffer_good [OF assms(1) _ assms(2), of k] show ?thesis by simp
    next
      case set: True
      obtain res k' where s: "so_setReadBuffer env requested k = (res, k')" by fastforce
      then have grow: "bufsize k \<le> bufsize k'" using assms(1) set before by (cases res) (fastforce simp: linux_buffer_def)+
      have "setUDPReceiveBuffer env requested k = setReadBuffer env requested before k"
        using True set b w s by (simp add: setUDPReceiveBuffer_def)
      then show ?thesis
        using s grow w read_size [OF assms(1), of k'] good_outcome_trans [OF grow forceBuffer_good [OF assms(1) _ assms(2)]]
        by (auto simp: setReadBuffer_def good_outcome_def split: option.splits prod.splits)
    qed
  qed
qed

text \<open>A kernel with a limit of 212992 bytes on which the process may not raise the limit of a socket.\<close>

definition plainKernel :: "int sockEnv" where
  "plainKernel = \<lparr>so_raw = (\<lambda>k. None), so_control = (\<lambda>k. None), so_getRcvbuf = (\<lambda>k. (k, None)),
     so_rmemMax = (\<lambda>k. Some ''212992''), so_setReadBuffer = (\<lambda>r k. (None, max (2 * min r 212992) 2304)),
     so_setRcvbufForce = (\<lambda>r k. (Some (Err ''operation not permitted''), k))\<rparr>"

lemma parse_cap: "parseInt64 (trimSpace ''212992'') = Some 212992"
  by (simp add: parseInt64_def parseNat_def digitVal_def trimSpace_def spaceChar_def in_int64_def)

lemma receive_buffer_grows_example:
  "212992 \<le> prepareUDPReceiveBuffer plainKernel 212992"
proof -
  have "linux_buffer plainKernel (\<lambda>k. k) 212992 2304" by (simp add: linux_buffer_def plainKernel_def parse_cap)
  moreover have "in_int64 (udpReceiveBufferRequest * 2)" "in_int64 (min udpReceiveBufferRequest 212992 * 2)"
    by (simp_all add: in_int64_def udpReceiveBufferRequest_def)
  ultimately have "good_outcome (\<lambda>k. k) udpReceiveBufferRequest 212992 (setUDPReceiveBuffer plainKernel udpReceiveBufferRequest 212992)"
    by (rule receive_buffer_grows)
  then show ?thesis unfolding good_outcome_def prepareUDPReceiveBuffer_def by blast
qed

end
