(* ===== verification/Node_Info.thy ===== *)
theory Node_Info
  imports Panel_Client
begin

text \<open>
  The node description that the panel sends (\<open>api/v2board/node.go\<close>) and the decision whether a
  new description needs a restart of the core (\<open>node/task.go\<close>). Decoding of JSON is a parameter
  (\<open>codec\<close>); slices that the code compares with \<open>reflect.DeepEqual\<close> keep the difference between
  nil and empty. Durations are in nanoseconds.
\<close>

section \<open>Data\<close>

type_synonym 'a slice = "'a list option"

definition elems :: "'a slice \<Rightarrow> 'a list" where
  "elems s = (case s of None \<Rightarrow> [] | Some xs \<Rightarrow> xs)"

definition Tls_security :: int where
  "Tls_security = 1"

text \<open>
  An \<open>any\<close> value: a signed or unsigned integer of any width, a float (with the result of its
  conversion to \<open>int64\<close>, which Go leaves to the platform out of range), a string, or another
  type.
\<close>

datatype anyval = AnyInt int | AnyUint u64 | AnyFloat int | AnyString string | AnyOther

record Route =
  route_Id :: int
  route_Match :: "string slice"
  route_Action :: string
  route_ActionValue :: "string option"

record BaseConfig =
  base_PushInterval :: anyval
  base_PullInterval :: anyval
  base_DeviceOnlineMinTraffic :: int
  base_NodeReportMinTraffic :: int

record TlsSettings =
  tls_ServerName :: string
  tls_ServerNames :: "string slice"
  tls_CertMode :: string
  tls_CertFile :: string
  tls_KeyFile :: string
  tls_TlsCert :: string
  tls_TlsKey :: string
  tls_Provider :: string
  tls_DNSEnv :: string
  tls_RejectUnknownSni :: string

record CertInfo =
  cert_CertMode :: string
  cert_CertFile :: string
  cert_KeyFile :: string
  cert_TlsCert :: string
  cert_TlsKey :: string
  cert_Email :: string
  cert_CertDomain :: string
  cert_DNSEnv :: "(string, string) gomap"
  cert_Provider :: string
  cert_RejectUnknownSni :: bool

record CommonNode =
  cm_Protocol :: string
  cm_ListenIP :: string
  cm_ServerPort :: int
  cm_Routes :: "Route slice"
  cm_BaseConfig :: "BaseConfig option"
  cm_Tls :: int
  cm_TlsSettings :: TlsSettings
  cm_CertInfo :: "CertInfo option"
  cm_UpMbps :: int
  cm_DownMbps :: int
  cm_Obfs :: string
  cm_ObfsPassword :: string
  cm_Ignore_Client_Bandwidth :: bool

record NodeInfo =
  info_etag :: string
  info_bodyHash :: string
  info_Id :: int
  info_Type :: string
  info_Security :: int
  info_PushInterval :: int
  info_PullInterval :: int
  info_Tag :: string
  info_Common :: "CommonNode option"

record 'b codec =
  blank_body :: "'b \<Rightarrow> bool"
  unjson_common :: "'b \<Rightarrow> CommonNode option"

section \<open>Intervals\<close>

abbreviation second :: int where
  "second \<equiv> 10 ^ 9"

definition defaultPanelPushInterval :: int where
  "defaultPanelPushInterval = 60 * second"

definition defaultPanelPullInterval :: int where
  "defaultPanelPullInterval = 60 * second"

definition minPanelInterval :: int where
  "minPanelInterval = 5 * second"

definition intervalSeconds :: "anyval \<Rightarrow> int option" where
  "intervalSeconds i =
     (case i of
        AnyInt v \<Rightarrow> Some v
      | AnyUint v \<Rightarrow> (if v > 2 ^ 63 - 1 then None else Some (int64_of_u64 v))
      | AnyFloat v \<Rightarrow> Some v
      | AnyString v \<Rightarrow> parseInt64 (trimSpace v)
      | AnyOther \<Rightarrow> None)"

definition intervalToTime :: "anyval \<Rightarrow> int \<Rightarrow> int" where
  "intervalToTime i fallback =
     (case intervalSeconds i of
        None \<Rightarrow> fallback
      | Some seconds \<Rightarrow>
          (if seconds \<le> 0 then fallback
           else (let interval = wrap64 (seconds * second) in
                 if interval < minPanelInterval then minPanelInterval else interval)))"

section \<open>Reading the description\<close>

definition EffectiveServerNames :: "TlsSettings \<Rightarrow> string slice" where
  "EffectiveServerNames t =
     (if elems (tls_ServerNames t) \<noteq> [] then tls_ServerNames t
      else if tls_ServerName t = [] then None
      else Some [tls_ServerName t])"

definition PrimaryServerName :: "TlsSettings \<Rightarrow> string" where
  "PrimaryServerName t = (case elems (EffectiveServerNames t) of [] \<Rightarrow> [] | n # _ \<Rightarrow> n)"

definition dnsEnv :: "string \<Rightarrow> (string, string) gomap" where
  "dnsEnv s =
     fold (\<lambda>env m. case splitN2 (CHR ''='') env of [k, v] \<Rightarrow> AList.update k v m | _ \<Rightarrow> m)
       (splitOn (CHR '','') s) []"

text \<open>\<open>filepath.Join("/etc/v2node/", protocol + id + ending)\<close>; the protocol is \<open>hysteria2\<close> here.\<close>

definition certPath :: "CommonNode \<Rightarrow> int \<Rightarrow> string \<Rightarrow> string" where
  "certPath cm nodeId ending = ''/etc/v2node/'' @ cm_Protocol cm @ itoa nodeId @ ending"

definition certInfo :: "CommonNode \<Rightarrow> int \<Rightarrow> CertInfo" where
  "certInfo cm nodeId =
     (let t = cm_TlsSettings cm;
          cf = (if tls_CertFile t = [] then certPath cm nodeId ''.cer'' else tls_CertFile t);
          kf = (if tls_KeyFile t = [] then certPath cm nodeId ''.key'' else tls_KeyFile t)
      in \<lparr>cert_CertMode = tls_CertMode t, cert_CertFile = cf, cert_KeyFile = kf,
          cert_TlsCert = (if tls_CertMode t = ''remote'' then tls_TlsCert t else []),
          cert_TlsKey = (if tls_CertMode t = ''remote'' then tls_TlsKey t else []),
          cert_Email = ''node@v2board.com'', cert_CertDomain = PrimaryServerName t,
          cert_DNSEnv = (if tls_CertMode t = ''dns'' \<and> tls_DNSEnv t \<noteq> [] then dnsEnv (tls_DNSEnv t) else []),
          cert_Provider = tls_Provider t, cert_RejectUnknownSni = (tls_RejectUnknownSni t = ''1'')\<rparr>)"

definition defaultBase :: BaseConfig where
  "defaultBase =
     \<lparr>base_PushInterval = AnyFloat 60, base_PullInterval = AnyFloat 60, base_DeviceOnlineMinTraffic = 0,
      base_NodeReportMinTraffic = 0\<rparr>"

definition nodeTag :: "string \<Rightarrow> string \<Rightarrow> int \<Rightarrow> string" where
  "nodeTag host ty i = ''['' @ host @ '']-'' @ ty @ '':'' @ itoa i"

definition buildNodeInfo :: "string \<Rightarrow> int \<Rightarrow> string \<Rightarrow> string \<Rightarrow> CommonNode \<Rightarrow> goerr + NodeInfo" where
  "buildNodeInfo host nodeId etag hash cm =
     (if cm_Protocol cm \<noteq> ''hysteria2'' then Inl (Err (''unsupport protocol: '' @ cm_Protocol cm))
      else if cm_ServerPort cm < 1 \<or> cm_ServerPort cm > 65535 \<or> cm_UpMbps cm < 0 \<or> cm_DownMbps cm < 0
      then Inl (Err ''invalid HY2 port or bandwidth'')
      else (let base = (case cm_BaseConfig cm of None \<Rightarrow> defaultBase | Some b \<Rightarrow> b) in
        Inr \<lparr>info_etag = etag, info_bodyHash = hash, info_Id = nodeId, info_Type = cm_Protocol cm,
             info_Security = cm_Tls cm,
             info_PushInterval = intervalToTime (base_PushInterval base) defaultPanelPushInterval,
             info_PullInterval = intervalToTime (base_PullInterval base) defaultPanelPullInterval,
             info_Tag = nodeTag host (cm_Protocol cm) nodeId,
             info_Common = Some (cm\<lparr>cm_CertInfo := Some (certInfo cm nodeId), cm_BaseConfig := Some base\<rparr>)\<rparr>))"

definition GetNodeInfo ::
  "'b env \<Rightarrow> 'b codec \<Rightarrow> ('b, 'r) client \<Rightarrow> (goerr + NodeInfo option) \<times> ('b, 'r) client" where
  "GetNodeInfo env cd s =
     (let etag = nodeEtag (cache s); appliedHash = responseBodyHash (cache s) in
      bindE (request env ''GET'' ''config'' etag None s) (\<lambda>(body, nextEtag, unchanged) s.
        if unchanged then ok None s
        else (case body of
            None \<Rightarrow> fail (Err ''empty node params response'') s
          | Some b \<Rightarrow>
              (if blank_body cd b then fail (Err ''empty node params response'') s
               else if appliedHash = sha256_hex env b then ok None s
               else (case unjson_common cd b of
                   None \<Rightarrow> fail (Wrap ''decode node params error'' (Err ''json'')) s
                 | Some cm \<Rightarrow>
                     (case buildNodeInfo (APIHost s) (NodeId s) nextEtag (sha256_hex env b) cm of
                        Inl e \<Rightarrow> fail e s
                      | Inr info \<Rightarrow> ok (Some info) s))))))"

definition CommitNodeInfo :: "NodeInfo option \<Rightarrow> panelCache \<Rightarrow> panelCache" where
  "CommitNodeInfo n c =
     (case n of None \<Rightarrow> c | Some i \<Rightarrow> c\<lparr>nodeEtag := info_etag i, responseBodyHash := info_bodyHash i\<rparr>)"

section \<open>When the core has to be reloaded\<close>

record commonCoreFingerprint =
  fp_Protocol :: string
  fp_ListenIP :: string
  fp_ServerPort :: int
  fp_Routes :: "Route slice"
  fp_Tls :: int
  fp_TlsSettings :: TlsSettings
  fp_UpMbps :: int
  fp_DownMbps :: int
  fp_Obfs :: string
  fp_ObfsPassword :: string
  fp_IgnoreClientBandwidth :: bool

record nodeCoreFingerprint =
  fp_Id :: int
  fp_Type :: string
  fp_Security :: int
  fp_Tag :: string
  fp_Common :: commonCoreFingerprint

definition zeroTls :: TlsSettings where
  "zeroTls = \<lparr>tls_ServerName = [], tls_ServerNames = None, tls_CertMode = [], tls_CertFile = [], tls_KeyFile = [],
     tls_TlsCert = [], tls_TlsKey = [], tls_Provider = [], tls_DNSEnv = [], tls_RejectUnknownSni = []\<rparr>"

definition zeroFingerprint :: commonCoreFingerprint where
  "zeroFingerprint = \<lparr>fp_Protocol = [], fp_ListenIP = [], fp_ServerPort = 0, fp_Routes = None, fp_Tls = 0,
     fp_TlsSettings = zeroTls, fp_UpMbps = 0, fp_DownMbps = 0, fp_Obfs = [], fp_ObfsPassword = [],
     fp_IgnoreClientBandwidth = False\<rparr>"

definition coreReloadFingerprint :: "NodeInfo \<Rightarrow> nodeCoreFingerprint" where
  "coreReloadFingerprint n =
     \<lparr>fp_Id = info_Id n, fp_Type = info_Type n, fp_Security = info_Security n, fp_Tag = info_Tag n,
      fp_Common = (case info_Common n of None \<Rightarrow> zeroFingerprint
        | Some c \<Rightarrow>
            \<lparr>fp_Protocol = cm_Protocol c, fp_ListenIP = cm_ListenIP c, fp_ServerPort = cm_ServerPort c,
             fp_Routes = cm_Routes c, fp_Tls = cm_Tls c, fp_TlsSettings = cm_TlsSettings c,
             fp_UpMbps = cm_UpMbps c, fp_DownMbps = cm_DownMbps c, fp_Obfs = cm_Obfs c,
             fp_ObfsPassword = cm_ObfsPassword c, fp_IgnoreClientBandwidth = cm_Ignore_Client_Bandwidth c\<rparr>)\<rparr>"

definition requiresCoreReload :: "NodeInfo option \<Rightarrow> NodeInfo option \<Rightarrow> bool" where
  "requiresCoreReload oldNode newNode =
     (case (oldNode, newNode) of
        (Some a, Some b) \<Rightarrow> coreReloadFingerprint a \<noteq> coreReloadFingerprint b
      | _ \<Rightarrow> True)"

definition reloadChecks :: "nodeCoreFingerprint \<Rightarrow> nodeCoreFingerprint \<Rightarrow> (string \<times> bool) list" where
  "reloadChecks a b =
     (let c = fp_Common a; d = fp_Common b in
        [(''id'', fp_Id a \<noteq> fp_Id b), (''type'', fp_Type a \<noteq> fp_Type b),
         (''security'', fp_Security a \<noteq> fp_Security b), (''tag'', fp_Tag a \<noteq> fp_Tag b),
         (''protocol'', fp_Protocol c \<noteq> fp_Protocol d), (''listen_ip'', fp_ListenIP c \<noteq> fp_ListenIP d),
         (''server_port'', fp_ServerPort c \<noteq> fp_ServerPort d), (''routes'', fp_Routes c \<noteq> fp_Routes d),
         (''tls'', fp_Tls c \<noteq> fp_Tls d), (''tls_settings'', fp_TlsSettings c \<noteq> fp_TlsSettings d),
         (''up_mbps'', fp_UpMbps c \<noteq> fp_UpMbps d), (''down_mbps'', fp_DownMbps c \<noteq> fp_DownMbps d),
         (''obfs'', fp_Obfs c \<noteq> fp_Obfs d), (''obfs_password'', fp_ObfsPassword c \<noteq> fp_ObfsPassword d),
         (''ignore_client_bandwidth'', fp_IgnoreClientBandwidth c \<noteq> fp_IgnoreClientBandwidth d)])"

definition changedNames :: "nodeCoreFingerprint \<Rightarrow> nodeCoreFingerprint \<Rightarrow> string list" where
  "changedNames a b = map fst (filter snd (reloadChecks a b))"

definition coreReloadReasons :: "NodeInfo option \<Rightarrow> NodeInfo option \<Rightarrow> string list" where
  "coreReloadReasons oldNode newNode =
     (case (oldNode, newNode) of
        (Some a, Some b) \<Rightarrow>
          (let reasons = changedNames (coreReloadFingerprint a) (coreReloadFingerprint b) in
           if reasons = [] then [''unknown''] else reasons)
      | _ \<Rightarrow> [''node''])"

section \<open>Lemmas\<close>

lemma intervalToTime_min: "minPanelInterval \<le> fallback \<Longrightarrow> minPanelInterval \<le> intervalToTime i fallback"
  by (auto simp: intervalToTime_def Let_def split: option.splits)

lemma intervalToTime_exact:
  assumes "intervalSeconds i = Some n" "5 \<le> n" "n * second < 2 ^ 63"
  shows "intervalToTime i fallback = n * second"
  using assms by (simp add: intervalToTime_def minPanelInterval_def in_int64_def)

text \<open>C21: Task intervals are safe. Whatever the panel sends as an interval (absent, negative, not a
  number, or so large that the multiplication overflows), the node description carries push and
  pull intervals of at least five seconds.\<close>

theorem node_intervals_bounded:
  assumes "buildNodeInfo host nodeId etag hash cm = Inr info"
  shows "minPanelInterval \<le> info_PushInterval info \<and> minPanelInterval \<le> info_PullInterval info"
  using assms intervalToTime_min
  by (auto simp: buildNodeInfo_def Let_def defaultPanelPushInterval_def defaultPanelPullInterval_def minPanelInterval_def
      split: if_splits)

definition demoTls :: TlsSettings where
  "demoTls = zeroTls\<lparr>tls_ServerNames := Some [''a.example'', ''b.example''], tls_CertMode := ''dns'',
     tls_DNSEnv := ''A=1,B=2''\<rparr>"

definition demoCommon :: CommonNode where
  "demoCommon = \<lparr>cm_Protocol = ''hysteria2'', cm_ListenIP = [], cm_ServerPort = 443, cm_Routes = None,
     cm_BaseConfig = Some \<lparr>base_PushInterval = AnyInt 18446744074, base_PullInterval = AnyString '' 30 '',
       base_DeviceOnlineMinTraffic = 0, base_NodeReportMinTraffic = 0\<rparr>,
     cm_Tls = 1, cm_TlsSettings = demoTls, cm_CertInfo = None, cm_UpMbps = 100, cm_DownMbps = 100, cm_Obfs = [],
     cm_ObfsPassword = [], cm_Ignore_Client_Bandwidth = False\<rparr>"

theorem node_intervals_bounded_witness:
  "\<exists>info. buildNodeInfo ''h'' 1 ''e'' ''x'' demoCommon = Inr info \<and> minPanelInterval \<le> info_PushInterval info"
proof -
  have "\<exists>info. buildNodeInfo ''h'' 1 ''e'' ''x'' demoCommon = Inr info"
    by (simp add: buildNodeInfo_def demoCommon_def Let_def)
  with node_intervals_bounded show ?thesis by metis
qed

lemma fingerprint_common:
  assumes "coreReloadFingerprint a = coreReloadFingerprint b" "info_Common a = Some c" "info_Common b = Some d"
  shows "d = c\<lparr>cm_CertInfo := cm_CertInfo d, cm_BaseConfig := cm_BaseConfig d\<rparr>"
  using assms by (cases c; cases d) (simp add: coreReloadFingerprint_def)

lemma certInfo_base [simp]:
  "certInfo (cm\<lparr>cm_CertInfo := x\<rparr>) i = certInfo cm i" "certInfo (cm\<lparr>cm_BaseConfig := y\<rparr>) i = certInfo cm i"
  by (simp_all add: certInfo_def certPath_def Let_def)

lemma buildNodeInfo_common:
  "buildNodeInfo host i e h cm = Inr n \<Longrightarrow>
     \<exists>base. info_Common n = Some (cm\<lparr>cm_CertInfo := Some (certInfo cm i), cm_BaseConfig := Some base\<rparr>)"
  by (auto simp: buildNodeInfo_def Let_def split: if_splits)

lemma fingerprint_cert:
  assumes "buildNodeInfo host i e h cm = Inr a" "buildNodeInfo host i e' h' cm' = Inr b"
    "coreReloadFingerprint a = coreReloadFingerprint b" "info_Common a = Some c" "info_Common b = Some d"
  shows "cm_CertInfo d = cm_CertInfo c"
proof -
  obtain x where x: "c = cm\<lparr>cm_CertInfo := Some (certInfo cm i), cm_BaseConfig := Some x\<rparr>"
    using assms(4) buildNodeInfo_common [OF assms(1)] by auto
  obtain y where y: "d = cm'\<lparr>cm_CertInfo := Some (certInfo cm' i), cm_BaseConfig := Some y\<rparr>"
    using assms(5) buildNodeInfo_common [OF assms(2)] by auto
  have "cm_TlsSettings cm' = cm_TlsSettings cm" "cm_Protocol cm' = cm_Protocol cm"
    using assms(3-5) x y by (simp_all add: coreReloadFingerprint_def)
  then show ?thesis by (simp add: x y certInfo_def certPath_def Let_def)
qed

text \<open>C20: A node description is applied without a restart only when the restart would change nothing
  for the core. If two descriptions fetched for the same node do not require a reload, then the
  new one differs from the old one at most in the base configuration, the two intervals and the
  cache validators: port, addresses, routes, bandwidth, obfuscation and the certificate settings
  derived from them are the same.\<close>

theorem reload_not_required_same_core:
  assumes "buildNodeInfo host i e h cm = Inr a" "buildNodeInfo host i e' h' cm' = Inr b"
    and "\<not> requiresCoreReload (Some a) (Some b)"
  shows "b = a\<lparr>info_etag := e', info_bodyHash := h', info_PushInterval := info_PushInterval b,
      info_PullInterval := info_PullInterval b,
      info_Common := map_option (\<lambda>c. c\<lparr>cm_BaseConfig := cm_BaseConfig (the (info_Common b))\<rparr>) (info_Common a)\<rparr>"
proof -
  have fp: "coreReloadFingerprint a = coreReloadFingerprint b" using assms(3) by (simp add: requiresCoreReload_def)
  obtain c where c: "info_Common a = Some c" using buildNodeInfo_common [OF assms(1)] by blast
  obtain d where d: "info_Common b = Some d" using buildNodeInfo_common [OF assms(2)] by blast
  have "d = c\<lparr>cm_CertInfo := cm_CertInfo c, cm_BaseConfig := cm_BaseConfig d\<rparr>"
    using fingerprint_common [OF fp c d] fingerprint_cert [OF assms(1,2) fp c d] by simp
  then have "d = c\<lparr>cm_BaseConfig := cm_BaseConfig d\<rparr>" by (cases c) simp
  moreover have "info_etag b = e'" "info_bodyHash b = h'"
    using assms(2) by (auto simp: buildNodeInfo_def Let_def split: if_splits)
  moreover have "info_Id b = info_Id a \<and> info_Type b = info_Type a \<and> info_Security b = info_Security a \<and> info_Tag b = info_Tag a"
    using fp by (simp add: coreReloadFingerprint_def)
  ultimately show ?thesis using c d by (intro NodeInfo.equality) simp_all
qed

theorem reload_not_required_same_core_witness:
  "\<exists>a b. buildNodeInfo ''h'' 1 ''e'' ''x'' demoCommon = Inr a \<and>
     buildNodeInfo ''h'' 1 ''f'' ''y'' (demoCommon\<lparr>cm_BaseConfig := None\<rparr>) = Inr b \<and>
     info_PushInterval a \<noteq> info_PushInterval b \<and> info_Common b = map_option (\<lambda>c. c\<lparr>cm_BaseConfig := Some defaultBase\<rparr>) (info_Common a)"
proof -
  let ?c = "demoCommon\<lparr>cm_BaseConfig := None\<rparr>"
  obtain a where a: "buildNodeInfo ''h'' 1 ''e'' ''x'' demoCommon = Inr a" "info_PushInterval a = intervalToTime (AnyInt 18446744074) defaultPanelPushInterval"
    by (simp add: buildNodeInfo_def demoCommon_def Let_def)
  obtain b where b: "buildNodeInfo ''h'' 1 ''f'' ''y'' ?c = Inr b" "info_PushInterval b = 60 * second"
    by (simp add: buildNodeInfo_def demoCommon_def Let_def defaultBase_def intervalToTime_exact intervalSeconds_def)
  have "\<not> requiresCoreReload (Some a) (Some b)"
    using a(1) b(1) by (auto simp: buildNodeInfo_def demoCommon_def Let_def requiresCoreReload_def coreReloadFingerprint_def)
  from reload_not_required_same_core [OF a(1) b(1) this]
  have "info_Common b = map_option (\<lambda>c. c\<lparr>cm_BaseConfig := cm_BaseConfig (the (info_Common b))\<rparr>) (info_Common a)"
    by (metis NodeInfo.select_convs(9) NodeInfo.surjective NodeInfo.update_convs(9))
  moreover have "cm_BaseConfig (the (info_Common b)) = Some defaultBase"
    using b(1) by (auto simp: buildNodeInfo_def Let_def demoCommon_def)
  moreover have "info_PushInterval a = 5 * second"
    using a(2) by (simp add: intervalToTime_def intervalSeconds_def wrap64_def minPanelInterval_def)
  ultimately show ?thesis using a(1) b by (intro exI [of _ a] exI [of _ b]) simp
qed

lemma changedNames_subset: "n \<in> set (changedNames x y) \<Longrightarrow> n \<in> set (map fst (reloadChecks x y))"
  by (auto simp: changedNames_def)

text \<open>The reload log tells the truth: the list of reasons is exactly the names of the settings that
  differ, and it is the placeholder \<open>unknown\<close> precisely when no reload is required.\<close>

theorem reload_reasons_explain:
  "coreReloadReasons (Some a) (Some b) = [''unknown''] \<longleftrightarrow> \<not> requiresCoreReload (Some a) (Some b)"
proof -
  have "changedNames x y = [] \<longleftrightarrow> x = y" for x y
  proof -
    have "x = y" if "\<forall>c\<in>set (reloadChecks x y). \<not> snd c"
      using that by (intro nodeCoreFingerprint.equality commonCoreFingerprint.equality) (simp_all add: reloadChecks_def Let_def)
    moreover have "\<forall>c\<in>set (reloadChecks x x). \<not> snd c" by (simp add: reloadChecks_def Let_def)
    ultimately show ?thesis by (auto simp: changedNames_def filter_empty_conv)
  qed
  moreover have "changedNames x y \<noteq> [''unknown'']" for x y
  proof
    assume "changedNames x y = [''unknown'']"
    then have "''unknown'' \<in> set (changedNames x y)" by simp
    from changedNames_subset [OF this] have "''unknown'' \<in> set (map fst (reloadChecks x y))" .
    then show False by (simp add: reloadChecks_def Let_def)
  qed
  ultimately show ?thesis by (auto simp: coreReloadReasons_def requiresCoreReload_def Let_def)
qed

end
