(* ===== verification/Controller.thy ===== *)
theory Controller
  imports Node_Info Hy2_Concurrent Outbox_Run
begin

text \<open>
  The node controller (\<open>node/controller.go\<close>, \<open>node/user.go\<close>, \<open>node/task.go\<close>, \<open>node/timeout.go\<close>).
  Its state is the runtime of the panel client: handlers are functions on a client whose
  runtime is a \<open>Controller\<close>. Logging is left out. What the code gets from outside (the result of
  starting or stopping a server, of requesting a certificate, of closing tasks, the clock) is an
  argument.
\<close>

section \<open>Time budgets\<close>

definition panelRequestTimeout :: int where
  "panelRequestTimeout = 12 * second"

definition panelTaskTimeout :: int where
  "panelTaskTimeout = 45 * second"

definition minPanelTaskBudget :: int where
  "minPanelTaskBudget = 3 * second"

text \<open>
  The time a request may take, from the time that remains of the caller's deadline (\<open>None\<close> for a
  context without a deadline).
\<close>

definition panelRequestContext :: "int option \<Rightarrow> int" where
  "panelRequestContext remaining =
     (case remaining of
        None \<Rightarrow> panelRequestTimeout
      | Some r \<Rightarrow> (if r \<le> 0 then r else if r < panelRequestTimeout then r else panelRequestTimeout))"

definition hasPanelTaskBudget :: "bool \<Rightarrow> int option \<Rightarrow> bool" where
  "hasPanelTaskBudget cancelled remaining =
     (\<not> cancelled \<and> (case remaining of None \<Rightarrow> True | Some r \<Rightarrow> r > minPanelTaskBudget))"

lemma panelRequestContext_bound:
  "panelRequestContext r \<le> panelRequestTimeout \<and> (\<forall>t. r = Some t \<longrightarrow> panelRequestContext r \<le> t)"
  by (auto simp: panelRequestContext_def panelRequestTimeout_def split: option.splits)

section \<open>State\<close>

record Controller =
  server :: V2Core
  ctag :: string
  climiter :: "nat option"
  userList :: "UserInfo list"
  aliveMap :: "(int, int) gomap"
  info :: "NodeInfo option"
  userGeneration :: u64
  onlineSmallTraffic :: "int list"
  closed :: bool
  lastReloadAt :: "int option"
  pullInterval :: "int option"
  pushInterval :: "int option"
  reloadCh :: "bool option"

text \<open>
  \<open>reloadCh\<close> is the channel of capacity one shared with the main loop: \<open>None\<close> when it is missing,
  otherwise whether a reload is waiting in it. The two intervals are those of the periodic tasks,
  \<open>None\<close> before \<open>startTasks\<close>.
\<close>

abbreviation cheap :: "Controller \<Rightarrow> heap" where
  "cheap c \<equiv> mheap (hy2 (server c))"

abbreviation setHeap :: "heap \<Rightarrow> Controller \<Rightarrow> Controller" where
  "setHeap h c \<equiv> c\<lparr>server := (server c)\<lparr>hy2 := (hy2 (server c))\<lparr>mheap := h\<rparr>\<rparr>\<rparr>"

abbreviation climit :: "Controller \<Rightarrow> Limiter" where
  "climit c \<equiv> limiters (cheap c) ! the (climiter c)"

definition onLimiter :: "(Limiter \<Rightarrow> Limiter) \<Rightarrow> Controller \<Rightarrow> Controller" where
  "onLimiter f c =
     (case climiter c of None \<Rightarrow> c
      | Some a \<Rightarrow> setHeap ((cheap c)\<lparr>limiters := (limiters (cheap c))[a := f (limiters (cheap c) ! a)]\<rparr>) c)"

section \<open>Users\<close>

definition compareStep ::
  "UserInfo \<Rightarrow> (string, UserInfo) gomap \<times> UserInfo list \<times> UserInfo list \<Rightarrow>
     (string, UserInfo) gomap \<times> UserInfo list \<times> UserInfo list" where
  "compareStep u x =
     (case x of (oldMap, added, modified) \<Rightarrow>
        (case map_of oldMap (user_Uuid u) of
           None \<Rightarrow> (oldMap, added @ [u], modified)
         | Some p \<Rightarrow>
             (AList.delete (user_Uuid u) oldMap, added,
              if user_SpeedLimit p \<noteq> user_SpeedLimit u \<or> user_DeviceLimit p \<noteq> user_DeviceLimit u
              then modified @ [u] else modified)))"

definition compareUserList ::
  "UserInfo list \<Rightarrow> UserInfo list \<Rightarrow> UserInfo list \<times> UserInfo list \<times> UserInfo list" where
  "compareUserList old new =
     (case fold compareStep new (fold (\<lambda>u. AList.update (user_Uuid u) u) old [], [], []) of
        (oldMap, added, modified) \<Rightarrow> (map snd oldMap, added, modified))"

definition revokeReportedUsers ::
  "int list \<Rightarrow> panelCache \<times> Controller \<Rightarrow> (goerr + unit) \<times> (panelCache \<times> Controller)" where
  "revokeReportedUsers ids x =
     (case x of (pc, c) \<Rightarrow>
        (if ids = [] then ok () (pc, c)
         else (let c = c\<lparr>userGeneration := userGeneration c + 1\<rparr>;
                   deleted = filter (\<lambda>u. user_Id u \<in> set ids) (userList c);
                   kept = filter (\<lambda>u. user_Id u \<notin> set ids) (userList c) in
               (case coreDelUsers deleted (ctag c) (server c) of
                  (Inl e, vc) \<Rightarrow> fail e (pc, c\<lparr>server := vc\<rparr>)
                | (Inr _, vc) \<Rightarrow>
                    ok () (InvalidateUsers pc,
                      (onLimiter (UpdateUser (ctag c) [] deleted []) (c\<lparr>server := vc\<rparr>))\<lparr>userList := kept\<rparr>)))))"

text \<open>The part of \<open>syncUsers\<close> after the request, under \<open>syncUsersAccess\<close>.\<close>

definition applySnapshot ::
  "UserSnapshot \<Rightarrow> panelCache \<times> Controller \<Rightarrow> panelCache \<times> Controller" where
  "applySnapshot sn x =
     (case x of (pc, c) \<Rightarrow>
        (case compareUserList (userList c) (snap_Users sn) of (deleted, added, modified) \<Rightarrow>
           (case (if deleted \<noteq> [] then coreDelUsers deleted (ctag c) (server c) else ok () (server c)) of
              (Inl e, vc) \<Rightarrow> (pc, c\<lparr>server := vc\<rparr>)
            | (Inr _, vc) \<Rightarrow>
                (case (if added \<noteq> [] then coreAddUsers (map_option info_Type (info c)) (ctag c) added vc else ok 0 vc) of
                   (Inl e, vc) \<Rightarrow> (pc, c\<lparr>server := vc\<rparr>)
                 | (Inr _, vc) \<Rightarrow>
                     (let c = c\<lparr>server := vc\<rparr>;
                          c = (if added \<noteq> [] \<or> deleted \<noteq> [] \<or> modified \<noteq> []
                               then onLimiter (UpdateUser (ctag c) added deleted modified) c else c) in
                      (CommitUsers (Some sn) pc, c\<lparr>userList := snap_Users sn\<rparr>))))))"

definition finishSync ::
  "u64 \<Rightarrow> UserSnapshot option \<Rightarrow> panelCache \<times> Controller \<Rightarrow> panelCache \<times> Controller" where
  "finishSync generation snapshot x =
     (case x of (pc, c) \<Rightarrow>
        (if generation \<noteq> userGeneration c then (InvalidateUsers pc, c)
         else (case snapshot of None \<Rightarrow> (pc, c) | Some sn \<Rightarrow> applySnapshot sn (pc, c))))"

definition onRuntime ::
  "(panelCache \<times> Controller \<Rightarrow> panelCache \<times> Controller) \<Rightarrow> ('b, Controller) client \<Rightarrow> ('b, Controller) client" where
  "onRuntime f s = (case f (cache s, runtime s) of (pc, c) \<Rightarrow> s\<lparr>cache := pc, runtime := c\<rparr>)"

definition syncUsers :: "'b env \<Rightarrow> ('b, Controller) client \<Rightarrow> ('b, Controller) client" where
  "syncUsers env s =
     (let generation = userGeneration (runtime s) in
      case GetUsers env s of
        (Inl e, s) \<Rightarrow> s
      | (Inr snapshot, s) \<Rightarrow> onRuntime (finishSync generation snapshot) s)"

section \<open>Reporting\<close>

definition baseOf :: "Controller \<Rightarrow> BaseConfig option" where
  "baseOf c = Option.bind (Option.bind (info c) info_Common) cm_BaseConfig"

definition reportMin :: "Controller \<Rightarrow> int" where
  "reportMin c = (case baseOf c of None \<Rightarrow> 0 | Some b \<Rightarrow> base_NodeReportMinTraffic b)"

definition deviceMin :: "Controller \<Rightarrow> int" where
  "deviceMin c = (case baseOf c of None \<Rightarrow> 0 | Some b \<Rightarrow> base_DeviceOnlineMinTraffic b)"

definition smallUsers :: "int \<Rightarrow> UserTraffic list \<Rightarrow> int list" where
  "smallUsers m rows = map ut_UID (filter (\<lambda>r. wrap64 (ut_Upload r + ut_Download r) < wrap64 (m * 1000)) rows)"

text \<open>The three callbacks the controller hands to the outbox.\<close>

definition captureTraffic ::
  "int \<Rightarrow> int \<Rightarrow> panelCache \<times> Controller \<Rightarrow> (goerr + UserTraffic list) \<times> (panelCache \<times> Controller)" where
  "captureTraffic minReport minDevice x =
     (case x of (pc, c) \<Rightarrow>
        (case coreTrafficSlice (ctag c) minReport (server c) of
           (rows, vc) \<Rightarrow> ok rows (pc, c\<lparr>server := vc, onlineSmallTraffic := smallUsers minDevice rows\<rparr>)))"

definition commitTraffic ::
  "UserTraffic list \<Rightarrow> panelCache \<times> Controller \<Rightarrow> (goerr + unit) \<times> (panelCache \<times> Controller)" where
  "commitTraffic rows x =
     (case x of (pc, c) \<Rightarrow> ok () (pc, c\<lparr>server := CommitUserTrafficSlice (ctag c) rows (server c)\<rparr>))"

definition reportHooks :: "Controller \<Rightarrow> Controller hooks" where
  "reportHooks c =
     \<lparr>capture = captureTraffic (reportMin c) (deviceMin c), commit = commitTraffic, revoke = revokeReportedUsers\<rparr>"

definition reportUserTrafficTask :: "'b env \<Rightarrow> ('b, Controller) client \<Rightarrow> ('b, Controller) client" where
  "reportUserTrafficTask env s = snd (FlushTrafficLimit env (reportHooks (runtime s)) 200 s)"

definition addDevice :: "int list \<Rightarrow> OnlineUser \<Rightarrow> (int, string list) gomap \<Rightarrow> (int, string list) gomap" where
  "addDevice small d data =
     (if online_UID d \<in> set small then data
      else AList.update (online_UID d)
             ((case map_of data (online_UID d) of None \<Rightarrow> [] | Some ips \<Rightarrow> ips) @ [online_IP d]) data)"

definition reportHeartbeat :: "'b env \<Rightarrow> bool \<Rightarrow> ('b, Controller) client \<Rightarrow> ('b, Controller) client" where
  "reportHeartbeat env budget s =
     (case climiter (runtime s) of
        None \<Rightarrow> s
      | Some a \<Rightarrow>
          (let devices = fst (GetOnlineDevice (climit (runtime s)));
               data = fold (addDevice (onlineSmallTraffic (runtime s))) devices [];
               s = s\<lparr>runtime := onLimiter (\<lambda>l. snd (GetOnlineDevice l)) (runtime s)\<rparr>;
               s = snd (ReportNodeOnlineUsers env data s) in
           if budget
           then (case GetUserAlive env s of
                   (Inl e, s) \<Rightarrow> s
                 | (Inr alive, s) \<Rightarrow> s\<lparr>runtime := onLimiter (UpdateAliveList alive) (runtime s)\<rparr>)
           else s))"

section \<open>Node changes\<close>

definition minReloadInterval :: int where
  "minReloadInterval = 60 * second"

definition requestReload :: "int \<Rightarrow> Controller \<Rightarrow> Controller" where
  "requestReload now c =
     (case lastReloadAt c of
        Some t \<Rightarrow>
          (if now - t < minReloadInterval then c
           else c\<lparr>lastReloadAt := Some now, reloadCh := map_option (\<lambda>_. True) (reloadCh c)\<rparr>)
      | None \<Rightarrow> c\<lparr>lastReloadAt := Some now, reloadCh := map_option (\<lambda>_. True) (reloadCh c)\<rparr>)"

text \<open>\<open>Task.UpdateInterval\<close> changes the interval of a task that exists.\<close>

definition UpdateInterval :: "int \<Rightarrow> int option \<Rightarrow> int option" where
  "UpdateInterval i t = (case t of None \<Rightarrow> None | Some old \<Rightarrow> if i > 0 then Some i else Some old)"

definition applyRuntimeNodeInfo :: "NodeInfo option \<Rightarrow> panelCache \<times> Controller \<Rightarrow> panelCache \<times> Controller" where
  "applyRuntimeNodeInfo node x =
     (case x of (pc, c) \<Rightarrow>
        (case node of None \<Rightarrow> (pc, c)
         | Some n \<Rightarrow>
             (CommitNodeInfo node pc,
              c\<lparr>pullInterval := UpdateInterval (info_PullInterval n) (pullInterval c),
                pushInterval := UpdateInterval (info_PushInterval n) (pushInterval c), info := node\<rparr>)))"

definition nodeInfoMonitor ::
  "'b env \<Rightarrow> 'b codec \<Rightarrow> int \<Rightarrow> ('b, Controller) client \<Rightarrow> ('b, Controller) client" where
  "nodeInfoMonitor env cd now s =
     (case GetNodeInfo env cd s of
        (Inl e, s) \<Rightarrow> s
      | (Inr newN, s) \<Rightarrow>
          (case newN of
             None \<Rightarrow> syncUsers env s
           | Some n \<Rightarrow>
               (if requiresCoreReload (info (runtime s)) (Some n)
                then s\<lparr>runtime := requestReload now (runtime s)\<rparr>
                else syncUsers env (onRuntime (applyRuntimeNodeInfo (Some n)) s))))"

section \<open>Start and close\<close>

record startEnv =
  start_ctxErr :: "goerr option"
  start_certErr :: "goerr option"
  start_serverErr :: "goerr option"
  start_delErr :: "goerr option"

definition startTasks :: "NodeInfo \<Rightarrow> Controller \<Rightarrow> Controller" where
  "startTasks n c = c\<lparr>pullInterval := Some (info_PullInterval n), pushInterval := Some (info_PushInterval n)\<rparr>"

definition noHooks :: "Controller hooks" where
  "noHooks = \<lparr>capture = (\<lambda>x. ok [] x), commit = (\<lambda>_ x. ok () x), revoke = (\<lambda>_ x. ok () x)\<rparr>"

text \<open>The deferred clean-up of a failed start.\<close>

definition dropLimiter :: "Controller \<Rightarrow> Controller" where
  "dropLimiter c = setHeap ((cheap c)\<lparr>limiterMap := DeleteLimiter (ctag c) (limiterMap (cheap c))\<rparr>) c"

definition dropNode :: "startEnv \<Rightarrow> Controller \<Rightarrow> Controller" where
  "dropNode se c = c\<lparr>server := snd (coreDelNode (ctag c) (start_delErr se) (server c))\<rparr>"

definition registerNew :: "NodeInfo \<Rightarrow> Controller \<Rightarrow> Controller" where
  "registerNew n c =
     (let h = cheap c; a = length (limiters h);
          l = AddLimiter (info_Type n) (ctag c) (userList c) (aliveMap c) in
      (setHeap (h\<lparr>limiters := limiters h @ [l], limiterMap := registerLimiter (ctag c) a (limiterMap h)\<rparr>) c)
        \<lparr>climiter := Some a\<rparr>)"

definition startNode ::
  "startEnv \<Rightarrow> NodeInfo \<Rightarrow> Controller \<Rightarrow> (goerr + unit) \<times> Controller" where
  "startNode se n c =
     (let c = registerNew n c in
      case (if info_Security n = Tls_security then start_certErr se else None) of
        Some e \<Rightarrow> fail (Wrap ''request cert error'' e) (dropLimiter c)
      | None \<Rightarrow>
          (case coreAddNode (ctag c) (Some (info_Type n)) (start_serverErr se) (server c) of
             (Inl e, vc) \<Rightarrow> fail (Wrap ''add new node error'' e) (dropLimiter (c\<lparr>server := vc\<rparr>))
           | (Inr _, vc) \<Rightarrow>
               (case coreAddUsers (Some (info_Type n)) (ctag c) (userList c) vc of
                  (Inl e, vc) \<Rightarrow> fail (Wrap ''add users error'' e) (dropLimiter (dropNode se (c\<lparr>server := vc\<rparr>)))
                | (Inr _, vc) \<Rightarrow> ok () (c\<lparr>server := vc, info := Some n\<rparr>))))"

definition startUsers ::
  "'b env \<Rightarrow> startEnv \<Rightarrow> NodeInfo \<Rightarrow> ('b, Controller) client \<Rightarrow> (goerr + unit) \<times> ('b, Controller) client" where
  "startUsers env se n s =
     (case FlushTraffic env noHooks s of
        (Inl e, s) \<Rightarrow> fail (Wrap ''recover traffic before accepting users'' e) s
      | (Inr _, s) \<Rightarrow>
          (case GetUsers env s of
             (Inl e, s) \<Rightarrow> fail (Wrap ''get initial users'' e) s
           | (Inr snapshot, s) \<Rightarrow>
               (let s = (case snapshot of None \<Rightarrow> s | Some sn \<Rightarrow> s\<lparr>runtime := (runtime s)\<lparr>userList := snap_Users sn\<rparr>\<rparr>) in
                case GetUserAlive env s of (alive, s) \<Rightarrow>
                  (let c = (runtime s)\<lparr>aliveMap := (case alive of Inl _ \<Rightarrow> [] | Inr m \<Rightarrow> m), ctag := info_Tag n\<rparr> in
                   case start_ctxErr se of
                     Some e \<Rightarrow> fail e (s\<lparr>runtime := c\<rparr>)
                   | None \<Rightarrow>
                       (case startNode se n c of
                          (Inl e, c) \<Rightarrow> fail e (s\<lparr>runtime := c\<rparr>)
                        | (Inr _, c) \<Rightarrow>
                            ok () (s\<lparr>cache := CommitNodeInfo (Some n) (CommitUsers snapshot (cache s)),
                                     runtime := startTasks n c\<rparr>))))))"

definition StartContext ::
  "'b env \<Rightarrow> 'b codec \<Rightarrow> startEnv \<Rightarrow> V2Core \<Rightarrow> ('b, Controller) client \<Rightarrow> (goerr + unit) \<times> ('b, Controller) client" where
  "StartContext env cd se x s =
     (let s = s\<lparr>runtime := (runtime s)\<lparr>server := x\<rparr>\<rparr> in
      case info (runtime s) of
        Some n \<Rightarrow> startUsers env se n s
      | None \<Rightarrow>
          (case GetNodeInfo env cd s of
             (Inl e, s) \<Rightarrow> fail (Wrap ''get node info error'' e) (s\<lparr>runtime := (runtime s)\<lparr>info := None\<rparr>\<rparr>)
           | (Inr node, s) \<Rightarrow>
               (let s = s\<lparr>runtime := (runtime s)\<lparr>info := node\<rparr>\<rparr> in
                case node of
                  None \<Rightarrow> fail (Err ''node info is empty'') s
                | Some n \<Rightarrow> startUsers env se n s)))"

record closeEnv =
  close_taskErr :: "goerr option"
  close_quiesceErr :: "goerr option"
  close_delErr :: "goerr option"

definition drainHooks :: "Controller hooks" where
  "drainHooks = \<lparr>capture = (\<lambda>(pc, c). case coreTrafficSlice (ctag c) 0 (server c) of
       (rows, vc) \<Rightarrow> ok rows (pc, c\<lparr>server := vc\<rparr>)),
     commit = (\<lambda>_ x. ok () x), revoke = (\<lambda>_ x. ok () x)\<rparr>"

text \<open>Nothing is removed before the final counters are on disk.\<close>

definition CloseContext ::
  "'b env \<Rightarrow> closeEnv \<Rightarrow> ('b, Controller) client \<Rightarrow> (goerr + unit) \<times> ('b, Controller) client" where
  "CloseContext env ce s =
     (if closed (runtime s) then ok () s
      else (case close_taskErr ce of
          Some e \<Rightarrow> fail e s
        | None \<Rightarrow>
            (if ctag (runtime s) = [] then ok () s
             else (case coreQuiesceNode (ctag (runtime s)) (close_quiesceErr ce) (server (runtime s)) of
                 (Inl e, vc) \<Rightarrow> fail e (s\<lparr>runtime := (runtime s)\<lparr>server := vc\<rparr>\<rparr>)
               | (Inr _, vc) \<Rightarrow>
                   (case PersistTraffic env drainHooks (s\<lparr>runtime := (runtime s)\<lparr>server := vc\<rparr>\<rparr>) of
                      (Inl e, s) \<Rightarrow> fail (Wrap ''persist final traffic'' e) s
                    | (Inr _, s) \<Rightarrow>
                        (case coreDelNode (ctag (runtime s)) (close_delErr ce) (server (runtime s)) of
                           (Inl e, vc) \<Rightarrow> fail (Wrap ''del node error'' e) (s\<lparr>runtime := (runtime s)\<lparr>server := vc\<rparr>\<rparr>)
                         | (Inr _, vc) \<Rightarrow>
                             ok () (s\<lparr>runtime := (dropLimiter ((runtime s)\<lparr>server := vc\<rparr>))\<lparr>closed := True\<rparr>\<rparr>)))))))"

section \<open>Comparing user lists\<close>

abbreviation uuids :: "UserInfo list \<Rightarrow> string set" where
  "uuids us \<equiv> user_Uuid ` set us"

abbreviation limitsDiffer :: "UserInfo \<Rightarrow> UserInfo \<Rightarrow> bool" where
  "limitsDiffer p u \<equiv> user_SpeedLimit p \<noteq> user_SpeedLimit u \<or> user_DeviceLimit p \<noteq> user_DeviceLimit u"

lemma update_new: "k \<notin> fst ` set m \<Longrightarrow> AList.update k v m = m @ [(k, v)]"
  by (induction m) auto

lemma oldMap_eq:
  assumes "distinct (map user_Uuid old)" "uuids old \<inter> fst ` set m = {}"
  shows "fold (\<lambda>u. AList.update (user_Uuid u) u) old m = m @ map (\<lambda>u. (user_Uuid u, u)) old"
  using assms by (induction old arbitrary: m) (auto simp: update_new)

lemma compareStep_fold:
  assumes "distinct (map user_Uuid new)"
  shows "fold compareStep new (m, added, modified) =
    (filter (\<lambda>e. fst e \<notin> uuids new) m, added @ filter (\<lambda>u. map_of m (user_Uuid u) = None) new,
     modified @ filter (\<lambda>u. \<exists>p. map_of m (user_Uuid u) = Some p \<and> limitsDiffer p u) new)"
  using assms
proof (induction new arbitrary: m added modified)
  case (Cons u new)
  have other: "map_of (AList.delete (user_Uuid u) m) (user_Uuid v) = map_of m (user_Uuid v)" if "v \<in> set new" for v
    using Cons.prems that by (auto simp: image_iff)
  have f: "filter (\<lambda>v. Q (map_of (AList.delete (user_Uuid u) m) (user_Uuid v)) v) new = filter (\<lambda>v. Q (map_of m (user_Uuid v)) v) new" for Q
    using other by (intro filter_cong) simp_all
  have d: "filter (\<lambda>e. fst e \<notin> uuids new) (AList.delete (user_Uuid u) m) = filter (\<lambda>e. fst e \<notin> uuids (u # new)) m"
    by (induction m) auto
  show ?case
  proof (cases "map_of m (user_Uuid u)")
    case None
    then have "user_Uuid u \<notin> fst ` set m" by (simp add: map_of_eq_None_iff)
    then have "filter (\<lambda>e. fst e \<notin> uuids new) m = filter (\<lambda>e. fst e \<notin> uuids (u # new)) m" by (intro filter_cong) force+
    with Cons None show ?thesis by (simp add: compareStep_def)
  next
    case (Some p)
    show ?thesis
      using Cons Some d f [of "\<lambda>x v. x = None"] f [of "\<lambda>x v. \<exists>p. x = Some p \<and> limitsDiffer p v"]
      by (simp add: compareStep_def del: map_of_delete)
  qed
qed simp

text \<open>What the comparison of two valid lists gives.\<close>

lemma compareUserList_eq:
  assumes "distinct (map user_Uuid old)" "distinct (map user_Uuid new)"
  shows "compareUserList old new =
    (filter (\<lambda>u. user_Uuid u \<notin> uuids new) old, filter (\<lambda>u. user_Uuid u \<notin> uuids old) new,
     filter (\<lambda>u. \<exists>p\<in>set old. user_Uuid p = user_Uuid u \<and> limitsDiffer p u) new)"
proof -
  let ?m = "map (\<lambda>u. (user_Uuid u, u)) old"
  have k: "map_of ?m k = Some p \<longleftrightarrow> p \<in> set old \<and> user_Uuid p = k" for k p
    using assms(1) by (subst map_of_eq_Some_iff) (auto simp: comp_def)
  have n: "map_of ?m k = None \<longleftrightarrow> k \<notin> uuids old" for k by (simp add: map_of_eq_None_iff image_image)
  have s: "map snd (filter (\<lambda>e. fst e \<notin> S) ?m) = filter (\<lambda>u. user_Uuid u \<notin> S) old" for S by (induction old) auto
  show ?thesis
    unfolding compareUserList_def
    using oldMap_eq [OF assms(1), of "[]"] compareStep_fold [OF assms(2), of ?m "[]" "[]"] s [of "uuids new"]
    by (auto simp: k n intro!: filter_cong)
qed

text \<open>User synchronisation is complete. Comparing the current user list with a valid new one finds
  exactly the users to delete, to add and to modify: taking the deleted away and adding the
  added gives the users of the new list, and every user in both lists whose limits changed is
  in the modified list with its new limits.\<close>

theorem compare_users_complete:
  assumes "distinct (map user_Uuid old)" "distinct (map user_Uuid new)" "compareUserList old new = (deleted, added, modified)"
  shows "uuids new = (uuids old - uuids deleted) \<union> uuids added \<and> set deleted \<subseteq> set old \<and> set added \<subseteq> set new \<and>
    uuids added \<inter> uuids old = {} \<and>
    set modified = {u \<in> set new. \<exists>p\<in>set old. user_Uuid p = user_Uuid u \<and> limitsDiffer p u}"
  using assms(3) unfolding compareUserList_eq [OF assms(1,2)] by (auto simp: image_iff) metis

definition someUser :: "int \<Rightarrow> string \<Rightarrow> int \<Rightarrow> UserInfo" where
  "someUser i uuid speed = \<lparr>user_Id = i, user_Uuid = uuid, user_SpeedLimit = speed, user_DeviceLimit = 0\<rparr>"

definition oldUsers :: "UserInfo list" where
  "oldUsers = [someUser 1 ''a'' 0, someUser 2 ''b'' 0]"

definition newUsers :: "UserInfo list" where
  "newUsers = [someUser 2 ''b'' 5, someUser 3 ''c'' 0]"

lemma compare_demo: "compareUserList oldUsers newUsers = ([someUser 1 ''a'' 0], [someUser 3 ''c'' 0], [someUser 2 ''b'' 5])"
  by (simp add: compareUserList_eq oldUsers_def newUsers_def someUser_def)

theorem compare_users_complete_witness:
  "uuids newUsers = (uuids oldUsers - uuids [someUser 1 ''a'' 0]) \<union> uuids [someUser 3 ''c'' 0] \<and>
   {u \<in> set newUsers. \<exists>p\<in>set oldUsers. user_Uuid p = user_Uuid u \<and> limitsDiffer p u} = {someUser 2 ''b'' 5}"
  using compare_users_complete [OF _ _ compare_demo] by (simp add: oldUsers_def newUsers_def someUser_def)

section \<open>The permissions that are enforced\<close>

text \<open>What the user list asks for a credential: its speed and device limits.\<close>

definition wanted :: "UserInfo list \<Rightarrow> string \<Rightarrow> (int \<times> int) option" where
  "wanted us uuid = map_of (map (\<lambda>u. (user_Uuid u, (user_SpeedLimit u, user_DeviceLimit u))) us) uuid"

text \<open>
  What a node enforces for it: the authenticator knows the credential, and the limiter has a
  permission for it that is not revoked and carries these limits; or neither knows it and no
  traffic callback can count for it.
\<close>

definition served :: "hy2Node \<Rightarrow> Limiter \<Rightarrow> string \<Rightarrow> (int \<times> int) option \<Rightarrow> bool" where
  "served n l uuid w \<longleftrightarrow>
     (case w of
        None \<Rightarrow> map_of (auth_users n) uuid = None \<and> map_of (cache_users n) uuid = None \<and>
          map_of (UserLimits l) (UserTag (node_tag n) uuid) = None
      | Some (speed, device) \<Rightarrow>
          map_of (auth_users n) uuid \<noteq> None \<and>
          (\<exists>a. map_of (UserLimits l) (UserTag (node_tag n) uuid) = Some a \<and> \<not> lim_Revoked (info_at l a) \<and>
             lim_SpeedLimit (info_at l a) = speed \<and> lim_DeviceLimit (info_at l a) = device))"

definition ctl_ok :: "Controller \<Rightarrow> bool" where
  "ctl_ok c \<longleftrightarrow>
     (\<exists>n a. map_of (nodes (hy2 (server c))) (ctag c) = Some n \<and> climiter c = Some a \<and> node_limiter n = Some a \<and>
        node_tag n = ctag c \<and> a < length (limiters (cheap c)) \<and> perms_ok (limiters (cheap c) ! a) \<and>
        (\<exists>i. info c = Some i \<and> info_Type i = ''hysteria2'') \<and> valid_users (userList c) \<and>
        (\<forall>uuid. served n (limiters (cheap c) ! a) uuid (wanted (userList c) uuid)))"

lemma wanted_None: "wanted us uuid = None \<longleftrightarrow> uuid \<notin> uuids us"
  by (simp add: wanted_def map_of_eq_None_iff image_image)

lemma wanted_Some:
  "distinct (map user_Uuid us) \<Longrightarrow>
     wanted us uuid = Some (sp, dv) \<longleftrightarrow> (\<exists>u\<in>set us. user_Uuid u = uuid \<and> user_SpeedLimit u = sp \<and> user_DeviceLimit u = dv)"
  unfolding wanted_def by (subst map_of_eq_Some_iff) (auto simp: comp_def image_iff)

section \<open>Effects of the operations\<close>

abbreviation revokes :: "string \<Rightarrow> UserInfo list \<Rightarrow> Limiter \<Rightarrow> Limiter" where
  "revokes tag us l \<equiv> fold (\<lambda>u. RevokeUser (UserTag tag (user_Uuid u))) us l"

lemma settleUser_fields [simp]:
  "node_tag (settleUser uuid n) = node_tag n" "node_limiter (settleUser uuid n) = node_limiter n"
  "auth_users (settleUser uuid n) = auth_users n" "node_counter (settleUser uuid n) = node_counter n"
  "map_of (cache_users (settleUser uuid n)) = (map_of (cache_users n))(uuid := None)"
  by (auto simp: settleUser_def split: option.splits)

lemma fold_removeUser:
  assumes "node_limiter n = Some a" "a < length (limiters h)"
  shows "\<exists>n'. fold removeUser us (n, h) = (n', h\<lparr>limiters := (limiters h)[a := revokes (node_tag n) us (limiters h ! a)]\<rparr>) \<and>
    node_tag n' = node_tag n \<and> node_limiter n' = node_limiter n \<and>
    (\<forall>k. map_of (auth_users n') k = (if k \<in> uuids us then None else map_of (auth_users n) k)) \<and>
    (\<forall>k. map_of (cache_users n') k = (if k \<in> uuids us then None else map_of (cache_users n) k))"
  using assms
proof (induction us arbitrary: n h)
  case (Cons u us)
  let ?n = "settleUser (user_Uuid u) (delAuth (user_Uuid u) n)"
  let ?l = "RevokeUser (UserTag (node_tag n) (user_Uuid u)) (limiters h ! a)"
  let ?h = "h\<lparr>limiters := (limiters h)[a := ?l]\<rparr>"
  have r: "removeUser u (n, h) = (?n, ?h)"
    using Cons.prems by (simp add: removeUser_def Let_def revokeLimit_def loggerLimiter_def delAuth_def)
  from Cons.IH [of ?n ?h] Cons.prems show ?case by (auto simp: r delAuth_def)
qed simp

lemma pruneUsers_node: "\<exists>m. snd (pruneUsers ks h n) = n\<lparr>node_counter := m\<rparr>"
proof (induction ks h n rule: pruneUsers.induct)
  case (2 uuid uuids h n)
  then show ?case by (auto split: prod.splits)
next
  case (1 h n)
  have "n = n\<lparr>node_counter := node_counter n\<rparr>" by (cases n) simp
  then show ?case by (metis pruneUsers.simps(1) snd_conv)
qed

lemma fold_addAuth:
  "\<exists>n'. fold addAuth us n = n' \<and> node_tag n' = node_tag n \<and> node_limiter n' = node_limiter n \<and>
     (\<forall>k. map_of (auth_users n') k \<noteq> None \<longleftrightarrow> k \<in> uuids us \<or> map_of (auth_users n) k \<noteq> None) \<and>
     (\<forall>k. map_of (cache_users n') k = (if k \<in> uuids us then None else map_of (cache_users n) k))"
proof (induction us arbitrary: n)
  case (Cons u us)
  from Cons.IH [of "addAuth u n"] show ?case by (auto simp: addAuth_def ForgetUser_def Let_def)
qed simp

text \<open>Deleting users in the core.\<close>

lemma coreDelUsers_effect:
  assumes "map_of (nodes (hy2 vc)) tag = Some n" "node_limiter n = Some a" "a < length (limiters (mheap (hy2 vc)))"
    "node_tag n = tag"
  shows "\<exists>vc' n'. coreDelUsers us tag vc = (Inr (), vc') \<and> map_of (nodes (hy2 vc')) tag = Some n' \<and>
    mheap (hy2 vc') = (mheap (hy2 vc))\<lparr>limiters := (limiters (mheap (hy2 vc)))[a := revokes tag us (limiters (mheap (hy2 vc)) ! a)]\<rparr> \<and>
    node_tag n' = tag \<and> node_limiter n' = Some a \<and>
    (\<forall>k. map_of (auth_users n') k = (if k \<in> uuids us then None else map_of (auth_users n) k)) \<and>
    (\<forall>k. map_of (cache_users n') k = (if k \<in> uuids us then None else map_of (cache_users n) k))"
proof -
  let ?h = "mheap (hy2 vc)"
  let ?h' = "?h\<lparr>limiters := (limiters ?h)[a := revokes tag us (limiters ?h ! a)]\<rparr>"
  obtain n1 where n1: "fold removeUser us (n, ?h) = (n1, ?h')" "node_tag n1 = tag" "node_limiter n1 = Some a"
    "\<forall>k. map_of (auth_users n1) k = (if k \<in> uuids us then None else map_of (auth_users n) k)"
    "\<forall>k. map_of (cache_users n1) k = (if k \<in> uuids us then None else map_of (cache_users n) k)"
    using fold_removeUser [OF assms(2,3), of us] assms(2,4) by auto
  let ?m = "putNode tag n1 ((hy2 vc)\<lparr>mheap := ?h'\<rparr>)"
  have d: "DelUsers tag us (hy2 vc) = (Inr (), ?m)" using assms(1) n1(1) by (simp add: DelUsers_def ok_def)
  obtain m where m: "snd (pruneUsers (map user_Uuid us) (storageHeap ?h') n1) = n1\<lparr>node_counter := m\<rparr>"
    using pruneUsers_node by blast
  then obtain rs where p: "PruneRetiredUsers tag (map user_Uuid us) ?m = (rs, putNode tag (n1\<lparr>node_counter := m\<rparr>) ?m)"
    by (cases "pruneUsers (map user_Uuid us) (storageHeap ?h') n1") (simp add: PruneRetiredUsers_def)
  show ?thesis
    using n1(2-5) d p assms(1) by (simp add: coreDelUsers_def HasNode_def pruneRetiredTraffic_def)
qed

text \<open>Adding users in the core.\<close>

lemma coreAddUsers_effect:
  assumes "map_of (nodes (hy2 vc)) tag = Some n"
  shows "\<exists>vc' n'. coreAddUsers (Some ''hysteria2'') tag us vc = (Inr (length us), vc') \<and> map_of (nodes (hy2 vc')) tag = Some n' \<and>
    mheap (hy2 vc') = mheap (hy2 vc) \<and> node_tag n' = node_tag n \<and> node_limiter n' = node_limiter n \<and>
    (\<forall>k. map_of (auth_users n') k \<noteq> None \<longleftrightarrow> k \<in> uuids us \<or> map_of (auth_users n) k \<noteq> None) \<and>
    (\<forall>k. map_of (cache_users n') k = (if k \<in> uuids us then None else map_of (cache_users n) k))"
  using assms fold_addAuth [of us n] by (auto simp: coreAddUsers_def Let_def AddUsers_def ok_def)

text \<open>What happens to the permission objects of users that an operation does not name.\<close>

lemma RevokeUser_other:
  assumes "perms_ok l" "map_of (UserLimits l) t = Some a" "t' \<noteq> t"
  shows "info_at (RevokeUser t' l) a = info_at l a"
proof (cases "map_of (UserLimits l) t'")
  case (Some b)
  then have "b \<noteq> a" using perms_inj [OF assms(1) Some, of t] assms(2,3) by auto
  with Some show ?thesis by (simp add: RevokeUser_def)
qed (simp add: RevokeUser_def)

lemma perms_revoke: "perms_ok l \<Longrightarrow> perms_ok (RevokeUser t l)"
  by (rule perms_subset [of l]) auto

lemma perms_delete: "perms_ok l \<Longrightarrow> perms_ok (deleteUser tag u l)"
  by (rule perms_subset [of l]) (auto simp: deleteUser_def Let_def map_le_def)

lemma modifyUser_length [simp]: "length (infos (modifyUser tag u l)) = length (infos l)"
  by (simp add: modifyUser_def Let_def split: option.splits)

lemma perms_modify: "perms_ok l \<Longrightarrow> perms_ok (modifyUser tag u l)"
  by (rule perms_subset [of l]) auto

lemma revokes_facts:
  assumes "perms_ok l"
  shows "perms_ok (revokes tag us l) \<and> UserLimits (revokes tag us l) = UserLimits l \<and>
    (\<forall>k a. k \<notin> uuids us \<and> map_of (UserLimits l) (UserTag tag k) = Some a \<longrightarrow> info_at (revokes tag us l) a = info_at l a)"
  using assms
proof (induction us arbitrary: l)
  case (Cons u us)
  from Cons.IH [OF perms_revoke [OF Cons.prems]] show ?case
    using RevokeUser_other [OF Cons.prems] by auto
qed simp

lemma deletes_facts:
  assumes "perms_ok l"
  shows "perms_ok (fold (deleteUser tag) us l) \<and>
    (\<forall>k a. k \<notin> uuids us \<and> map_of (UserLimits l) (UserTag tag k) = Some a \<longrightarrow>
       info_at (fold (deleteUser tag) us l) a = info_at l a)"
  using assms
proof (induction us arbitrary: l)
  case (Cons u us)
  have i: "info_at (deleteUser tag u l) a = info_at (RevokeUser (UserTag tag (user_Uuid u)) l) a" for a
    by (simp add: deleteUser_def Let_def)
  note ih = Cons.IH [OF perms_delete [OF Cons.prems], of tag u]
  have "info_at (fold (deleteUser tag) (u # us) l) a = info_at l a"
    if "k \<notin> uuids (u # us)" "map_of (UserLimits l) (UserTag tag k) = Some a" for k a
  proof -
    have "map_of (UserLimits (deleteUser tag u l)) (UserTag tag k) = Some a" using that by (simp add: deleteUser_lookup)
    with ih that have "info_at (fold (deleteUser tag) (u # us) l) a = info_at (deleteUser tag u l) a" by auto
    with that RevokeUser_other [OF Cons.prems that(2), of "UserTag tag (user_Uuid u)"] show ?thesis by (auto simp: i)
  qed
  with ih show ?case by auto
qed simp

lemma modifyUser_info:
  assumes "perms_ok l" "map_of (UserLimits l) (UserTag tag k) = Some a"
  shows "info_at (modifyUser tag u l) a =
    (if user_Uuid u = k then (info_at l a)\<lparr>lim_SpeedLimit := user_SpeedLimit u, lim_DeviceLimit := user_DeviceLimit u\<rparr> else info_at l a)"
proof -
  have a: "a < length (infos l)" using assms by (simp add: perms_ok_def)
  have "info_at (modifyUser tag u l) a = (case map_of (UserLimits l) (UserTag tag (user_Uuid u)) of
      Some b \<Rightarrow> (infos l)[b := (info_at l b)\<lparr>lim_SpeedLimit := user_SpeedLimit u, lim_DeviceLimit := user_DeviceLimit u\<rparr>] ! a
    | None \<Rightarrow> info_at l a)" by (simp add: modifyUser_def Let_def split: option.splits)
  moreover have "b = a \<longleftrightarrow> user_Uuid u = k" if "map_of (UserLimits l) (UserTag tag (user_Uuid u)) = Some b" for b
    using perms_inj [OF assms(1) assms(2), of "UserTag tag (user_Uuid u)"] assms(2) that by auto
  ultimately show ?thesis
    using assms(2) a by (cases "map_of (UserLimits l) (UserTag tag (user_Uuid u))") (auto simp: nth_update_at)
qed

lemma modifies_facts:
  assumes "perms_ok l" "distinct (map user_Uuid us)"
  shows "perms_ok (fold (modifyUser tag) us l) \<and>
    (\<forall>k a. map_of (UserLimits l) (UserTag tag k) = Some a \<longrightarrow>
       lim_Revoked (info_at (fold (modifyUser tag) us l) a) = lim_Revoked (info_at l a) \<and>
       (k \<notin> uuids us \<longrightarrow> info_at (fold (modifyUser tag) us l) a = info_at l a) \<and>
       (\<forall>u\<in>set us. user_Uuid u = k \<longrightarrow> lim_SpeedLimit (info_at (fold (modifyUser tag) us l) a) = user_SpeedLimit u \<and>
          lim_DeviceLimit (info_at (fold (modifyUser tag) us l) a) = user_DeviceLimit u))"
  using assms
proof (induction us arbitrary: l)
  case (Cons u us)
  note ih = Cons.IH [OF perms_modify [OF Cons.prems(1)], of tag u]
  show ?case using ih Cons.prems by (auto simp: modifyUser_info)
qed simp

text \<open>The limiter after the users of one round of synchronisation have been deleted, modified and added.\<close>

lemma sync_limiter:
  fixes tag :: string
  assumes "perms_ok l" "distinct (map user_Uuid added)" "distinct (map user_Uuid modified)"
    "uuids modified \<inter> uuids added = {}" "uuids modified \<inter> uuids deleted = {}"
  defines "l' \<equiv> UpdateUser tag added deleted modified (revokes tag deleted l)"
  shows "perms_ok l'"
    "u \<in> set added \<Longrightarrow> \<exists>a. map_of (UserLimits l') (UserTag tag (user_Uuid u)) = Some a \<and> info_at l' a = newInfo u"
    "k \<in> uuids deleted \<Longrightarrow> k \<notin> uuids added \<Longrightarrow> map_of (UserLimits l') (UserTag tag k) = None"
    "k \<notin> uuids deleted \<Longrightarrow> k \<notin> uuids added \<Longrightarrow> map_of (UserLimits l') (UserTag tag k) = map_of (UserLimits l) (UserTag tag k)"
    "k \<notin> uuids deleted \<Longrightarrow> k \<notin> uuids added \<Longrightarrow> map_of (UserLimits l) (UserTag tag k) = Some a \<Longrightarrow>
       lim_Revoked (info_at l' a) = lim_Revoked (info_at l a) \<and> (k \<notin> uuids modified \<longrightarrow> info_at l' a = info_at l a) \<and>
       (\<forall>u\<in>set modified. user_Uuid u = k \<longrightarrow> lim_SpeedLimit (info_at l' a) = user_SpeedLimit u \<and>
          lim_DeviceLimit (info_at l' a) = user_DeviceLimit u)"
proof -
  let ?r = "revokes tag deleted l"
  let ?d = "fold (deleteUser tag) deleted ?r"
  let ?m = "fold (modifyUser tag) modified ?d"
  note r = revokes_facts [OF assms(1), of tag deleted]
  then have d: "perms_ok ?d" "\<And>k a. k \<notin> uuids deleted \<Longrightarrow> map_of (UserLimits ?r) (UserTag tag k) = Some a \<Longrightarrow> info_at ?d a = info_at ?r a"
    using deletes_facts [of ?r tag deleted] by auto
  have dl: "map_of (UserLimits ?d) (UserTag tag k) = (if k \<in> uuids deleted then None else map_of (UserLimits l) (UserTag tag k))" for k
    using r by (simp add: fold_delete_lookup)
  note m = modifies_facts [OF d(1) assms(3), of tag]
  have l': "l' = fold (storeUser tag) added ?m" by (simp add: l'_def UpdateUser_def)
  show "perms_ok l'" unfolding l' by (rule fold_preserves [where P = perms_ok]) (use m perms_store in auto)
  show "\<exists>a. map_of (UserLimits l') (UserTag tag (user_Uuid u)) = Some a \<and> info_at l' a = newInfo u" if "u \<in> set added"
    using fold_store_lookup [OF that assms(2), of tag ?m] unfolding l' by blast
  show "map_of (UserLimits l') (UserTag tag k) = None" if "k \<in> uuids deleted" "k \<notin> uuids added"
    using that by (simp add: l' fold_store_other dl)
  show "map_of (UserLimits l') (UserTag tag k) = map_of (UserLimits l) (UserTag tag k)" if "k \<notin> uuids deleted" "k \<notin> uuids added"
    using that by (simp add: l' fold_store_other dl)
  assume k: "k \<notin> uuids deleted" "k \<notin> uuids added" "map_of (UserLimits l) (UserTag tag k) = Some a"
  then have e: "map_of (UserLimits ?d) (UserTag tag k) = Some a" by (simp add: dl)
  then have "a < length (infos ?m)" using m by (auto simp: perms_ok_def)
  then have s: "info_at l' a = info_at ?m a" by (simp add: l' fold_store_info)
  have "info_at ?d a = info_at l a" using d(2) [of k a] r k by auto
  with m e s show "lim_Revoked (info_at l' a) = lim_Revoked (info_at l a) \<and> (k \<notin> uuids modified \<longrightarrow> info_at l' a = info_at l a) \<and>
       (\<forall>u\<in>set modified. user_Uuid u = k \<longrightarrow> lim_SpeedLimit (info_at l' a) = user_SpeedLimit u \<and>
          lim_DeviceLimit (info_at l' a) = user_DeviceLimit u)" by metis
qed

section \<open>Synchronisation refines the user list\<close>

lemma newInfo_fields [simp]:
  "lim_SpeedLimit (newInfo u) = user_SpeedLimit u" "lim_DeviceLimit (newInfo u) = user_DeviceLimit u" "\<not> lim_Revoked (newInfo u)"
  by (simp_all add: newInfo_def)

text \<open>The node and the limiter after a round, for one credential.\<close>

text \<open>The three lists of a comparison as sets of users, for lists in which no user appears twice.\<close>

lemma compare_sets:
  assumes d: "distinct (map user_Uuid old)" "distinct (map user_Uuid new)"
    and cmp: "compareUserList old new = (deleted, added, modified)"
  shows "distinct (map user_Uuid added)" "distinct (map user_Uuid modified)"
    "uuids modified \<inter> uuids added = {}" "uuids modified \<inter> uuids deleted = {}"
    "k \<in> uuids deleted \<longleftrightarrow> k \<in> uuids old \<and> k \<notin> uuids new" "k \<in> uuids added \<longleftrightarrow> k \<in> uuids new \<and> k \<notin> uuids old"
    "u \<in> set new \<Longrightarrow> user_Uuid u \<notin> uuids old \<Longrightarrow> u \<in> set added"
    "u \<in> set new \<Longrightarrow> q \<in> set old \<Longrightarrow> user_Uuid q = user_Uuid u \<Longrightarrow> limitsDiffer q u \<Longrightarrow> u \<in> set modified"
    "u \<in> set new \<Longrightarrow> q \<in> set old \<Longrightarrow> user_Uuid q = user_Uuid u \<Longrightarrow> \<not> limitsDiffer q u \<Longrightarrow> user_Uuid u \<notin> uuids modified"
proof -
  have lists: "deleted = filter (\<lambda>u. user_Uuid u \<notin> uuids new) old" "added = filter (\<lambda>u. user_Uuid u \<notin> uuids old) new"
    "modified = filter (\<lambda>u. \<exists>p\<in>set old. user_Uuid p = user_Uuid u \<and> limitsDiffer p u) new"
    using cmp by (simp_all add: compareUserList_eq [OF d])
  show "distinct (map user_Uuid added)" "distinct (map user_Uuid modified)" using d(2) by (simp_all add: lists distinct_map_filter)
  show "uuids modified \<inter> uuids added = {}" "uuids modified \<inter> uuids deleted = {}" by (auto simp: lists image_iff)
  show "k \<in> uuids deleted \<longleftrightarrow> k \<in> uuids old \<and> k \<notin> uuids new" "k \<in> uuids added \<longleftrightarrow> k \<in> uuids new \<and> k \<notin> uuids old"
    by (auto simp: lists)
  show "u \<in> set new \<Longrightarrow> user_Uuid u \<notin> uuids old \<Longrightarrow> u \<in> set added" by (simp add: lists)
  show "u \<in> set new \<Longrightarrow> q \<in> set old \<Longrightarrow> user_Uuid q = user_Uuid u \<Longrightarrow> limitsDiffer q u \<Longrightarrow> u \<in> set modified" by (auto simp: lists)
  show "user_Uuid u \<notin> uuids modified" if u: "u \<in> set new" "q \<in> set old" "user_Uuid q = user_Uuid u" "\<not> limitsDiffer q u"
  proof
    assume "user_Uuid u \<in> uuids modified"
    then obtain v r where v: "v \<in> set new" "user_Uuid v = user_Uuid u" "r \<in> set old" "user_Uuid r = user_Uuid u" "limitsDiffer r v"
      by (auto simp: lists)
    have "v = u" using d(2) v(1,2) u(1) by (simp add: distinct_map inj_on_def)
    moreover have "r = q" using d(1) v(3,4) u(2,3) by (simp add: distinct_map inj_on_def)
    ultimately show False using v(5) u(4) by simp
  qed
qed

lemma served_sync:
  assumes d: "distinct (map user_Uuid old)" "distinct (map user_Uuid new)" and p: "perms_ok l"
    and cmp: "compareUserList old new = (deleted, added, modified)"
    and n': "node_tag n' = node_tag n"
      "\<forall>k. map_of (auth_users n') k \<noteq> None \<longleftrightarrow> k \<in> uuids added \<or> (k \<notin> uuids deleted \<and> map_of (auth_users n) k \<noteq> None)"
      "\<forall>k. map_of (cache_users n') k = (if k \<in> uuids added \<or> k \<in> uuids deleted then None else map_of (cache_users n) k)"
    and l': "l' = UpdateUser (node_tag n) added deleted modified (revokes (node_tag n) deleted l)"
    and s: "\<forall>k. served n l k (wanted old k)"
  shows "served n' l' k (wanted new k)" "perms_ok l'"
proof -
  note c = compare_sets [OF d cmp]
  note lim = sync_limiter [OF p c(1-4), where tag = "node_tag n", folded l']
  show "perms_ok l'" by (rule lim(1))
  note nk' = n'(1) n'(2) [THEN spec, of k] n'(3) [THEN spec, of k]
  show "served n' l' k (wanted new k)"
  proof (cases "wanted new k")
    case None
    then have k: "k \<notin> uuids new" by (simp add: wanted_None)
    show ?thesis
    proof (cases "k \<in> uuids old")
      case True
      then have "k \<in> uuids deleted" "k \<notin> uuids added" using k c(5,6) by auto
      with None nk' lim(3) [of k] show ?thesis by (simp add: served_def)
    next
      case False
      then have "k \<notin> uuids deleted" "k \<notin> uuids added" using k c(5,6) by auto
      moreover from False have "served n l k None" using s wanted_None [of old k] by metis
      ultimately show ?thesis using None nk' lim(4) [of k] by (simp add: served_def)
    qed
  next
    case (Some w)
    then obtain u where u: "u \<in> set new" "user_Uuid u = k" "w = (user_SpeedLimit u, user_DeviceLimit u)"
      using wanted_Some [OF d(2)] by (cases w) auto
    show ?thesis
    proof (cases "k \<in> uuids old")
      case False
      then have "u \<in> set added" "k \<in> uuids added" using u c(7) [of u] by auto
      with lim(2) [of u] nk' Some u show ?thesis by (auto simp: served_def)
    next
      case True
      then obtain q where q: "q \<in> set old" "user_Uuid q = k" by auto
      have nk: "k \<notin> uuids deleted" "k \<notin> uuids added" using True u(1,2) c(5,6) by auto
      have "wanted old k = Some (user_SpeedLimit q, user_DeviceLimit q)" using q by (auto simp: wanted_Some [OF d(1)])
      with s have "served n l k (Some (user_SpeedLimit q, user_DeviceLimit q))" by metis
      then obtain b where b: "map_of (auth_users n) k \<noteq> None" "map_of (UserLimits l) (UserTag (node_tag n) k) = Some b"
          "\<not> lim_Revoked (info_at l b)" "lim_SpeedLimit (info_at l b) = user_SpeedLimit q" "lim_DeviceLimit (info_at l b) = user_DeviceLimit q"
        by (auto simp: served_def)
      note i = lim(5) [OF nk b(2)]
      have "lim_SpeedLimit (info_at l' b) = user_SpeedLimit u \<and> lim_DeviceLimit (info_at l' b) = user_DeviceLimit u"
        using i b u q c(8,9) [of u q] by (cases "limitsDiffer q u") auto
      with b i lim(4) [OF nk] nk' nk Some u show ?thesis by (simp add: served_def)
    qed
  qed
qed

lemma list_update_nth [simp]: "h\<lparr>limiters := limiters h\<rparr> = h"
  by (cases h) simp

lemma setHeap_same: "setHeap (cheap c) c = c"
  by (cases c; cases "server c"; cases "hy2 (server c)") simp

text \<open>The two calls of the core, whether or not they are skipped for an empty list.\<close>

lemma core_round:
  assumes "map_of (nodes (hy2 vc)) tag = Some n" "node_limiter n = Some a" "a < length (limiters (mheap (hy2 vc)))" "node_tag n = tag"
    "ty = Some ''hysteria2''" "uuids added \<inter> uuids deleted = {}"
  shows "\<exists>vc1 vc2 n' m. (if deleted \<noteq> [] then coreDelUsers deleted tag vc else ok () vc) = (Inr (), vc1) \<and>
    (if added \<noteq> [] then coreAddUsers ty tag added vc1 else ok 0 vc1) = (Inr m, vc2) \<and>
    map_of (nodes (hy2 vc2)) tag = Some n' \<and> node_tag n' = tag \<and> node_limiter n' = Some a \<and>
    mheap (hy2 vc2) = (mheap (hy2 vc))\<lparr>limiters := (limiters (mheap (hy2 vc)))[a := revokes tag deleted (limiters (mheap (hy2 vc)) ! a)]\<rparr> \<and>
    (\<forall>k. map_of (auth_users n') k \<noteq> None \<longleftrightarrow> k \<in> uuids added \<or> (k \<notin> uuids deleted \<and> map_of (auth_users n) k \<noteq> None)) \<and>
    (\<forall>k. map_of (cache_users n') k = (if k \<in> uuids added \<or> k \<in> uuids deleted then None else map_of (cache_users n) k))"
proof -
  let ?h = "mheap (hy2 vc)"
  let ?h' = "?h\<lparr>limiters := (limiters ?h)[a := revokes tag deleted (limiters ?h ! a)]\<rparr>"
  have "\<exists>vc1 n1. (if deleted \<noteq> [] then coreDelUsers deleted tag vc else ok () vc) = (Inr (), vc1) \<and>
    map_of (nodes (hy2 vc1)) tag = Some n1 \<and> mheap (hy2 vc1) = ?h' \<and> node_tag n1 = tag \<and> node_limiter n1 = Some a \<and>
    (\<forall>k. map_of (auth_users n1) k = (if k \<in> uuids deleted then None else map_of (auth_users n) k)) \<and>
    (\<forall>k. map_of (cache_users n1) k = (if k \<in> uuids deleted then None else map_of (cache_users n) k))"
  proof (cases "deleted = []")
    case True
    with assms show ?thesis by (simp add: ok_def)
  next
    case False
    with coreDelUsers_effect [OF assms(1-4), of deleted] show ?thesis by simp
  qed
  then obtain vc1 n1 where v1: "(if deleted \<noteq> [] then coreDelUsers deleted tag vc else ok () vc) = (Inr (), vc1)"
    "map_of (nodes (hy2 vc1)) tag = Some n1" "mheap (hy2 vc1) = ?h'" "node_tag n1 = tag" "node_limiter n1 = Some a"
    "\<forall>k. map_of (auth_users n1) k = (if k \<in> uuids deleted then None else map_of (auth_users n) k)"
    "\<forall>k. map_of (cache_users n1) k = (if k \<in> uuids deleted then None else map_of (cache_users n) k)" by blast
  have "\<exists>vc2 n' m. (if added \<noteq> [] then coreAddUsers ty tag added vc1 else ok 0 vc1) = (Inr m, vc2) \<and>
    map_of (nodes (hy2 vc2)) tag = Some n' \<and> mheap (hy2 vc2) = ?h' \<and> node_tag n' = tag \<and> node_limiter n' = Some a \<and>
    (\<forall>k. map_of (auth_users n') k \<noteq> None \<longleftrightarrow> k \<in> uuids added \<or> map_of (auth_users n1) k \<noteq> None) \<and>
    (\<forall>k. map_of (cache_users n') k = (if k \<in> uuids added then None else map_of (cache_users n1) k))"
  proof (cases "added = []")
    case True
    with v1 show ?thesis by (simp add: ok_def)
  next
    case False
    obtain vc2 n' where e: "coreAddUsers (Some ''hysteria2'') tag added vc1 = (Inr (length added), vc2)"
      "map_of (nodes (hy2 vc2)) tag = Some n'" "mheap (hy2 vc2) = mheap (hy2 vc1)" "node_tag n' = node_tag n1"
      "node_limiter n' = node_limiter n1"
      "\<forall>k. map_of (auth_users n') k \<noteq> None \<longleftrightarrow> k \<in> uuids added \<or> map_of (auth_users n1) k \<noteq> None"
      "\<forall>k. map_of (cache_users n') k = (if k \<in> uuids added then None else map_of (cache_users n1) k)"
      using coreAddUsers_effect [OF v1(2), of added] by blast
    have "(if added \<noteq> [] then coreAddUsers ty tag added vc1 else ok 0 vc1) = (Inr (length added), vc2)"
      using False e(1) assms(5) by simp
    with e v1(3-5) show ?thesis by metis
  qed
  then obtain vc2 n' m where v2: "(if added \<noteq> [] then coreAddUsers ty tag added vc1 else ok 0 vc1) = (Inr m, vc2)"
    "map_of (nodes (hy2 vc2)) tag = Some n'" "mheap (hy2 vc2) = ?h'" "node_tag n' = tag" "node_limiter n' = Some a"
    "\<forall>k. map_of (auth_users n') k \<noteq> None \<longleftrightarrow> k \<in> uuids added \<or> map_of (auth_users n1) k \<noteq> None"
    "\<forall>k. map_of (cache_users n') k = (if k \<in> uuids added then None else map_of (cache_users n1) k)" by blast
  have "\<forall>k. map_of (auth_users n') k \<noteq> None \<longleftrightarrow> k \<in> uuids added \<or> (k \<notin> uuids deleted \<and> map_of (auth_users n) k \<noteq> None)"
    using v2(6) v1(6) by simp
  moreover have "\<forall>k. map_of (cache_users n') k = (if k \<in> uuids added \<or> k \<in> uuids deleted then None else map_of (cache_users n) k)"
    using v2(7) v1(7) by simp
  ultimately show ?thesis using v1(1) v2(1-5) by blast
qed

lemma ctl_okE:
  assumes "ctl_ok c"
  obtains n a i where "map_of (nodes (hy2 (server c))) (ctag c) = Some n" "climiter c = Some a" "node_limiter n = Some a"
    "node_tag n = ctag c" "a < length (limiters (cheap c))" "perms_ok (limiters (cheap c) ! a)"
    "info c = Some i" "info_Type i = ''hysteria2''" "valid_users (userList c)"
    "\<forall>uuid. served n (limiters (cheap c) ! a) uuid (wanted (userList c) uuid)"
  using assms unfolding ctl_ok_def by blast

lemma UpdateUser_nothing [simp]: "UpdateUser tag [] [] [] = (\<lambda>l. l)"
  by (simp add: UpdateUser_def fun_eq_iff)

lemma onLimiter_server:
  assumes "climiter c = Some a" "a < length (limiters (cheap c))"
  shows "nodes (hy2 (server (onLimiter f c))) = nodes (hy2 (server c))"
    "limiters (cheap (onLimiter f c)) ! a = f (limiters (cheap c) ! a)"
    "length (limiters (cheap (onLimiter f c))) = length (limiters (cheap c))"
    "ctag (onLimiter f c) = ctag c" "climiter (onLimiter f c) = climiter c" "info (onLimiter f c) = info c"
    "userGeneration (onLimiter f c) = userGeneration c"
  using assms by (simp_all add: onLimiter_def)

text \<open>One round over any three lists that come out of the comparison.\<close>

lemma round_ok:
  assumes "ctl_ok c" "valid_users new" "compareUserList (userList c) new = (deleted, added, modified)"
  shows "\<exists>vc1 vc2 m. (if deleted \<noteq> [] then coreDelUsers deleted (ctag c) (server c) else ok () (server c)) = (Inr (), vc1) \<and>
    (if added \<noteq> [] then coreAddUsers (map_option info_Type (info c)) (ctag c) added vc1 else ok 0 vc1) = (Inr m, vc2) \<and>
    ctl_ok ((onLimiter (UpdateUser (ctag c) added deleted modified) (c\<lparr>server := vc2\<rparr>))\<lparr>userList := new\<rparr>)"
proof -
  obtain n a i where c: "map_of (nodes (hy2 (server c))) (ctag c) = Some n" "climiter c = Some a" "node_limiter n = Some a"
    "node_tag n = ctag c" "a < length (limiters (cheap c))" "perms_ok (limiters (cheap c) ! a)"
    "info c = Some i" "info_Type i = ''hysteria2''" "valid_users (userList c)"
    "\<forall>uuid. served n (limiters (cheap c) ! a) uuid (wanted (userList c) uuid)" by (rule ctl_okE [OF assms(1)])
  have d: "distinct (map user_Uuid (userList c))" "distinct (map user_Uuid new)" using c(9) assms(2) by (simp_all add: valid_users_def)
  have disj: "uuids added \<inter> uuids deleted = {}"
    using assms(3) unfolding compareUserList_eq [OF d] by (auto simp: image_iff)
  obtain vc1 vc2 n' m where r: "(if deleted \<noteq> [] then coreDelUsers deleted (ctag c) (server c) else ok () (server c)) = (Inr (), vc1)"
    "(if added \<noteq> [] then coreAddUsers (map_option info_Type (info c)) (ctag c) added vc1 else ok 0 vc1) = (Inr m, vc2)"
    "map_of (nodes (hy2 vc2)) (ctag c) = Some n'" "node_tag n' = ctag c" "node_limiter n' = Some a"
    "mheap (hy2 vc2) = (cheap c)\<lparr>limiters := (limiters (cheap c))[a := revokes (ctag c) deleted (limiters (cheap c) ! a)]\<rparr>"
    "\<forall>k. map_of (auth_users n') k \<noteq> None \<longleftrightarrow> k \<in> uuids added \<or> (k \<notin> uuids deleted \<and> map_of (auth_users n) k \<noteq> None)"
    "\<forall>k. map_of (cache_users n') k = (if k \<in> uuids added \<or> k \<in> uuids deleted then None else map_of (cache_users n) k)"
    using core_round [OF c(1,3,5,4) _ disj, of "map_option info_Type (info c)"] c(7,8) by auto
  let ?l = "UpdateUser (ctag c) added deleted modified (revokes (ctag c) deleted (limiters (cheap c) ! a))"
  let ?c = "c\<lparr>server := vc2\<rparr>"
  have h: "climiter ?c = Some a" "a < length (limiters (cheap ?c))" using c(2,5) r(6) by simp_all
  have l: "limiters (cheap (onLimiter (UpdateUser (ctag c) added deleted modified) ?c)) ! a = ?l"
    using onLimiter_server(2) [OF h] r(6) c(5) by simp
  have "served n' ?l k (wanted new k)" for k
    using served_sync(1) [OF d c(6) assms(3), of n' n ?l k] r c by simp
  moreover have "perms_ok ?l"
    using served_sync(2) [OF d c(6) assms(3), of n' n ?l] r c by simp
  ultimately have "ctl_ok ((onLimiter (UpdateUser (ctag c) added deleted modified) ?c)\<lparr>userList := new\<rparr>)"
    unfolding ctl_ok_def using r(3-5) c(2,5,7,8) assms(2) onLimiter_server [OF h] l h(2) by (intro exI [of _ n'] exI [of _ a]) simp
  with r(1,2) show ?thesis by blast
qed

lemma applySnapshot_ok:
  assumes "ctl_ok c" "valid_users (snap_Users sn)"
  shows "ctl_ok (snd (applySnapshot sn (pc, c))) \<and> userList (snd (applySnapshot sn (pc, c))) = snap_Users sn \<and>
    fst (applySnapshot sn (pc, c)) = CommitUsers (Some sn) pc"
proof -
  obtain deleted added modified where cmp: "compareUserList (userList c) (snap_Users sn) = (deleted, added, modified)"
    by (metis prod.exhaust)
  obtain vc1 vc2 m where r: "(if deleted \<noteq> [] then coreDelUsers deleted (ctag c) (server c) else ok () (server c)) = (Inr (), vc1)"
    "(if added \<noteq> [] then coreAddUsers (map_option info_Type (info c)) (ctag c) added vc1 else ok 0 vc1) = (Inr m, vc2)"
    "ctl_ok ((onLimiter (UpdateUser (ctag c) added deleted modified) (c\<lparr>server := vc2\<rparr>))\<lparr>userList := snap_Users sn\<rparr>)"
    using round_ok [OF assms cmp] by blast
  have same: "onLimiter (\<lambda>l. l) c = c" for c
    using setHeap_same [of c] by (simp add: onLimiter_def split: option.splits)
  have "applySnapshot sn (pc, c) = (CommitUsers (Some sn) pc,
      (onLimiter (UpdateUser (ctag c) added deleted modified) (c\<lparr>server := vc2\<rparr>))\<lparr>userList := snap_Users sn\<rparr>)"
  proof (cases "added \<noteq> [] \<or> deleted \<noteq> [] \<or> modified \<noteq> []")
    case True
    then show ?thesis using cmp r(1,2) by (simp add: applySnapshot_def del: if_cancel)
  next
    case False
    then have "onLimiter (UpdateUser (ctag c) added deleted modified) (c\<lparr>server := vc2\<rparr>) = c\<lparr>server := vc2\<rparr>"
      using same by simp
    with False show ?thesis using cmp r(1,2) by (simp add: applySnapshot_def)
  qed
  with r(3) show ?thesis by (simp add: onLimiter_def split: option.splits)
qed

text \<open>C12: Synchronisation refines the panel's user list. From a state in which exactly the users of the
  current list are served, applying a valid snapshot leads to a state in which exactly the users
  of the snapshot are served: each can authenticate and has an unrevoked permission with the
  snapshot's speed and device limits, all others can neither authenticate nor have traffic
  counted; and the snapshot's validator is committed.\<close>

theorem controller_sync_refines:
  assumes "ctl_ok c" "valid_users (snap_Users sn)"
  shows "ctl_ok (snd (applySnapshot sn (pc, c))) \<and> userList (snd (applySnapshot sn (pc, c))) = snap_Users sn \<and>
    fst (applySnapshot sn (pc, c)) = CommitUsers (Some sn) pc"
  by (rule applySnapshot_ok [OF assms])

lemma revokeReportedUsers_ok:
  assumes "ctl_ok c" "ids \<noteq> []"
  shows "\<exists>c'. revokeReportedUsers ids (pc, c) = (Inr (), InvalidateUsers pc, c') \<and> ctl_ok c' \<and>
    userList c' = filter (\<lambda>u. user_Id u \<notin> set ids) (userList c) \<and>
    finishSync (userGeneration c) snapshot (pc', c') = (InvalidateUsers pc', c')"
proof -
  let ?new = "filter (\<lambda>u. user_Id u \<notin> set ids) (userList c)" and ?del = "filter (\<lambda>u. user_Id u \<in> set ids) (userList c)"
  obtain n a i where c: "map_of (nodes (hy2 (server c))) (ctag c) = Some n" "climiter c = Some a" "node_limiter n = Some a"
    "node_tag n = ctag c" "a < length (limiters (cheap c))" "perms_ok (limiters (cheap c) ! a)"
    "info c = Some i" "info_Type i = ''hysteria2''" "valid_users (userList c)"
    "\<forall>uuid. served n (limiters (cheap c) ! a) uuid (wanted (userList c) uuid)" by (rule ctl_okE [OF assms(1)])
  have vn: "valid_users ?new" using c(9) by (auto simp: valid_users_def list_all_iff distinct_map_filter)
  have d: "distinct (map user_Uuid (userList c))" "distinct (map user_Uuid ?new)" using c(9) vn by (simp_all add: valid_users_def)
  have new: "user_Uuid u \<in> uuids ?new \<longleftrightarrow> user_Id u \<notin> set ids" if "u \<in> set (userList c)" for u
    using d(1) that by (auto simp: distinct_map inj_on_def)
  have cmp: "compareUserList (userList c) ?new = (?del, [], [])"
  proof -
    have "filter (\<lambda>u. user_Uuid u \<notin> uuids ?new) (userList c) = ?del" using new by (intro filter_cong) auto
    moreover have "filter (\<lambda>u. user_Uuid u \<notin> uuids (userList c)) ?new = []" by (auto simp: filter_empty_conv)
    moreover have "filter (\<lambda>u. \<exists>p\<in>set (userList c). user_Uuid p = user_Uuid u \<and> limitsDiffer p u) ?new = []"
      using d(1) by (auto simp: filter_empty_conv distinct_map inj_on_def)
    ultimately show ?thesis by (simp only: compareUserList_eq [OF d])
  qed
  obtain vc n' where r: "coreDelUsers ?del (ctag c) (server c) = (Inr (), vc)" "map_of (nodes (hy2 vc)) (ctag c) = Some n'"
    "mheap (hy2 vc) = (cheap c)\<lparr>limiters := (limiters (cheap c))[a := revokes (ctag c) ?del (limiters (cheap c) ! a)]\<rparr>"
    "node_tag n' = ctag c" "node_limiter n' = Some a"
    "\<forall>k. map_of (auth_users n') k = (if k \<in> uuids ?del then None else map_of (auth_users n) k)"
    "\<forall>k. map_of (cache_users n') k = (if k \<in> uuids ?del then None else map_of (cache_users n) k)"
    using coreDelUsers_effect [OF c(1,3,5,4), of ?del] by blast
  let ?l = "UpdateUser (ctag c) [] ?del [] (revokes (ctag c) ?del (limiters (cheap c) ! a))"
  let ?c = "c\<lparr>userGeneration := userGeneration c + 1, server := vc\<rparr>"
  let ?c' = "(onLimiter (UpdateUser (ctag c) [] ?del []) ?c)\<lparr>userList := ?new\<rparr>"
  have h: "climiter ?c = Some a" "a < length (limiters (cheap ?c))" using c(2,5) r(3) by simp_all
  have l: "limiters (cheap (onLimiter (UpdateUser (ctag c) [] ?del []) ?c)) ! a = ?l"
    using onLimiter_server(2) [OF h] r(3) c(5) by simp
  have "served n' ?l k (wanted ?new k)" for k using served_sync(1) [OF d c(6) cmp, of n' n ?l k] r c by simp
  moreover have "perms_ok ?l" using served_sync(2) [OF d c(6) cmp, of n' n ?l] r c by simp
  ultimately have "ctl_ok ?c'"
    unfolding ctl_ok_def using r(2,4,5) c(2,5,7,8) vn onLimiter_server [OF h] l h(2) by (intro exI [of _ n'] exI [of _ a]) simp
  moreover have "revokeReportedUsers ids (pc, c) = (Inr (), InvalidateUsers pc, ?c')"
    using assms(2) r(1) by (simp add: revokeReportedUsers_def Let_def ok_def)
  moreover have "finishSync (userGeneration c) snapshot (pc', ?c') = (InvalidateUsers pc', ?c')"
    using onLimiter_server(7) [OF h] by (simp add: finishSync_def)
  ultimately show ?thesis by (intro exI [of _ ?c']) simp
qed

text \<open>C16: A revocation reported by the panel takes effect at once and for good. After
  \<open>revokeReportedUsers\<close>, exactly the remaining users are served, the cached validator is dropped so
  that the next fetch is complete, and a synchronisation whose request was sent before the
  revocation has no effect when its answer arrives.\<close>

theorem controller_revocation_fenced:
  assumes "ctl_ok c" "ids \<noteq> []"
  shows "\<exists>c'. revokeReportedUsers ids (pc, c) = (Inr (), InvalidateUsers pc, c') \<and> ctl_ok c' \<and>
    userList c' = filter (\<lambda>u. user_Id u \<notin> set ids) (userList c) \<and>
    finishSync (userGeneration c) snapshot (pc', c') = (InvalidateUsers pc', c')"
  by (rule revokeReportedUsers_ok [OF assms])

text \<open>What being served means for a client of the node.\<close>

lemma ctl_unlisted_refused:
  assumes "ctl_ok c" "uuid \<notin> uuids (userList c)" "map_of (nodes (hy2 (server c))) (ctag c) = Some n"
  shows "Authenticate uuid n = (False, []) \<and> \<not> fst (LogTraffic uuid tx rx n (cheap c))"
proof -
  obtain a where a: "node_limiter n = Some a" "node_tag n = ctag c" "served n (limiters (cheap c) ! a) uuid None"
    using assms(2,3) wanted_None [of "userList c" uuid] ctl_okE [OF assms(1)] by (metis option.inject)
  then show ?thesis
    by (auto simp: served_def Authenticate_def LogTraffic_def getUser_def lookupLimit_def loggerLimiter_def)
qed

section \<open>A started controller\<close>

lemma AddLimiter_lookup:
  assumes "distinct (map user_Uuid us)"
  shows "u \<in> set us \<Longrightarrow> \<exists>a. map_of (UserLimits (AddLimiter ty tag us alive)) (UserTag tag (user_Uuid u)) = Some a \<and>
      info_at (AddLimiter ty tag us alive) a = newInfo u"
    "k \<notin> uuids us \<Longrightarrow> map_of (UserLimits (AddLimiter ty tag us alive)) (UserTag tag k) = None"
  unfolding AddLimiter_def using fold_store_lookup [OF _ assms] fold_store_other by fastforce+

lemma served_start:
  assumes "distinct (map user_Uuid us)" "node_tag n = tag"
    "\<forall>k. map_of (auth_users n) k \<noteq> None \<longleftrightarrow> k \<in> uuids us" "\<forall>k. map_of (cache_users n) k = None"
  shows "served n (AddLimiter ty tag us alive) k (wanted us k)"
proof (cases "wanted us k")
  case None
  then have "k \<notin> uuids us" by (simp add: wanted_None)
  with None assms(2-4) AddLimiter_lookup(2) [OF assms(1), of k] show ?thesis by (auto simp: served_def)
next
  case (Some w)
  obtain sp dv where w: "w = (sp, dv)" by fastforce
  then obtain u where u: "u \<in> set us" "user_Uuid u = k" "user_SpeedLimit u = sp" "user_DeviceLimit u = dv"
    using Some wanted_Some [OF assms(1)] by auto
  then have "map_of (auth_users n) k \<noteq> None" using assms(3) by blast
  with Some w u AddLimiter_lookup(1) [OF assms(1) u(1), of ty tag alive] assms(2) show ?thesis by (auto simp: served_def)
qed

lemma startNode_serves:
  assumes "startNode se i c = (Inr (), c')" "valid_users (userList c)"
  shows "ctl_ok c' \<and> userList c' = userList c"
proof -
  let ?a = "length (limiters (cheap c))"
  let ?c = "registerNew i c"
  have rc: "ctag ?c = ctag c" "userList ?c = userList c" "climiter ?c = Some ?a" "hy2 (server ?c) = (hy2 (server c))\<lparr>mheap :=
      (cheap c)\<lparr>limiters := limiters (cheap c) @ [AddLimiter (info_Type i) (ctag c) (userList c) (aliveMap c)],
        limiterMap := AList.update (ctag c) ?a (limiterMap (cheap c))\<rparr>\<rparr>"
    by (simp_all add: registerNew_def Let_def registerLimiter_def)
  let ?n = "\<lparr>node_tag = ctag c, node_limiter = Some ?a, auth_users = [], cache_users = [], node_counter = [],
      limitCache = [], lastLimitCacheSweep = 0, node_stopped = False\<rparr>"
  obtain vc where vc: "coreAddNode (ctag c) (Some (info_Type i)) (start_serverErr se) (server ?c) = (Inr (), vc)"
    "\<exists>m vc2. coreAddUsers (Some (info_Type i)) (ctag c) (userList c) vc = (Inr m, vc2) \<and> c' = ?c\<lparr>server := vc2, info := Some i\<rparr>"
    using assms(1) rc by (auto simp: startNode_def Let_def fail_def ok_def split: option.splits prod.splits sum.splits)
  have ty: "info_Type i = ''hysteria2''" and hy: "map_of (nodes (hy2 vc)) (ctag c) = Some ?n" "mheap (hy2 vc) = mheap (hy2 (server ?c))"
    using vc(1) rc(4) by (auto simp: coreAddNode_def AddNode_def fail_def ok_def split: if_splits option.splits)
  obtain vc2 n' where e: "coreAddUsers (Some ''hysteria2'') (ctag c) (userList c) vc = (Inr (length (userList c)), vc2)"
    "map_of (nodes (hy2 vc2)) (ctag c) = Some n'" "mheap (hy2 vc2) = mheap (hy2 vc)" "node_tag n' = ctag c" "node_limiter n' = Some ?a"
    "\<forall>k. map_of (auth_users n') k \<noteq> None \<longleftrightarrow> k \<in> uuids (userList c)" "\<forall>k. map_of (cache_users n') k = None"
    using coreAddUsers_effect [OF hy(1), of "userList c"] by auto
  have c': "c' = ?c\<lparr>server := vc2, info := Some i\<rparr>" using vc(2) e(1) ty by auto
  have l: "limiters (cheap c') ! ?a = AddLimiter (info_Type i) (ctag c) (userList c) (aliveMap c)" "?a < length (limiters (cheap c'))"
    using c' e(3) hy(2) rc(4) by simp_all
  have "distinct (map user_Uuid (userList c))" using assms(2) by (simp add: valid_users_def)
  then have "\<forall>k. served n' (limiters (cheap c') ! ?a) k (wanted (userList c) k)" using served_start [OF _ e(4,6,7)] l by simp
  with e(2,4,5) c' l ty rc assms(2) perms_start show ?thesis
    unfolding ctl_ok_def by (intro conjI exI [of _ n'] exI [of _ ?a]) simp_all
qed

text \<open>A node starts with exactly its users. When the start of a node succeeds, exactly the users of
  the list that the panel sent are served, with their limits.\<close>

theorem controller_start_serves:
  assumes "startNode se i c = (Inr (), c')" "valid_users (userList c)"
  shows "ctl_ok c' \<and> userList c' = userList c"
  by (rule startNode_serves [OF assms])

text \<open>C22: A changed identifier goes unnoticed. If the panel assigns new identifiers to users whose
  credentials and limits stay the same, the synchronisation adopts the new list but leaves the
  core as it is: traffic is still captured under the old identifiers.\<close>

theorem controller_id_change_ignored:
  assumes "distinct (map user_Uuid (userList c))" "snap_Users sn = map (\<lambda>u. u\<lparr>user_Id := f (user_Uuid u)\<rparr>) (userList c)"
  shows "applySnapshot sn (pc, c) = (CommitUsers (Some sn) pc, c\<lparr>userList := snap_Users sn\<rparr>)"
proof -
  have d: "distinct (map user_Uuid (snap_Users sn))" using assms by (simp add: comp_def)
  have u: "uuids (snap_Users sn) = uuids (userList c)" using assms(2) by (auto simp: image_image)
  have "filter (\<lambda>v. \<exists>p\<in>set (userList c). user_Uuid p = user_Uuid v \<and> limitsDiffer p v) (snap_Users sn) = []"
    using assms by (auto simp: filter_empty_conv distinct_map inj_on_def)
  moreover have "filter (\<lambda>v. user_Uuid v \<notin> uuids (snap_Users sn)) (userList c) = []" unfolding u by (simp add: filter_empty_conv)
  moreover have "filter (\<lambda>v. user_Uuid v \<notin> uuids (userList c)) (snap_Users sn) = []"
    unfolding u [symmetric] by (simp add: filter_empty_conv)
  ultimately have "compareUserList (userList c) (snap_Users sn) = ([], [], [])"
    by (simp only: compareUserList_eq [OF assms(1) d])
  then show ?thesis by (cases c) (simp add: applySnapshot_def ok_def)
qed

section \<open>A concrete controller\<close>

definition bareInfo :: NodeInfo where
  "bareInfo = \<lparr>info_etag = [], info_bodyHash = [], info_Id = 1, info_Type = ''hysteria2'', info_Security = 1,
     info_PushInterval = 60 * second, info_PullInterval = 60 * second, info_Tag = ''t'', info_Common = Some demoCommon\<rparr>"

definition bareController :: Controller where
  "bareController = \<lparr>server = \<lparr>hy2 = \<lparr>nodes = [], mheap = \<lparr>limiters = [], limiterMap = [], storageHeap = [], cacheHeap = []\<rparr>\<rparr>,
     uidMap = []\<rparr>, ctag = ''t'', climiter = None, userList = oldUsers, aliveMap = [], info = None, userGeneration = 0,
     onlineSmallTraffic = [], closed = False, lastReloadAt = None, pullInterval = None, pushInterval = None, reloadCh = Some False\<rparr>"

definition quietStart :: startEnv where
  "quietStart = \<lparr>start_ctxErr = None, start_certErr = None, start_serverErr = None, start_delErr = None\<rparr>"

definition demoController :: Controller where
  "demoController = snd (startNode quietStart bareInfo bareController)"

lemma demo_started: "startNode quietStart bareInfo bareController = (Inr (), demoController)"
  by (simp add: demoController_def startNode_def registerNew_def quietStart_def bareInfo_def bareController_def coreAddNode_def
      AddNode_def coreAddUsers_def AddUsers_def Let_def ok_def registerLimiter_def)

lemma valid_demo: "valid_users oldUsers" "valid_users newUsers"
  by (simp_all add: valid_users_def oldUsers_def newUsers_def someUser_def)

theorem controller_start_serves_witness:
  "ctl_ok demoController \<and> userList demoController = oldUsers"
  using controller_start_serves [OF demo_started] valid_demo by (simp add: bareController_def)

lemma demo_ok: "ctl_ok demoController" "userList demoController = oldUsers"
proof -
  have "ctl_ok demoController \<and> userList demoController = oldUsers"
    using startNode_serves [OF demo_started] valid_demo by (simp add: bareController_def)
  then show "ctl_ok demoController" "userList demoController = oldUsers" by simp_all
qed

definition emptyCache :: panelCache where
  "emptyCache = \<lparr>nodeEtag = [], userEtag = [], responseBodyHash = []\<rparr>"

theorem controller_sync_refines_witness:
  "ctl_ok (snd (applySnapshot \<lparr>snap_Users = newUsers, snap_ETag = ''e''\<rparr> (emptyCache, demoController))) \<and>
   userList (snd (applySnapshot \<lparr>snap_Users = newUsers, snap_ETag = ''e''\<rparr> (emptyCache, demoController))) = newUsers"
  using controller_sync_refines [OF demo_ok(1), of "\<lparr>snap_Users = newUsers, snap_ETag = ''e''\<rparr>"] valid_demo by simp

theorem controller_revocation_fenced_witness:
  "\<exists>c'. revokeReportedUsers [1] (emptyCache, demoController) = (Inr (), emptyCache, c') \<and> ctl_ok c' \<and>
     userList c' = [someUser 2 ''b'' 0] \<and>
     finishSync (userGeneration demoController) (Some \<lparr>snap_Users = oldUsers, snap_ETag = ''e''\<rparr>) (emptyCache, c') = (emptyCache, c')"
  using controller_revocation_fenced [OF demo_ok(1), of "[1]" emptyCache "Some \<lparr>snap_Users = oldUsers, snap_ETag = ''e''\<rparr>" emptyCache]
  by (simp add: demo_ok(2) oldUsers_def someUser_def InvalidateUsers_def emptyCache_def)

theorem controller_id_change_ignored_witness:
  "applySnapshot \<lparr>snap_Users = [someUser 9 ''a'' 0, someUser 9 ''b'' 0], snap_ETag = ''e''\<rparr> (emptyCache, demoController) =
     (emptyCache\<lparr>userEtag := ''e''\<rparr>, demoController\<lparr>userList := [someUser 9 ''a'' 0, someUser 9 ''b'' 0]\<rparr>)"
  using controller_id_change_ignored [of demoController "\<lparr>snap_Users = [someUser 9 ''a'' 0, someUser 9 ''b'' 0], snap_ETag = ''e''\<rparr>" "\<lambda>_. 9" emptyCache]
  by (simp add: demo_ok(2) oldUsers_def someUser_def CommitUsers_def)

end
