(* ===== verification/Runtime_Guard.thy ===== *)
theory Runtime_Guard
  imports Outbox_Flush
begin

text \<open>
  The outbox as a client of its runtime: whatever the three callbacks keep true of the runtime,
  every reporting round and every drain keeps true, since the outbox reaches the runtime only
  through them.
\<close>

named_theorems guard_rules \<open>functions of the outbox that keep a property of the runtime\<close>

locale runtime_guard =
  fixes P :: "'r \<Rightarrow> bool"
    and hk :: "'r hooks"
  assumes capture_keeps: "P rt \<Longrightarrow> P (snd (snd (capture hk (pc, rt))))"
    and commit_keeps: "P rt \<Longrightarrow> P (snd (snd (commit hk rows (pc, rt))))"
    and revoke_keeps: "P rt \<Longrightarrow> P (snd (snd (revoke hk ids (pc, rt))))"
begin

abbreviation kept :: "('e + 'a) \<times> ('b, 'r) client \<Rightarrow> bool" where
  "kept x \<equiv> P (runtime (snd x))"

lemma kept_bindE [guard_rules]:
  assumes "kept m" "\<And>a t. P (runtime t) \<Longrightarrow> kept (k a t)"
  shows "kept (bindE m k)"
  using assms by (cases m; cases "fst m") (auto simp: bindE_def)

lemma kept_return [guard_rules]: "P (runtime s) \<Longrightarrow> kept (ok a s)" "P (runtime s) \<Longrightarrow> kept (fail e s)"
  by (simp_all add: ok_def fail_def)

lemma kept_option:
  "(x = None \<Longrightarrow> kept a) \<Longrightarrow> (\<And>y. x = Some y \<Longrightarrow> kept (f y)) \<Longrightarrow> kept (case x of None \<Rightarrow> a | Some y \<Rightarrow> f y)"
  by (cases x) auto

lemma kept_if: "(c \<Longrightarrow> kept x) \<Longrightarrow> (\<not> c \<Longrightarrow> kept y) \<Longrightarrow> kept (if c then x else y)"
  by simp

lemma kept_result:
  assumes "kept x" "\<And>e t. P (runtime t) \<Longrightarrow> kept (f e t)" "\<And>a t. P (runtime t) \<Longrightarrow> kept (g a t)"
  shows "kept (case x of (Inl e, t) \<Rightarrow> f e t | (Inr a, t) \<Rightarrow> g a t)"
  using assms by (cases x; cases "fst x") auto

lemma kept_answer:
  fixes x :: "'x option \<times> string \<times> bool"
  assumes "\<And>body etag same. kept (f body etag same s)"
  shows "kept ((case x of (body, etag, same) \<Rightarrow> f body etag same) s)"
  using assms by (cases x) simp

lemma kept_answer':
  fixes x :: "'x option \<times> string \<times> bool"
  assumes "\<And>body etag same. kept (f body etag same)"
  shows "kept (case x of (body, etag, same) \<Rightarrow> f body etag same)"
  using assms by (cases x) simp

lemma kept_cursor_value:
  fixes x :: "u64 option \<times> u64 \<times> string"
  assumes "\<And>a b c. kept (f a b c)"
  shows "kept (case x of (a, b, c) \<Rightarrow> f a b c)"
  using assms by (cases x) simp

lemma kept_both:
  assumes "\<And>a b. kept (f a b)" "kept z"
  shows "kept (case (x, y) of (Some a, Some b) \<Rightarrow> f a b | _ \<Rightarrow> z)"
  using assms by (cases x; cases y) simp_all

lemma kept_nested:
  assumes "kept a" "kept b" "\<And>z. kept (f z)"
  shows "kept (case x of None \<Rightarrow> a | Some None \<Rightarrow> b | Some (Some z) \<Rightarrow> f z)"
  using assms by (simp split: option.split)

lemma kept_sum:
  "(\<And>e. kept (f e)) \<Longrightarrow> (\<And>a. kept (g a)) \<Longrightarrow> kept (case x of Inl e \<Rightarrow> f e | Inr a \<Rightarrow> g a)"
  by (simp split: sum.split)

lemmas kept_control = kept_sum kept_answer kept_answer' kept_cursor_value kept_both kept_nested kept_option kept_if kept_result kept_bindE kept_return

lemma kept_calls [guard_rules]:
  "P (runtime s) \<Longrightarrow> kept (callCapture hk s)"
  "P (runtime s) \<Longrightarrow> kept (callCommit hk rows s)"
  "P (runtime s) \<Longrightarrow> kept (callRevoke hk ids s)"
  using capture_keeps commit_keeps revoke_keeps
  by (auto simp: callCapture_def callCommit_def callRevoke_def split: prod.splits) (metis snd_conv)+

lemma kept_steps [guard_rules]:
  "P (runtime s) \<Longrightarrow> kept (fsop env s)" "P (runtime s) \<Longrightarrow> kept (request env meth action etag body s)"
  "P (runtime s) \<Longrightarrow> kept (acquireLock env busy s)"
  by (auto simp: fsop_def request_def acquireLock_def Let_def ok_def fail_def split: sum.splits)

lemma kept_writeTemp [guard_rules]: "P (runtime s) \<Longrightarrow> kept (writeTemp env s)"
  using writeTemp_cases [of env s] by (cases "writeTemp env s") auto

lemma kept_store [guard_rules]:
  "P (runtime s) \<Longrightarrow> kept (syncReportDirectory env s)"
  "P (runtime s) \<Longrightarrow> kept (readReportState env s)"
  unfolding syncReportDirectory_def readReportState_def
  by (intro kept_control kept_steps | simp)+

lemma kept_finishStateSync [guard_rules]: "P (runtime s) \<Longrightarrow> kept (finishStateSync env s)"
  unfolding finishStateSync_def Let_def by (intro kept_control kept_store | simp)+

lemma kept_save [guard_rules]: "P (runtime s) \<Longrightarrow> kept (saveReportState env st s)"
  unfolding saveReportState_def Let_def
  by (intro kept_control kept_steps kept_writeTemp kept_finishStateSync | simp)+

lemma kept_load [guard_rules]: "P (runtime s) \<Longrightarrow> kept (loadReportState env s)"
  unfolding loadReportState_def loadUnsynced_def loadCurrent_def loadFile_def loadRemote_def
  by (intro kept_control kept_steps kept_store kept_save kept_finishStateSync | simp)+

lemma kept_getUsers [guard_rules]: "P (runtime s) \<Longrightarrow> kept (getUsers env etag s)"
  unfolding getUsers_def by (intro kept_control kept_steps | simp)+

lemma kept_commitOnce [guard_rules]: "P (runtime s) \<Longrightarrow> kept (commitOnce hk b s)"
  unfolding commitOnce_def by (intro kept_control kept_calls | simp)+

lemma kept_finishAck [guard_rules]: "P (runtime s) \<Longrightarrow> kept (finishAck env hk ob b ack s)"
  unfolding finishAck_def Let_def by (intro kept_control kept_calls kept_commitOnce kept_save | simp)+

lemma kept_sendPendingOnce [guard_rules]: "P (runtime s) \<Longrightarrow> kept (sendPendingOnce env hk s)"
  unfolding sendPendingOnce_def
  by (intro kept_control kept_steps kept_finishAck | simp)+

lemma kept_rebase [guard_rules]: "P (runtime s) \<Longrightarrow> kept (rebaseTrafficConflict env c s)"
  unfolding rebaseTrafficConflict_def by (intro kept_control kept_save | simp)+

lemma kept_cursor [guard_rules]: "P (runtime s) \<Longrightarrow> kept (readTrafficCursor env s)"
  unfolding readTrafficCursor_def by (intro kept_control kept_steps | simp)+

lemma kept_finishIsolation [guard_rules]: "P (runtime s) \<Longrightarrow> kept (finishTrafficIsolation env hk s)"
  unfolding finishTrafficIsolation_def
  by (intro kept_control kept_getUsers kept_calls kept_commitOnce kept_save | simp)+

lemma kept_isolate [guard_rules]:
  "P (runtime s) \<Longrightarrow> kept (isolateTraffic env hk n s)" "P (runtime s) \<Longrightarrow> kept (isolateAtCursor env hk s)"
  unfolding isolateTraffic_def isolateAtCursor_def
  by (intro kept_control kept_cursor kept_save kept_finishIsolation | simp)+

text \<open>A second attempt is the last one.\<close>

lemma kept_sendAttempt [guard_rules]: "P (runtime s) \<Longrightarrow> kept (sendAttempt env hk attempt s)"
proof -
  have last: "kept (sendAttempt env hk (Suc n) s)" if "P (runtime s)" for n s
    unfolding sendAttempt.simps [of env hk "Suc n"]
    by (intro kept_control kept_sendPendingOnce kept_save kept_isolate kept_rebase that | simp)+
  assume "P (runtime s)"
  then show ?thesis
    unfolding sendAttempt.simps [of env hk attempt]
    by (intro kept_control kept_sendPendingOnce kept_save kept_isolate kept_rebase last | simp)+
qed

lemma kept_sendPending [guard_rules]: "P (runtime s) \<Longrightarrow> kept (sendPending env hk s)"
  unfolding sendPending_def by (intro kept_control kept_finishIsolation kept_sendAttempt | simp)+

lemma kept_flushBuffered [guard_rules]: "P (runtime s) \<Longrightarrow> kept (flushBuffered env hk batches s)"
proof (induction "bufferedLen s" arbitrary: s batches rule: less_induct)
  case less
  have rec: "kept (flushBuffered env hk b t2)"
    if "outbox s = Some ob" "rs_Buffered ob \<noteq> []" "selectTrafficBatch (rs_Buffered ob) = Inr (sel, rest)"
      "saveReportState env (pendingState ob sel rest) (s\<lparr>recovered := True\<rparr>) = (Inr u, t1)" "sendPending env hk t1 = (Inr v, t2)"
    for ob sel rest u t1 v t2 b
  proof -
    have "P (runtime t1)" using kept_save [of "s\<lparr>recovered := True\<rparr>" env "pendingState ob sel rest"] less.prems that(4) by simp
    then have "P (runtime t2)" using kept_sendPending [of t1 env] that(5) by simp
    with less.hyps buffered_decreases [OF that] show ?thesis by blast
  qed
  show ?case
    unfolding flushBuffered.simps [of env hk batches s]
    using less.prems kept_save [of "s\<lparr>recovered := True\<rparr>" env] kept_sendPending [of _ env]
    by (auto simp: bindE_def ok_def fail_def rec split: option.splits sum.splits prod.splits) (metis snd_conv)+
qed

lemma kept_flushQueue [guard_rules]: "P (runtime s) \<Longrightarrow> kept (flushQueue env hk batches queued s)"
proof (induction "length queued" arbitrary: s batches queued rule: less_induct)
  case less
  have rec: "kept (flushQueue env hk b rest t)" if "selectTrafficBatch queued = Inr (sel, rest)" "queued \<noteq> []" "P (runtime t)" for sel rest b t
    using less.hyps [of rest t b] select_batch_shorter [OF that(1,2)] that(3) by blast
  show ?case
    unfolding flushQueue.simps [of env hk batches queued s]
  proof (intro kept_option kept_if kept_return less.prems)
    show "kept (case selectTrafficBatch queued of Inl e \<Rightarrow> fail e s | Inr (selected, rest) \<Rightarrow>
        (case outbox s of None \<Rightarrow> fail (Panic ''nil outbox'') s
         | Some ob \<Rightarrow> bindE (saveReportState env (pendingState ob selected []) s) (\<lambda>_ s.
             bindE (sendPending env hk s) (\<lambda>_ s. if batches > 0
               then (if batches - 1 = 0 then ok () s else flushQueue env hk (batches - 1) rest s)
               else flushQueue env hk batches rest s))))" if "queued \<noteq> []"
    proof (cases "selectTrafficBatch queued")
      case (Inr x)
      obtain sel rest where x: "x = (sel, rest)" by fastforce
      show ?thesis
        unfolding Inr x by (simp, intro kept_control kept_save kept_sendPending rec [OF Inr [unfolded x] that] less.prems)
    qed (simp add: kept_return less.prems)
  qed
qed

lemma FlushTrafficLimit_keeps:
  assumes "P (runtime s)"
  shows "P (runtime (snd (FlushTrafficLimit env hk batches s)))"
  unfolding FlushTrafficLimit_def flushCaptured_def Let_def
  by (intro kept_control kept_steps kept_load kept_sendPending kept_flushBuffered kept_flushQueue kept_calls assms | assumption)+

lemma PersistTraffic_keeps:
  assumes "P (runtime s)"
  shows "P (runtime (snd (PersistTraffic env hk s)))"
  unfolding PersistTraffic_def persistRows_def Let_def
  by (intro kept_control kept_steps kept_load kept_save kept_calls assms | simp)+

end

end
