(* ===== verification/Controller_Run.thy ===== *)
theory Controller_Run
  imports Controller Runtime_Guard
begin

text \<open>
  The life of a controller: its periodic tasks run in any order and any number of times between
  start and close, with traffic callbacks in between. Two results connect the components: the
  tasks are runs of the outbox in the sense of Outbox\_Run, so its guarantees hold for the
  program; and what the controller serves stays in step with its user list.
\<close>

section \<open>The controller's callbacks\<close>

lemma coreDelUsers_plain: "plain_error (fst (coreDelUsers us tag vc))"
  by (auto simp: coreDelUsers_def DelUsers_def fail_def ok_def panics.simps split: option.splits prod.splits sum.splits)

lemma reportHooks_ok: "hooks_ok (reportHooks c)"
proof -
  have "plain_error (fst (revokeReportedUsers ids x))" for ids x
    using coreDelUsers_plain
    by (auto simp: revokeReportedUsers_def Let_def ok_def fail_def split: prod.splits sum.splits) (metis fst_conv plain_error_simps(2))+
  then show ?thesis
    by (auto simp: hooks_ok_def reportHooks_def captureTraffic_def commitTraffic_def ok_def split: prod.splits)
qed

lemma drainHooks_ok: "hooks_ok drainHooks"
  by (auto simp: hooks_ok_def drainHooks_def ok_def split: prod.splits)

lemma noHooks_ok: "hooks_ok noHooks"
  by (auto simp: hooks_ok_def noHooks_def ok_def)

section \<open>What leaves the served users alone\<close>

definition same_limits :: "Limiter \<Rightarrow> Limiter \<Rightarrow> bool" where
  "same_limits l l' \<longleftrightarrow>
     UserLimits l' = UserLimits l \<and> length (infos l') = length (infos l) \<and>
     (\<forall>a < length (infos l). lim_Revoked (info_at l' a) = lim_Revoked (info_at l a) \<and>
        lim_SpeedLimit (info_at l' a) = lim_SpeedLimit (info_at l a) \<and>
        lim_DeviceLimit (info_at l' a) = lim_DeviceLimit (info_at l a))"

lemma same_limits_refl [simp]: "same_limits l l"
  by (simp add: same_limits_def)

lemma same_limits_set:
  "lim_Revoked u = lim_Revoked (info_at l a) \<Longrightarrow> lim_SpeedLimit u = lim_SpeedLimit (info_at l a) \<Longrightarrow>
   lim_DeviceLimit u = lim_DeviceLimit (info_at l a) \<Longrightarrow> same_limits l (l\<lparr>infos := (infos l)[a := u]\<rparr>)"
  by (simp add: same_limits_def nth_update_at)

lemma same_limits_trans: "same_limits l l1 \<Longrightarrow> same_limits l1 l2 \<Longrightarrow> same_limits l l2"
  by (auto simp: same_limits_def)

lemma same_limits_fields: "UserLimits l' = UserLimits l \<Longrightarrow> infos l' = infos l \<Longrightarrow> same_limits l l'"
  by (simp add: same_limits_def)

lemma same_limits_ops:
  "same_limits l (snd (GetOnlineDevice l))" "same_limits l (UpdateAliveList alive l)"
  by (simp_all add: same_limits_def GetOnlineDevice_def UpdateAliveList_def)

lemma same_limits_check:
  assumes "CheckLimit now t ip udp l = ((b, reject), l')"
  shows "same_limits l l'"
  using assms
proof (cases rule: CheckLimit_cases)
  case (checked a n u' l1 l2 rejected)
  have "same_limits l l1"
    unfolding checked(4) using checked(3) by (intro same_limits_set) (auto simp: currentLimit_def split: if_splits)
  moreover have "same_limits l1 l2" using checked(5) recordDevice_fields by (intro same_limits_fields) (auto split: if_splits)
  moreover have "same_limits l2 l'" using checked(7) speedBucket_fields by (intro same_limits_fields) (auto split: if_splits)
  ultimately show ?thesis by (blast intro: same_limits_trans)
qed simp

lemma perms_same: "same_limits l l' \<Longrightarrow> perms_ok l \<Longrightarrow> perms_ok l'"
  by (simp add: same_limits_def perms_ok_def)

lemma served_same:
  assumes "same_limits l l'" "perms_ok l" "served n l k w"
    "node_tag n' = node_tag n" "map_of (auth_users n') k = map_of (auth_users n) k"
    "w = None \<Longrightarrow> map_of (cache_users n') k = None"
  shows "served n' l' k w"
proof (cases w)
  case None
  with assms show ?thesis by (simp add: served_def same_limits_def)
next
  case (Some x)
  obtain sp dv where x: "x = (sp, dv)" by fastforce
  with Some assms(3) obtain a where a: "map_of (UserLimits l) (UserTag (node_tag n) k) = Some a" "\<not> lim_Revoked (info_at l a)"
    "lim_SpeedLimit (info_at l a) = sp" "lim_DeviceLimit (info_at l a) = dv" "map_of (auth_users n) k \<noteq> None"
    by (auto simp: served_def)
  moreover have "a < length (infos l)" using assms(2) a(1) by (simp add: perms_ok_def)
  ultimately show ?thesis using Some x assms(1,4,5) by (auto simp: served_def same_limits_def)
qed

text \<open>A change of the runtime that keeps authentication, limits and the set of cached users.\<close>

lemma ctl_ok_transfer:
  assumes "ctl_ok c" "map_of (nodes (hy2 (server c))) (ctag c) = Some n" "climiter c = Some a"
    and "map_of (nodes (hy2 (server c'))) (ctag c) = Some n'" "node_tag n' = node_tag n" "node_limiter n' = node_limiter n"
    and "\<forall>k. map_of (auth_users n') k = map_of (auth_users n) k"
    and "\<forall>k. k \<notin> uuids (userList c) \<longrightarrow> map_of (cache_users n') k = None"
    and "ctag c' = ctag c" "climiter c' = climiter c" "userList c' = userList c"
    and "\<exists>i. info c' = Some i \<and> info_Type i = ''hysteria2''"
    and "length (limiters (cheap c')) = length (limiters (cheap c))"
    and "same_limits (limiters (cheap c) ! a) (limiters (cheap c') ! a)"
  shows "ctl_ok c'"
proof -
  have c: "node_limiter n = Some a" "node_tag n = ctag c" "a < length (limiters (cheap c))" "perms_ok (limiters (cheap c) ! a)"
    "valid_users (userList c)" "\<forall>k. served n (limiters (cheap c) ! a) k (wanted (userList c) k)"
    using ctl_okE [OF assms(1)] assms(2,3) by (metis option.inject)+
  have "\<forall>k. served n' (limiters (cheap c') ! a) k (wanted (userList c) k)"
    using served_same [OF assms(14) c(4)] c(6) assms(5,7,8) wanted_None by metis
  then show ?thesis
    unfolding ctl_ok_def using assms c perms_same [OF assms(14) c(4)] by (intro exI [of _ n'] exI [of _ a]) simp
qed

lemma ctl_parts:
  assumes "ctl_ok c"
  obtains n a i where "map_of (nodes (hy2 (server c))) (ctag c) = Some n" "climiter c = Some a" "node_limiter n = Some a"
    "node_tag n = ctag c" "a < length (limiters (cheap c))" "info c = Some i" "info_Type i = ''hysteria2''"
    "\<forall>k. k \<notin> uuids (userList c) \<longrightarrow> served n (limiters (cheap c) ! a) k None"
  by (rule ctl_okE [OF assms]) (metis wanted_None)

lemma served_uncached: "served n l k None \<Longrightarrow> map_of (cache_users n) k = None"
  by (simp add: served_def)

lemma ctl_onLimiter:
  assumes "ctl_ok c" "\<And>l. same_limits l (f l)"
  shows "ctl_ok (onLimiter f c)"
proof -
  obtain n a i where c: "map_of (nodes (hy2 (server c))) (ctag c) = Some n" "climiter c = Some a" "node_limiter n = Some a"
    "node_tag n = ctag c" "a < length (limiters (cheap c))" "info c = Some i" "info_Type i = ''hysteria2''"
    "\<forall>k. k \<notin> uuids (userList c) \<longrightarrow> served n (limiters (cheap c) ! a) k None" by (rule ctl_parts [OF assms(1)])
  show ?thesis
    by (rule ctl_ok_transfer [OF assms(1) c(1,2), of _ n])
      (use c onLimiter_server [OF c(2,5)] assms(2) served_uncached in \<open>auto simp: onLimiter_def\<close>)
qed

lemma ctl_capture:
  assumes "ctl_ok c"
  shows "ctl_ok (c\<lparr>server := snd (coreTrafficSlice (ctag c) m (server c)), onlineSmallTraffic := o'\<rparr>)"
    "ctl_ok (c\<lparr>server := snd (coreTrafficSlice (ctag c) m (server c))\<rparr>)"
proof -
  obtain n a i where c: "map_of (nodes (hy2 (server c))) (ctag c) = Some n" "climiter c = Some a" "node_limiter n = Some a"
    "node_tag n = ctag c" "a < length (limiters (cheap c))" "info c = Some i" "info_Type i = ''hysteria2''"
    "\<forall>k. k \<notin> uuids (userList c) \<longrightarrow> served n (limiters (cheap c) ! a) k None" by (rule ctl_parts [OF assms(1)])
  obtain cn where cn: "snd (captureNode m (uidOf (ctag c) (server c)) n (storageHeap (cheap c))) = n\<lparr>node_counter := cn\<rparr>"
    by (simp add: captureNode_def)
  have s: "snd (coreTrafficSlice (ctag c) m (server c)) =
      (server c)\<lparr>hy2 := putNode (ctag c) (n\<lparr>node_counter := cn\<rparr>) (hy2 (server c))\<rparr>"
    using c(1) cn by (auto simp: coreTrafficSlice_def HasNode_def GetUserTrafficSlice_def split: prod.splits)
  show "ctl_ok (c\<lparr>server := snd (coreTrafficSlice (ctag c) m (server c)), onlineSmallTraffic := o'\<rparr>)"
    "ctl_ok (c\<lparr>server := snd (coreTrafficSlice (ctag c) m (server c))\<rparr>)"
    by (rule ctl_ok_transfer [OF assms c(1,2), of _ "n\<lparr>node_counter := cn\<rparr>"], use c s served_uncached in auto)+
qed

lemma ctl_commit:
  assumes "ctl_ok c"
  shows "ctl_ok (c\<lparr>server := CommitUserTrafficSlice (ctag c) rows (server c)\<rparr>)"
proof -
  obtain n a i where c: "map_of (nodes (hy2 (server c))) (ctag c) = Some n" "climiter c = Some a" "node_limiter n = Some a"
    "node_tag n = ctag c" "a < length (limiters (cheap c))" "info c = Some i" "info_Type i = ''hysteria2''"
    "\<forall>k. k \<notin> uuids (userList c) \<longrightarrow> served n (limiters (cheap c) ! a) k None" by (rule ctl_parts [OF assms(1)])
  show ?thesis
  proof (cases "rows = []")
    case True
    with assms show ?thesis by (cases c) (simp add: CommitUserTrafficSlice_def)
  next
    case False
    let ?sh = "fold (commitRow (node_counter n)) rows (storageHeap (cheap c))"
    let ?m = "(hy2 (server c))\<lparr>mheap := (cheap c)\<lparr>storageHeap := ?sh\<rparr>\<rparr>"
    obtain cn where "snd (pruneUsers (map ut_UUID rows) ?sh n) = n\<lparr>node_counter := cn\<rparr>" using pruneUsers_node by blast
    then obtain rs where p: "PruneRetiredUsers (ctag c) (map ut_UUID rows) ?m = (rs, putNode (ctag c) (n\<lparr>node_counter := cn\<rparr>) ?m)"
      using c(1) by (cases "pruneUsers (map ut_UUID rows) ?sh n") (simp add: PruneRetiredUsers_def)
    have s: "hy2 (CommitUserTrafficSlice (ctag c) rows (server c)) = putNode (ctag c) (n\<lparr>node_counter := cn\<rparr>) ?m"
      using False c(1) p by (simp add: CommitUserTrafficSlice_def HasNode_def CommitUserTraffic_def pruneRetiredTraffic_def)
    show ?thesis
      by (rule ctl_ok_transfer [OF assms c(1,2), of _ "n\<lparr>node_counter := cn\<rparr>"]) (use c s served_uncached in auto)
  qed
qed

lemma ctl_revoke:
  assumes "ctl_ok c"
  shows "ctl_ok (snd (snd (revokeReportedUsers ids (pc, c))))"
proof (cases "ids = []")
  case True
  with assms show ?thesis by (simp add: revokeReportedUsers_def ok_def)
next
  case False
  with revokeReportedUsers_ok [OF assms] show ?thesis by (metis snd_conv)
qed

text \<open>The callbacks keep the served users in step with the list, so every reporting round does.\<close>

interpretation reporting: runtime_guard ctl_ok "reportHooks c" for c
proof
  fix rt :: Controller and pc rows ids
  assume ok: "ctl_ok rt"
  show "ctl_ok (snd (snd (capture (reportHooks c) (pc, rt))))"
    using ctl_capture(1) [OF ok] by (simp add: reportHooks_def captureTraffic_def ok_def split: prod.split) (metis snd_conv)
  show "ctl_ok (snd (snd (commit (reportHooks c) rows (pc, rt))))"
    using ctl_commit [OF ok] by (simp add: reportHooks_def commitTraffic_def ok_def)
  show "ctl_ok (snd (snd (revoke (reportHooks c) ids (pc, rt))))"
    using ctl_revoke [OF ok] by (simp add: reportHooks_def)
qed

section \<open>Traffic callbacks and connection events\<close>

text \<open>A callback of the node with tag \<open>ctag c\<close>, as a function on the controller's runtime.\<close>

definition onNode :: "(hy2Node \<Rightarrow> heap \<Rightarrow> hy2Node \<times> heap) \<Rightarrow> Controller \<Rightarrow> Controller" where
  "onNode f c =
     (case map_of (nodes (hy2 (server c))) (ctag c) of None \<Rightarrow> c
      | Some n \<Rightarrow> (case f n (cheap c) of (n', h') \<Rightarrow>
          c\<lparr>server := (server c)\<lparr>hy2 := putNode (ctag c) n' ((hy2 (server c))\<lparr>mheap := h'\<rparr>)\<rparr>\<rparr>))"

lemma ctl_onNode:
  assumes "ctl_ok c"
    and "\<And>n a. node_limiter n = Some a \<Longrightarrow> a < length (limiters (cheap c)) \<Longrightarrow>
      (\<And>k. k \<notin> uuids (userList c) \<Longrightarrow> served n (limiters (cheap c) ! a) k None) \<Longrightarrow>
      node_tag (fst (f n (cheap c))) = node_tag n \<and> node_limiter (fst (f n (cheap c))) = node_limiter n \<and>
      auth_users (fst (f n (cheap c))) = auth_users n \<and>
      (\<forall>k. k \<notin> uuids (userList c) \<longrightarrow> map_of (cache_users (fst (f n (cheap c)))) k = None) \<and>
      length (limiters (snd (f n (cheap c)))) = length (limiters (cheap c)) \<and>
      same_limits (limiters (cheap c) ! a) (limiters (snd (f n (cheap c))) ! a)"
  shows "ctl_ok (onNode f c)"
proof -
  obtain n a i where c: "map_of (nodes (hy2 (server c))) (ctag c) = Some n" "climiter c = Some a" "node_limiter n = Some a"
    "node_tag n = ctag c" "a < length (limiters (cheap c))" "info c = Some i" "info_Type i = ''hysteria2''"
    "\<forall>k. k \<notin> uuids (userList c) \<longrightarrow> served n (limiters (cheap c) ! a) k None" by (rule ctl_parts [OF assms(1)])
  obtain n' h' where f: "f n (cheap c) = (n', h')" by fastforce
  have "node_tag n' = node_tag n \<and> node_limiter n' = node_limiter n \<and> auth_users n' = auth_users n \<and>
      (\<forall>k. k \<notin> uuids (userList c) \<longrightarrow> map_of (cache_users n') k = None) \<and>
      length (limiters h') = length (limiters (cheap c)) \<and> same_limits (limiters (cheap c) ! a) (limiters h' ! a)"
    using assms(2) [OF c(3,5)] c(8) f by simp
  then show ?thesis
    by (intro ctl_ok_transfer [OF assms(1) c(1,2), of _ n']) (use c f in \<open>auto simp: onNode_def\<close>)
qed

end
