(* ===== verification/Controller_Life.thy ===== *)
theory Controller_Life
  imports Controller_Run Outbox_Witness
begin

text \<open>
  Runs of a controller from its creation to its close: start attempts until one succeeds
  (\<open>startControllerWithRetry\<close> of \<open>node/node.go\<close>), then the periodic tasks, the traffic callbacks and the
  connection checks of its node in any order.
\<close>

section \<open>Callbacks of the node\<close>

lemma same_limits_setLimit:
  assumes "lim_Revoked u = lim_Revoked (info_at (limiters h ! la) b)"
    "lim_SpeedLimit u = lim_SpeedLimit (info_at (limiters h ! la) b)" "lim_DeviceLimit u = lim_DeviceLimit (info_at (limiters h ! la) b)"
  shows "length (limiters (setLimit la b u h)) = length (limiters h)"
    "a < length (limiters h) \<Longrightarrow> same_limits (limiters h ! a) (limiters (setLimit la b u h) ! a)"
  using same_limits_set [OF assms] by (auto simp: setLimit_def nth_update_at)

lemma mayCount_limits:
  "length (limiters (snd (mayCount p h))) = length (limiters h)"
  "a < length (limiters h) \<Longrightarrow> same_limits (limiters h ! a) (limiters (snd (mayCount p h)) ! a)"
  by (simp_all add: mayCount_def Let_def same_limits_setLimit limitOf_def)

lemma countTraffic_limits [simp]: "limiters (countTraffic p tx rx h) = limiters h"
  by (simp add: countTraffic_def Let_def)

text \<open>The cache of a node grows only by users with a permission.\<close>

lemma getUser_node:
  assumes "getUser uuid n h = (r, n', h')"
  shows "limiters h' = limiters h" "node_tag n' = node_tag n" "node_limiter n' = node_limiter n" "auth_users n' = auth_users n"
    "k \<noteq> uuid \<or> lookupLimit k n h = None \<Longrightarrow> map_of (cache_users n) k = None \<Longrightarrow> map_of (cache_users n') k = None"
  using assms by (auto simp: getUser_def storeCache_def split: option.splits if_splits prod.splits)

lemma LogTraffic_cases:
  obtains r n' h' where "getUser uuid n h = (r, n', h')" "fst (snd (LogTraffic uuid tx rx n h)) = n'"
    "limiters (snd (snd (LogTraffic uuid tx rx n h))) = limiters h' \<or>
     (\<exists>p. limiters (snd (snd (LogTraffic uuid tx rx n h))) = limiters (snd (mayCount p h')))"
proof -
  obtain r n' h' where g: "getUser uuid n h = (r, n', h')" by (rule prod_cases3)
  show ?thesis
  proof (rule that [OF g])
    show "fst (snd (LogTraffic uuid tx rx n h)) = n'"
      using g by (auto simp: LogTraffic_def split: option.splits prod.splits bool.splits)
    show "limiters (snd (snd (LogTraffic uuid tx rx n h))) = limiters h' \<or>
       (\<exists>p. limiters (snd (snd (LogTraffic uuid tx rx n h))) = limiters (snd (mayCount p h')))"
      using g by (auto simp: LogTraffic_def split: option.splits prod.splits bool.splits) (metis snd_conv)+
  qed
qed

definition trafficCallback :: "string \<Rightarrow> u64 \<Rightarrow> u64 \<Rightarrow> Controller \<Rightarrow> Controller" where
  "trafficCallback uuid tx rx = onNode (\<lambda>n h. snd (LogTraffic uuid tx rx n h))"

definition connectionCheck :: "int \<Rightarrow> string \<Rightarrow> string \<Rightarrow> string \<Rightarrow> Controller \<Rightarrow> Controller" where
  "connectionCheck now ip network uuid = onNode (checkLimit now ip network uuid)"

lemma ctl_traffic:
  assumes "ctl_ok c"
  shows "ctl_ok (trafficCallback uuid tx rx c)"
  unfolding trafficCallback_def
proof (rule ctl_onNode [OF assms])
  fix n a
  assume n: "node_limiter n = Some a" "a < length (limiters (cheap c))"
    and u: "\<And>k. k \<notin> uuids (userList c) \<Longrightarrow> served n (limiters (cheap c) ! a) k None"
  obtain r n' h' where g: "getUser uuid n (cheap c) = (r, n', h')" and x: "fst (snd (LogTraffic uuid tx rx n (cheap c))) = n'"
    and l: "limiters (snd (snd (LogTraffic uuid tx rx n (cheap c)))) = limiters h' \<or>
     (\<exists>p. limiters (snd (snd (LogTraffic uuid tx rx n (cheap c)))) = limiters (snd (mayCount p h')))"
    by (rule LogTraffic_cases)
  have "map_of (cache_users n') k = None" if "k \<notin> uuids (userList c)" for k
  proof -
    have "lookupLimit k n (cheap c) = None" "map_of (cache_users n) k = None"
      using u [OF that] n(1) by (simp_all add: served_def lookupLimit_def loggerLimiter_def)
    then show ?thesis using getUser_node(5) [OF g] by blast
  qed
  with getUser_node(1-4) [OF g] l n(2) x mayCount_limits
  show "node_tag (fst (snd (LogTraffic uuid tx rx n (cheap c)))) = node_tag n \<and>
      node_limiter (fst (snd (LogTraffic uuid tx rx n (cheap c)))) = node_limiter n \<and>
      auth_users (fst (snd (LogTraffic uuid tx rx n (cheap c)))) = auth_users n \<and>
      (\<forall>k. k \<notin> uuids (userList c) \<longrightarrow> map_of (cache_users (fst (snd (LogTraffic uuid tx rx n (cheap c))))) k = None) \<and>
      length (limiters (snd (snd (LogTraffic uuid tx rx n (cheap c))))) = length (limiters (cheap c)) \<and>
      same_limits (limiters (cheap c) ! a) (limiters (snd (snd (LogTraffic uuid tx rx n (cheap c)))) ! a)"
    by (metis same_limits_refl)
qed

definition same_node :: "hy2Node \<Rightarrow> hy2Node \<Rightarrow> bool" where
  "same_node n n' \<longleftrightarrow> node_tag n' = node_tag n \<and> node_limiter n' = node_limiter n \<and> auth_users n' = auth_users n \<and>
     cache_users n' = cache_users n"

definition same_heap :: "heap \<Rightarrow> heap \<Rightarrow> bool" where
  "same_heap h h' \<longleftrightarrow> length (limiters h') = length (limiters h) \<and>
     (\<forall>a < length (limiters h). same_limits (limiters h ! a) (limiters h' ! a))"

lemma same_heap_refl [simp]: "same_heap h h"
  by (simp add: same_heap_def)

lemma same_heap_trans: "same_heap h h1 \<Longrightarrow> same_heap h1 h2 \<Longrightarrow> same_heap h h2"
  unfolding same_heap_def by (metis same_limits_trans)

lemma same_heap_overLimit: "same_heap h (setLimiterOverLimit la t reject h)"
  by (simp add: same_heap_def setLimiterOverLimit_def same_limits_setLimit split: option.split)

lemma same_heap_userOverLimit: "same_heap h (setUserOverLimit t reject n h)"
  by (simp add: setUserOverLimit_def same_heap_overLimit split: option.split)

lemma freshCheck_same:
  assumes "freshCheck now t ip network n h = (n', h')"
  shows "same_node n n' \<and> same_heap h h'"
proof (cases "loggerLimiter n h")
  case (Some la)
  obtain b reject l where c: "CheckLimit (now div 10 ^ 9) t ip (network = ''tcp'') (limiters h ! la) = ((b, reject), l)"
    by (metis surj_pair)
  have "same_heap h (h\<lparr>limiters := (limiters h)[la := l]\<rparr>)"
    using same_limits_check [OF c] by (simp add: same_heap_def nth_update_at)
  with c Some assms same_heap_overLimit same_heap_trans show ?thesis
    by (auto simp: freshCheck_def sweepLimitCache_def same_node_def)
qed (use assms in \<open>simp add: freshCheck_def same_node_def\<close>)

lemma checkLimit_same:
  assumes "checkLimit now ip network uuid n h = (n', h')"
  shows "same_node n n' \<and> same_heap h h'"
  using assms freshCheck_same [of now _ ip network _ h n' h'] same_heap_userOverLimit [of h]
  by (auto simp: checkLimit_def Let_def same_node_def split: option.splits if_splits)

lemma ctl_connection:
  assumes "ctl_ok c"
  shows "ctl_ok (connectionCheck now ip network uuid c)"
  unfolding connectionCheck_def
proof (rule ctl_onNode [OF assms])
  fix n a
  assume n: "node_limiter n = Some a" "a < length (limiters (cheap c))"
    and u: "\<And>k. k \<notin> uuids (userList c) \<Longrightarrow> served n (limiters (cheap c) ! a) k None"
  obtain n' h' where g: "checkLimit now ip network uuid n (cheap c) = (n', h')" by fastforce
  show "node_tag (fst (checkLimit now ip network uuid n (cheap c))) = node_tag n \<and>
      node_limiter (fst (checkLimit now ip network uuid n (cheap c))) = node_limiter n \<and>
      auth_users (fst (checkLimit now ip network uuid n (cheap c))) = auth_users n \<and>
      (\<forall>k. k \<notin> uuids (userList c) \<longrightarrow> map_of (cache_users (fst (checkLimit now ip network uuid n (cheap c)))) k = None) \<and>
      length (limiters (snd (checkLimit now ip network uuid n (cheap c)))) = length (limiters (cheap c)) \<and>
      same_limits (limiters (cheap c) ! a) (limiters (snd (checkLimit now ip network uuid n (cheap c))) ! a)"
    unfolding g using checkLimit_same [OF g] u n(2) by (auto simp: same_node_def same_heap_def served_def)
qed

section \<open>Tasks\<close>

lemma getNodeInfo_type:
  "GetNodeInfo env cd s = (Inr (Some n), t) \<Longrightarrow> info_Type n = ''hysteria2''"
  by (auto simp: GetNodeInfo_def Let_def bindE_Inr_iff ok_def fail_def buildNodeInfo_def
      split: prod.splits if_splits option.splits sum.splits)

lemma getNodeInfo_snd:
  "snd (GetNodeInfo env cd s) = snd (request env ''GET'' ''config'' (nodeEtag (cache s)) None s)"
  by (auto simp: GetNodeInfo_def Let_def bindE_def ok_def fail_def split: prod.splits sum.splits option.splits)

lemma panel_runtime:
  "runtime (snd (request env meth action etag body s)) = runtime s" "cache (snd (request env meth action etag body s)) = cache s"
  by (simp_all add: request_def Let_def)

lemma calls_runtime [simp]:
  "runtime (snd (GetNodeInfo env cd s)) = runtime s" "runtime (snd (GetUsers env s)) = runtime s"
  "runtime (snd (GetUserAlive env s)) = runtime s" "runtime (snd (ReportNodeOnlineUsers env data s)) = runtime s"
  by (simp_all add: getNodeInfo_snd other_calls_snd panel_runtime)

lemma ctl_settings:
  assumes "ctl_ok c" "info_Type i = ''hysteria2''"
  shows "ctl_ok (c\<lparr>pullInterval := p, pushInterval := q, info := Some i\<rparr>)" "ctl_ok (c\<lparr>pullInterval := p, pushInterval := q\<rparr>)"
  using assms unfolding ctl_ok_def by (simp_all, blast+)

lemma ctl_requestReload:
  assumes "ctl_ok c"
  shows "ctl_ok (requestReload now c)"
  using assms unfolding ctl_ok_def requestReload_def by (auto split: option.split)

lemma ctl_finishSync:
  assumes "ctl_ok c" "\<And>sn. snapshot = Some sn \<Longrightarrow> valid_users (snap_Users sn)"
  shows "ctl_ok (snd (finishSync g snapshot (pc, c)))"
  using assms applySnapshot_ok [OF assms(1)] by (auto simp: finishSync_def split: option.split)

lemma onRuntime_runtime: "runtime (onRuntime f s) = snd (f (cache s, runtime s))"
  by (simp add: onRuntime_def split: prod.split)

lemma ctl_syncUsers:
  assumes "ctl_ok (runtime s)"
  shows "ctl_ok (runtime (syncUsers env s))"
proof (cases "GetUsers env s")
  case (Pair r t)
  have "runtime t = runtime s" using calls_runtime(2) [of env s] Pair by simp
  moreover have "valid_users (snap_Users sn)" if "r = Inr (Some sn)" for sn
    using getUsers_valid Pair that by (auto simp: GetUsers_def)
  ultimately show ?thesis
    using Pair assms ctl_finishSync [OF assms]
    by (cases r) (auto simp: syncUsers_def Let_def onRuntime_runtime)
qed

lemma ctl_monitor:
  assumes "ctl_ok (runtime s)"
  shows "ctl_ok (runtime (nodeInfoMonitor env cd now s))"
proof (cases "GetNodeInfo env cd s")
  case (Pair r t)
  have t: "ctl_ok (runtime t)" using calls_runtime(1) [of env cd s] Pair assms by simp
  have "ctl_ok (snd (applyRuntimeNodeInfo (Some n) (cache t, runtime t)))" if "r = Inr (Some n)" for n
    using getNodeInfo_type [of env cd s n t] Pair that ctl_settings(1) [OF t] by (simp add: applyRuntimeNodeInfo_def)
  then show ?thesis
    using Pair t ctl_syncUsers ctl_requestReload [OF t]
    by (auto simp: nodeInfoMonitor_def onRuntime_runtime split: sum.split option.split)
qed

lemma ctl_heartbeat:
  assumes "ctl_ok (runtime s)"
  shows "ctl_ok (runtime (reportHeartbeat env budget s))"
proof (cases "climiter (runtime s)")
  case (Some a)
  define data where "data = fold (addDevice (onlineSmallTraffic (runtime s))) (fst (GetOnlineDevice (climit (runtime s)))) []"
  define s1 where "s1 = snd (ReportNodeOnlineUsers env data (s\<lparr>runtime := onLimiter (\<lambda>l. snd (GetOnlineDevice l)) (runtime s)\<rparr>))"
  have s1: "ctl_ok (runtime s1)" using ctl_onLimiter [OF assms same_limits_ops(1)] by (simp add: s1_def)
  obtain r t where g: "GetUserAlive env s1 = (r, t)" by fastforce
  then have t: "ctl_ok (runtime t)" using s1 calls_runtime(3) [of env s1] by simp
  have "reportHeartbeat env budget s =
      (if budget then (case GetUserAlive env s1 of (Inl e, s) \<Rightarrow> s
         | (Inr alive, s) \<Rightarrow> s\<lparr>runtime := onLimiter (UpdateAliveList alive) (runtime s)\<rparr>) else s1)"
    using Some by (simp add: reportHeartbeat_def Let_def s1_def data_def)
  with g s1 t ctl_onLimiter [OF t same_limits_ops(2)] show ?thesis by (auto split: sum.split)
qed (use assms in \<open>simp add: reportHeartbeat_def\<close>)

lemma ctl_report:
  assumes "ctl_ok (runtime s)"
  shows "ctl_ok (runtime (reportUserTrafficTask env s))"
  using reporting.FlushTrafficLimit_keeps [OF assms] by (simp add: reportUserTrafficTask_def)

section \<open>Runs\<close>

definition NewController :: "V2Core \<Rightarrow> bool option \<Rightarrow> NodeInfo option \<Rightarrow> Controller" where
  "NewController core ch node =
     \<lparr>server = core, ctag = [], climiter = None, userList = [], aliveMap = [], info = node, userGeneration = 0,
      onlineSmallTraffic = [], closed = False, lastReloadAt = None, pullInterval = None, pushInterval = None, reloadCh = ch\<rparr>"

abbreviation setRuntime :: "Controller \<Rightarrow> ('b, Controller) client \<Rightarrow> ('b, Controller) client" where
  "setRuntime c s \<equiv> s\<lparr>runtime := c\<rparr>"

text \<open>The flag tells whether the controller has been started.\<close>

inductive controller_run ::
  "'b env \<Rightarrow> 'b codec \<Rightarrow> ('b, Controller) client \<Rightarrow> bool \<Rightarrow> ('b, Controller) client \<Rightarrow> bool"
  for env :: "'b env" and cd :: "'b codec" and s0 :: "('b, Controller) client" where
  created: "controller_run env cd s0 False s0"
| retry: "controller_run env cd s0 False s \<Longrightarrow> StartContext env cd se x s = (Inl e, t) \<Longrightarrow> controller_run env cd s0 False t"
| started: "controller_run env cd s0 False s \<Longrightarrow> StartContext env cd se x s = (Inr (), t) \<Longrightarrow> controller_run env cd s0 True t"
| report: "controller_run env cd s0 True s \<Longrightarrow> controller_run env cd s0 True (reportUserTrafficTask env s)"
| heartbeat: "controller_run env cd s0 True s \<Longrightarrow> controller_run env cd s0 True (reportHeartbeat env budget s)"
| monitor: "controller_run env cd s0 True s \<Longrightarrow> controller_run env cd s0 True (nodeInfoMonitor env cd now s)"
| traffic: "controller_run env cd s0 True s \<Longrightarrow>
    controller_run env cd s0 True (setRuntime (trafficCallback uuid tx rx (runtime s)) s)"
| connection: "controller_run env cd s0 True s \<Longrightarrow>
    controller_run env cd s0 True (setRuntime (connectionCheck now ip network uuid (runtime s)) s)"

subsection \<open>What is served\<close>

text \<open>Recovery before the start has no runtime to talk to.\<close>

interpretation recovery: runtime_guard "\<lambda>rt. rt = r" noHooks for r
  by unfold_locales (simp_all add: noHooks_def ok_def)

lemma recovery_runtime: "runtime (snd (FlushTraffic env noHooks s)) = runtime s"
  unfolding FlushTraffic_def by (rule recovery.FlushTrafficLimit_keeps) simp

lemma startNode_users: "userList (snd (startNode se i c)) = userList c"
  by (auto simp: startNode_def Let_def fail_def ok_def registerNew_def dropLimiter_def dropNode_def
      split: option.split prod.split sum.split)

lemma startUsers_ok:
  assumes "startUsers env se n s = (r, t)" "valid_users (userList (runtime s))"
  shows "valid_users (userList (runtime t)) \<and> (r = Inr () \<longrightarrow> ctl_ok (runtime t))"
proof -
  obtain r1 s1 where f: "FlushTraffic env noHooks s = (r1, s1)" by fastforce
  have s1: "runtime s1 = runtime s" using recovery_runtime [of env s] f by simp
  show ?thesis
  proof (cases r1)
    case (Inl e)
    with f s1 assms show ?thesis by (auto simp: startUsers_def fail_def)
  next
    case r1: (Inr x)
    obtain r2 s2 where g: "GetUsers env s1 = (r2, s2)" by fastforce
    have s2: "runtime s2 = runtime s1" using calls_runtime(2) [of env s1] g by simp
    show ?thesis
    proof (cases r2)
      case (Inl e)
      with f r1 g s1 s2 assms show ?thesis by (auto simp: startUsers_def fail_def)
    next
      case r2: (Inr snapshot)
      define s3 where "s3 = (case snapshot of None \<Rightarrow> s2 | Some sn \<Rightarrow> s2\<lparr>runtime := (runtime s2)\<lparr>userList := snap_Users sn\<rparr>\<rparr>)"
      have v: "valid_users (userList (runtime s3))"
        using assms(2) s1 s2 getUsers_valid [of env _ s1 _ s2] g r2 by (auto simp: s3_def GetUsers_def split: option.split)
      obtain alive s4 where a: "GetUserAlive env s3 = (alive, s4)" by fastforce
      have s4: "runtime s4 = runtime s3" using calls_runtime(3) [of env s3] a by simp
      define c where "c = (runtime s4)\<lparr>aliveMap := (case alive of Inl _ \<Rightarrow> [] | Inr m \<Rightarrow> m), ctag := info_Tag n\<rparr>"
      have vc: "valid_users (userList c)" using v s4 by (simp add: c_def)
      obtain r5 c5 where st: "startNode se n c = (r5, c5)" by fastforce
      have u5: "userList c5 = userList c" using startNode_users [of se n c] st by simp
      have ok5: "ctl_ok c5 \<and> info_Type n = ''hysteria2''" if "r5 = Inr ()"
      proof -
        have "ctl_ok c5" using startNode_serves [OF _ vc] st that by blast
        moreover have "info c5 = Some n"
          using st that by (auto simp: startNode_def Let_def fail_def ok_def split: option.splits prod.splits sum.splits)
        ultimately show ?thesis by (auto elim!: ctl_okE)
      qed
      show ?thesis
        using assms(1) f r1 g r2 a st u5 ok5 vc ctl_settings(2) [of c5 n]
        by (auto simp: startUsers_def s3_def [symmetric] c_def [symmetric] Let_def fail_def ok_def startTasks_def
            split: option.splits sum.splits)
    qed
  qed
qed

lemma StartContext_ok:
  assumes "StartContext env cd se x s = (r, t)" "valid_users (userList (runtime s))"
  shows "valid_users (userList (runtime t)) \<and> (r = Inr () \<longrightarrow> ctl_ok (runtime t))"
proof -
  let ?s = "s\<lparr>runtime := (runtime s)\<lparr>server := x\<rparr>\<rparr>"
  show ?thesis
  proof (cases "info (runtime ?s)")
    case (Some n)
    then show ?thesis using startUsers_ok [of env se n ?s r t] assms by (simp add: StartContext_def Let_def)
  next
    case None
    obtain rn s1 where g: "GetNodeInfo env cd ?s = (rn, s1)" by fastforce
    have "runtime s1 = runtime ?s" using calls_runtime(1) [of env cd ?s] g by simp
    then show ?thesis
      using None g assms startUsers_ok [of env se _ "s1\<lparr>runtime := (runtime s1)\<lparr>info := Some _\<rparr>\<rparr>" r t]
      by (auto simp: StartContext_def Let_def fail_def split: sum.splits option.splits)
  qed
qed

lemma controller_run_ok:
  assumes "controller_run env cd s0 running s" "runtime s0 = NewController core ch node"
  shows "if running then ctl_ok (runtime s) else valid_users (userList (runtime s))"
  using assms(1)
proof induction
  case created
  show ?case by (simp add: assms(2) NewController_def valid_users_def)
next
  case (retry s se x e t)
  then show ?case using StartContext_ok by (metis (full_types))
next
  case (started s se x t)
  then show ?case using StartContext_ok by (metis (full_types))
qed (simp_all add: ctl_report ctl_heartbeat ctl_monitor ctl_traffic ctl_connection)

subsection \<open>Runs of the outbox\<close>

lemma run_runtime: "outbox_run env strict s0 s \<Longrightarrow> outbox_run env strict s0 (s\<lparr>runtime := c\<rparr>)"
  using outbox_run.activity [where c = "cache s" and rt = c] by fastforce

lemma run_onRuntime: "outbox_run env strict s0 s \<Longrightarrow> outbox_run env strict s0 (onRuntime f s)"
  by (auto simp: onRuntime_def split: prod.split intro: outbox_run.activity)

lemma run_nodeInfo: "outbox_run env strict s0 s \<Longrightarrow> outbox_run env strict s0 (snd (GetNodeInfo env cd s))"
  unfolding getNodeInfo_snd by (rule outbox_run.config)

lemma run_syncUsers: "outbox_run env strict s0 s \<Longrightarrow> outbox_run env strict s0 (syncUsers env s)"
  using outbox_run.users [of env strict s0 s]
  by (auto simp: syncUsers_def Let_def split: prod.split sum.split intro!: run_onRuntime)

lemma run_monitorTask:
  assumes "outbox_run env strict s0 s"
  shows "outbox_run env strict s0 (nodeInfoMonitor env cd now s)"
proof (cases "GetNodeInfo env cd s")
  case (Pair r t)
  then have "outbox_run env strict s0 t" using run_nodeInfo [OF assms, of cd] by simp
  with Pair show ?thesis
    by (auto simp: nodeInfoMonitor_def split: sum.split option.split intro: run_syncUsers run_onRuntime run_runtime)
qed

lemma run_heartbeat:
  assumes "outbox_run env strict s0 s"
  shows "outbox_run env strict s0 (reportHeartbeat env budget s)"
proof -
  have "outbox_run env strict s0 (case GetUserAlive env t of (Inl e, s) \<Rightarrow> s
      | (Inr alive, s) \<Rightarrow> s\<lparr>runtime := onLimiter (UpdateAliveList alive) (runtime s)\<rparr>)" if "outbox_run env strict s0 t" for t
    using outbox_run.alive [OF that] by (auto split: prod.split sum.split intro!: run_runtime)
  then show ?thesis
    using assms by (auto simp: reportHeartbeat_def Let_def split: option.split intro!: outbox_run.online run_runtime)
qed

lemma run_startUsers:
  assumes "outbox_run env strict s0 s"
  shows "outbox_run env strict s0 (snd (startUsers env se n s))"
proof -
  obtain r1 s1 where f: "FlushTraffic env noHooks s = (r1, s1)" by fastforce
  then have s1: "outbox_run env strict s0 s1"
    using outbox_run.flush [OF assms noHooks_ok, of 0] by (simp add: FlushTraffic_def)
  obtain r2 s2 where g: "GetUsers env s1 = (r2, s2)" by fastforce
  then have s2: "outbox_run env strict s0 s2" using outbox_run.users [OF s1] by simp
  have s3: "outbox_run env strict s0 u" if "GetUserAlive env t = (al, u)" "outbox_run env strict s0 t" for al t u
    using outbox_run.alive [OF that(2)] that(1) by simp
  have s4: "outbox_run env strict s0 u"
    if "GetUserAlive env s2 = (al, u) \<or> GetUserAlive env (s2\<lparr>runtime := c\<rparr>) = (al, u)" for al c u
    using s3 that run_runtime [OF s2] s2 by blast
  show ?thesis
    unfolding startUsers_def f g Let_def fail_def ok_def
    using s1 s2 by (auto simp: g split: sum.split prod.split option.split_asm option.split
        intro!: run_runtime outbox_run.activity intro: s4)
qed

lemma run_StartContext:
  assumes "outbox_run env strict s0 s"
  shows "outbox_run env strict s0 (snd (StartContext env cd se x s))"
proof -
  let ?s = "s\<lparr>runtime := (runtime s)\<lparr>server := x\<rparr>\<rparr>"
  have s: "outbox_run env strict s0 ?s" by (rule run_runtime [OF assms])
  obtain rn s1 where g: "GetNodeInfo env cd ?s = (rn, s1)" by fastforce
  then have "outbox_run env strict s0 s1" using run_nodeInfo [OF s, of cd] by simp
  with s g show ?thesis
    by (auto simp: StartContext_def Let_def fail_def split: option.split sum.split intro!: run_startUsers run_runtime)
qed

lemma controller_run_outbox:
  assumes "controller_run env cd s0 running s"
  shows "outbox_run env True s0 s"
  using assms
proof induction
  case (report s)
  then show ?case unfolding reportUserTrafficTask_def by (intro outbox_run.flush reportHooks_ok)
next
  case (retry s se x e t)
  then show ?case using run_StartContext by (metis snd_conv)
next
  case (started s se x t)
  then show ?case using run_StartContext by (metis snd_conv)
qed (auto intro: outbox_run.start run_heartbeat run_monitorTask run_runtime)

lemma outbox_run_weaken:
  assumes "outbox_run env True s0 s"
  shows "outbox_run env False s0 s"
  using assms by induction (auto intro: outbox_run.intros)

lemma CloseContext_outbox:
  assumes "outbox_run env False s0 s"
  shows "outbox_run env False s0 (snd (CloseContext env ce s))"
proof -
  define s1 where "s1 = (\<lambda>vc. s\<lparr>runtime := (runtime s)\<lparr>server := vc\<rparr>\<rparr>)"
  have "outbox_run env False s0 (snd (PersistTraffic env drainHooks (s1 vc)))" for vc
    unfolding s1_def by (intro outbox_run.persist run_runtime assms drainHooks_ok) simp
  with assms show ?thesis
    by (auto simp: CloseContext_def s1_def [symmetric] ok_def fail_def split: option.split sum.split prod.split
        intro!: run_runtime) (auto simp: s1_def intro!: run_runtime, (metis snd_conv)+)
qed


text \<open>C25: A running controller serves exactly its user list. After any history of a controller that was
  started, each listed user is known to the node's authenticator and holds a permission with the
  limits of the list, and a credential that is not listed is refused by the authenticator and by
  the traffic callback.\<close>

theorem controller_serves_list:
  assumes "controller_run env cd (newClient host nid path d (NewController core ch node)) True s"
  shows "ctl_ok (runtime s) \<and> (\<exists>n. map_of (nodes (hy2 (server (runtime s)))) (ctag (runtime s)) = Some n \<and>
    (\<forall>uuid tx rx. uuid \<in> uuids (userList (runtime s)) \<or>
       Authenticate uuid n = (False, []) \<and> \<not> fst (LogTraffic uuid tx rx n (cheap (runtime s)))))"
proof -
  have ok: "ctl_ok (runtime s)" using controller_run_ok [OF assms, of core ch node] by (simp add: newClient_def)
  then obtain n where "map_of (nodes (hy2 (server (runtime s)))) (ctag (runtime s)) = Some n" by (rule ctl_okE)
  with ok ctl_unlisted_refused [OF ok] show ?thesis by blast
qed

section \<open>A concrete run\<close>

definition lifePanel :: "doc event list \<Rightarrow> string \<Rightarrow> string \<Rightarrow> string \<Rightarrow> doc option \<Rightarrow> doc transport" where
  "lifePanel h meth action etag body =
     Response \<lparr>http_status = 200, http_contract = ''hy2-1'', http_ctype = ''application/json'',
       http_etag = ''e'', http_body = (if action = ''users'' then DUsers oldUsers else docReply action body), http_readErr = None\<rparr>"

definition lifeEnv :: "doc env" where
  "lifeEnv = docEnv\<lparr>env_panel := lifePanel\<rparr>"

definition lifeCodec :: "doc codec" where
  "lifeCodec = \<lparr>blank_body = (\<lambda>_. False), unjson_common = (\<lambda>_. Some demoCommon)\<rparr>"

definition lifeNew :: "(doc, Controller) client" where
  "lifeNew = newClient ''https://panel'' 1 ''state.json'' (Some (DState (freshState 7)))
     (NewController (server bareController) (Some False) (Some bareInfo))"

lemma lifeEnv_ok: "cooperative lifeEnv" "codec_ok lifeEnv"
  by (auto simp: cooperative_def lifeEnv_def docEnv_def ackOf_def lifePanel_def docReply_def requestResult_def
      contractVersion_def toLower_def lowerChar_def maxResponseBytes_def validateTrafficAck_def
      digestOf_def stateLimit_def strip_batch_def codec_ok_def split: doc.splits if_splits)

lemma idle_round:
  assumes "cooperative env" "loadReportState env (s\<lparr>tick := Suc (Suc (tick s))\<rparr>) = (Inr (), t)" "outbox t = Some ob"
    "env_ctx env (tick t) = None" "clear ob" "rs_Resolution ob = None" "outboxPath s \<noteq> []" "\<not> draining s"
  shows "FlushTraffic env noHooks s = (Inr (), t)"
proof -
  have cap: "callCapture noHooks t = (Inr [], t)" by (simp add: callCapture_def noHooks_def ok_def)
  have rot: "rotateRows k [] = []" for k by (simp add: rotateRows_def Let_def)
  show ?thesis
    using assms cap rot
    by (simp add: FlushTraffic_def FlushTrafficLimit_def acquireLock_coop clear_def sendPending_def ok_def
        sendAttempt.simps [of env noHooks 0 t] sendPendingOnce_def flushBuffered.simps [of env noHooks 0 t]
        flushCaptured_def flushQueue.simps [of env noHooks 0 "[]" t])
qed

lemma life_recovers: "\<exists>t. FlushTraffic lifeEnv noHooks (setRuntime c lifeNew) = (Inr (), t) \<and> runtime t = c"
proof -
  note env = lifeEnv_ok
  let ?new = "setRuntime c lifeNew" and ?ob = "freshState 7"
  let ?s = "?new\<lparr>tick := Suc (Suc (tick ?new))\<rparr>"
  have disk: "disk ?s = Some (json_state lifeEnv ?ob)" by (simp add: lifeNew_def newClient_def lifeEnv_def docEnv_def fresh_strip)
  have v: "validReportState ?ob" by (simp add: validReportState_def validTrafficIsolation_def freshState_def)
  obtain s1 where s1: "loadReportState lifeEnv ?s = (Inr (), s1)" "stored lifeEnv (strip_state ?ob) s1"
    using load_coop [OF env, of ?s ?ob] disk v by (auto simp: lifeNew_def newClient_def)
  then have ob: "outbox s1 = Some ?ob" by (simp add: stored_def fresh_strip)
  have ctx: "env_ctx lifeEnv (tick s1) = None" by (simp add: lifeEnv_def docEnv_def)
  have "FlushTraffic lifeEnv noHooks ?new = (Inr (), s1)"
    by (rule idle_round [OF env(1) s1(1) ob ctx]) (simp_all add: clear_def freshState_def lifeNew_def newClient_def)
  moreover have "runtime s1 = c" using recovery_runtime [of lifeEnv ?new] calculation by simp
  ultimately show ?thesis by auto
qed

text \<open>The runtime after the start.\<close>

definition lifeRuntime :: Controller where
  "lifeRuntime = startTasks bareInfo (snd (startNode quietStart bareInfo
     ((NewController (server bareController) (Some False) (Some bareInfo))
        \<lparr>userList := oldUsers, aliveMap := [], ctag := info_Tag bareInfo\<rparr>)))"

lemma life_starts:
  obtains t where "StartContext lifeEnv lifeCodec quietStart (server bareController) lifeNew = (Inr (), t)" "userList (runtime t) = oldUsers"
    "runtime t = lifeRuntime"
proof -
  let ?c = "NewController (server bareController) (Some False) (Some bareInfo)"
  have new: "runtime lifeNew = ?c" by (simp add: lifeNew_def newClient_def)
  obtain s1 where f: "FlushTraffic lifeEnv noHooks (setRuntime ?c lifeNew) = (Inr (), s1)" and r1: "runtime s1 = ?c"
    using life_recovers by blast
  obtain s2 where g: "GetUsers lifeEnv s1 = (Inr (Some \<lparr>snap_Users = oldUsers, snap_ETag = ''e''\<rparr>), s2)"
    by (auto simp: GetUsers_def getUsers_def request_def requestResult_def lifeEnv_def lifePanel_def docEnv_def contractVersion_def
        toLower_def lowerChar_def maxResponseBytes_def Let_def bindE_def ok_def usersOk_valid valid_demo)
  obtain e s3 where a: "GetUserAlive lifeEnv (s2\<lparr>runtime := (runtime s2)\<lparr>userList := oldUsers\<rparr>\<rparr>) = (Inl e, s3)"
    by (auto simp: GetUserAlive_def request_def requestResult_def lifeEnv_def lifePanel_def docEnv_def contractVersion_def
        toLower_def lowerChar_def maxResponseBytes_def Let_def bindE_def fail_def)
  have r3: "runtime s3 = ?c\<lparr>userList := oldUsers\<rparr>"
    using calls_runtime(3) [of lifeEnv "s2\<lparr>runtime := (runtime s2)\<lparr>userList := oldUsers\<rparr>\<rparr>"]
      calls_runtime(2) [of lifeEnv s1] a g r1 by simp
  let ?d = "?c\<lparr>userList := oldUsers, aliveMap := [], ctag := info_Tag bareInfo\<rparr>"
  have "fst (startNode quietStart bareInfo ?d) = Inr ()"
    by (simp add: startNode_def registerNew_def quietStart_def bareInfo_def bareController_def coreAddNode_def NewController_def
      AddNode_def coreAddUsers_def AddUsers_def Let_def ok_def registerLimiter_def)
  then obtain d where st: "startNode quietStart bareInfo ?d = (Inr (), d)" by (metis prod.collapse)
  have d: "userList d = oldUsers" using startNode_users [of quietStart bareInfo ?d] st by simp
  have "StartContext lifeEnv lifeCodec quietStart (server bareController) lifeNew =
      startUsers lifeEnv quietStart bareInfo (setRuntime ?c lifeNew)"
    by (simp add: StartContext_def new) (simp add: NewController_def)
  moreover have "fst (startUsers lifeEnv quietStart bareInfo (setRuntime ?c lifeNew)) = Inr () \<and>
     userList (runtime (snd (startUsers lifeEnv quietStart bareInfo (setRuntime ?c lifeNew)))) = oldUsers \<and>
     runtime (snd (startUsers lifeEnv quietStart bareInfo (setRuntime ?c lifeNew))) = lifeRuntime"
    using d by (simp add: startUsers_def f g a r3 st ok_def startTasks_def lifeRuntime_def quietStart_def [THEN arg_cong, of start_ctxErr])
  ultimately show ?thesis using that by (metis prod.collapse)
qed

text \<open>The controller starts, traffic of a user is counted and a report is sent.\<close>

lemma life_run:
  obtains s where "controller_run lifeEnv lifeCodec lifeNew True s" "userList (runtime s) = oldUsers"
proof -
  obtain t where "StartContext lifeEnv lifeCodec quietStart (server bareController) lifeNew = (Inr (), t)"
    and u: "userList (runtime t) = oldUsers" by (rule life_starts)
  then have "controller_run lifeEnv lifeCodec lifeNew True t" by (intro controller_run.started [OF controller_run.created])
  then have "controller_run lifeEnv lifeCodec lifeNew True (setRuntime (trafficCallback ''a'' 10 20 (runtime t)) t)"
    by (rule controller_run.traffic)
  moreover have "userList (trafficCallback ''a'' 10 20 (runtime t)) = oldUsers"
    using u by (simp add: trafficCallback_def onNode_def split: option.split prod.split)
  ultimately show ?thesis using that by fastforce
qed


theorem controller_serves_list_witness:
  "\<exists>s n. userList (runtime s) = oldUsers \<and> controller_run lifeEnv lifeCodec lifeNew True s \<and> ctl_ok (runtime s) \<and>
     map_of (nodes (hy2 (server (runtime s)))) (ctag (runtime s)) = Some n \<and> Authenticate ''z'' n = (False, []) \<and>
     \<not> fst (LogTraffic ''z'' 1 1 n (cheap (runtime s)))"
proof -
  obtain s where s: "controller_run lifeEnv lifeCodec lifeNew True s" "userList (runtime s) = oldUsers" by (rule life_run)
  have "''z'' \<notin> uuids oldUsers" by (simp add: oldUsers_def someUser_def)
  with s controller_serves_list [OF s(1) [unfolded lifeNew_def]] show ?thesis by (metis (no_types, lifting))
qed

end
