(* ===== verification/Settlement.thy ===== *)
theory Settlement
  imports Outbox_Live Counter
begin

text \<open>
  What the outbox deducts. The counters of a runtime are a balance per user; a captured batch is
  covered by it, and the outbox calls \<open>commit\<close> only with rows that are still covered. So every
  deduction takes exactly the rows of the batch from the counters, and the clamp at zero of the
  counters (\<open>subtractAtomic\<close>) never acts: what was counted is, at every moment, what the counters
  hold and what the committed batches took.
\<close>

section \<open>Rows and histories\<close>

definition row_due :: "UserTraffic \<Rightarrow> usage" where
  "row_due r = Usage (ut_Upload r) (ut_Download r)"

definition rows_due :: "UserTraffic list \<Rightarrow> string \<Rightarrow> usage" where
  "rows_due rows k = sum_list (map row_due (filter (\<lambda>r. ut_UUID r = k) rows))"

abbreviation batch_due :: "trafficRow list \<Rightarrow> string \<Rightarrow> usage" where
  "batch_due rows \<equiv> rows_due (map user_of_row rows)"

text \<open>What the commits of a history took from the counters of a user.\<close>

definition event_paid :: "string \<Rightarrow> 'b event \<Rightarrow> usage" where
  "event_paid k e = (case e of EvCommit rows True \<Rightarrow> rows_due rows k | _ \<Rightarrow> 0)"

definition paid :: "'b event list \<Rightarrow> string \<Rightarrow> usage" where
  "paid tr k = sum_list (map (event_paid k) tr)"

lemma rows_due_simps [simp]:
  "rows_due [] k = 0"
  "rows_due (r # rows) k = (if ut_UUID r = k then row_due r + rows_due rows k else rows_due rows k)"
  by (simp_all add: rows_due_def)

lemma rows_due_mset:
  assumes "mset rows = mset rows'"
  shows "rows_due rows k = rows_due rows' k"
proof -
  have "mset (map row_due (filter (\<lambda>r. ut_UUID r = k) rows)) = mset (map row_due (filter (\<lambda>r. ut_UUID r = k) rows'))"
    using assms by (simp add: mset_filter)
  then show ?thesis unfolding rows_due_def by (metis sum_mset_sum_list)
qed

lemma rows_due_append: "rows_due (a @ b) k = rows_due a k + rows_due b k"
  by (simp add: rows_due_def)

definition rows_nonneg :: "UserTraffic list \<Rightarrow> bool" where
  "rows_nonneg rows \<longleftrightarrow> (\<forall>r \<in> set rows. nonneg (row_due r))"

lemma nonneg_sums [simp]: "nonneg 0" "nonneg a \<Longrightarrow> nonneg b \<Longrightarrow> nonneg (a + b)"
  by (simp_all add: nonneg_def)

lemma nonneg_less:
  "nonneg (a - (b + c)) \<Longrightarrow> nonneg b \<Longrightarrow> nonneg (a - c)" "nonneg (a - (b + c)) \<Longrightarrow> nonneg c \<Longrightarrow> nonneg (a - b)"
  by (simp_all add: nonneg_def)

lemma rows_due_nonneg: "rows_nonneg rows \<Longrightarrow> nonneg (rows_due rows k)"
  by (induction rows) (simp_all add: rows_nonneg_def)

lemma paid_simps [simp]:
  "paid [] k = 0" "paid (tr @ [e]) k = paid tr k + event_paid k e"
  by (simp_all add: paid_def)

lemma event_paid_simps [simp]:
  "event_paid k (EvRequest m a et body rp) = 0" "event_paid k (EvRename d) = 0"
  "event_paid k (EvRevoke ids done) = 0" "event_paid k (EvCommit rows False) = 0"
  "event_paid k (EvCommit rows True) = rows_due rows k"
  by (simp_all add: event_paid_def)

section \<open>Nothing in flight\<close>

text \<open>After a successful call no state waits for synchronisation, and a send leaves no batch.\<close>

definition quiet :: "('b, 'r) client \<Rightarrow> bool" where
  "quiet s \<longleftrightarrow> unsynced s = None \<and> (\<exists>ob. outbox s = Some ob \<and> rs_Pending ob = None)"

lemma save_synced: "saveReportState env st s = (Inr u, t) \<Longrightarrow> unsynced t = None"
  by (auto elim!: saveReportState_cases)

lemma finishAck_synced: "finishAck env hk ob batch ack s = (Inr u, t) \<Longrightarrow> unsynced t = None"
  by (auto simp: finishAck_def ok_def fail_def Let_def elim!: bindE_cases split: if_splits dest!: save_synced)

lemma sendPendingOnce_synced: "sendPendingOnce env hk s = (Inr u, t) \<Longrightarrow> unsynced s = None \<Longrightarrow> unsynced t = None"
  by (auto simp: sendPendingOnce_def ok_def fail_def split: option.splits prod.splits sum.splits dest: finishAck_synced)

lemma isolation_synced: "finishTrafficIsolation env hk s = (Inr u, t) \<Longrightarrow> unsynced t = None"
  by (auto simp: finishTrafficIsolation_def ok_def fail_def elim!: bindE_cases split: option.splits if_splits dest!: save_synced)

lemma isolate_synced:
  "isolateTraffic env hk n s = (Inr u, t) \<Longrightarrow> unsynced t = None"
  "isolateAtCursor env hk s = (Inr u, t) \<Longrightarrow> unsynced t = None"
  by (auto simp: isolateTraffic_def isolateAtCursor_def fail_def bindE_Inr_iff split: option.splits prod.splits sum.splits
      dest: isolation_synced)

lemma rebase_synced: "rebaseTrafficConflict env c s = (Inr u, t) \<Longrightarrow> unsynced t = None"
  by (auto simp: rebaseTrafficConflict_def fail_def split: option.splits if_splits dest: save_synced)

text \<open>How a successful attempt ends.\<close>

lemma sendAttempt_exit:
  assumes "sendAttempt env hk attempt s = (Inr u, t)"
  obtains (once) "sendPendingOnce env hk s = (Inr u, t)"
    | (isolated) n s2 where "isolateTraffic env hk n s2 = (Inr u, t) \<or> isolateAtCursor env hk s2 = (Inr u, t)"
    | (again) c s2 s3 where "attempt = 0" "rebaseTrafficConflict env c s2 = (Inr (), s3)" "sendAttempt env hk (Suc 0) s3 = (Inr u, t)"
proof (cases "sendPendingOnce env hk s")
  case (Pair r s1)
  show thesis
  proof (cases r)
    case (Inr v)
    with assms Pair once show thesis by (simp add: sendAttempt.simps [of env hk attempt s] ok_def)
  next
    case (Inl err)
    note def = assms [unfolded sendAttempt.simps [of env hk attempt s] Pair Inl prod.case sum.case]
    then obtain ob where ob: "as_unconfirmed err \<noteq> None" "outbox s1 = Some ob" by (cases "outbox s1") (auto simp: fail_def split: if_splits)
    note save = def [unfolded if_not_P [OF ob(1)] ob(2) option.case]
    then obtain s2 where s2: "saveReportState env (ob\<lparr>rs_Failures := min (wrap64 (rs_Failures ob + 1)) 3\<rparr>) s1 = (Inr (), s2)"
      by (auto simp: bindE_Inr_iff)
    note rest = save [unfolded s2 bindE_simps]
    then obtain ob2 where ob2: "outbox s2 = Some ob2" by (cases "outbox s2") (auto simp: fail_def)
    with rest isolated again show thesis by (auto simp: fail_def bindE_Inr_iff split: option.splits if_splits)
  qed
qed

lemma sendAttempt_synced:
  assumes "sendAttempt env hk attempt s = (Inr u, t)" "unsynced s = None"
  shows "unsynced t = None"
proof -
  have last: "unsynced t = None" if "sendAttempt env hk (Suc 0) s1 = (Inr u, t)" "unsynced s1 = None" for s1
    using that(1) by (cases rule: sendAttempt_exit) (use that(2) in \<open>auto dest: sendPendingOnce_synced isolate_synced\<close>)
  from assms(1) show ?thesis
    by (cases rule: sendAttempt_exit)
      (use assms(2) in \<open>auto dest: sendPendingOnce_synced isolate_synced rebase_synced intro: last\<close>)
qed

lemma sendPending_quiet:
  assumes "sendPending env hk s = (Inr u, t)" "unsynced s = None"
  shows "quiet t"
proof -
  obtain ob where ob: "outbox s = Some ob" using assms(1) by (auto simp: sendPending_def fail_def split: option.splits)
  then have "holds_buffer (rs_Buffered ob) s" by (simp add: holds_buffer_def)
  from sendPending_clears [OF assms(1) this] have "\<exists>ob. outbox t = Some ob \<and> rs_Pending ob = None" by (auto simp: cleared_def)
  moreover have "unsynced t = None"
    using assms ob by (auto simp: sendPending_def split: if_splits dest: isolation_synced sendAttempt_synced)
  ultimately show ?thesis by (simp add: quiet_def)
qed

lemma flushBuffered_quiet:
  "flushBuffered env hk batches s = (Inr m, t) \<Longrightarrow> quiet s \<Longrightarrow> quiet t"
proof (induction "bufferedLen s" arbitrary: s batches rule: less_induct)
  case less
  obtain ob where ob: "outbox s = Some ob" using less.prems(2) by (auto simp: quiet_def)
  show ?case
  proof (cases "rs_Buffered ob = []")
    case True
    with less.prems ob show ?thesis by (simp add: flushBuffered.simps [of env hk batches s] ok_def)
  next
    case False
    with less.prems(1) ob obtain sel rest u s1 v s2 where sel: "selectTrafficBatch (rs_Buffered ob) = Inr (sel, rest)"
      and sv: "saveReportState env (pendingState ob sel rest) (s\<lparr>recovered := True\<rparr>) = (Inr u, s1)"
      and sd: "sendPending env hk s1 = (Inr v, s2)"
      and rest: "(if batches > 0 then (if batches - 1 = 0 then ok None s2 else flushBuffered env hk (batches - 1) s2)
        else flushBuffered env hk batches s2) = (Inr m, t)"
      by (auto simp: flushBuffered.simps [of env hk batches s] fail_def bindE_Inr_iff split: sum.splits)
    have q: "quiet s2" by (rule sendPending_quiet [OF sd save_synced [OF sv]])
    note less.hyps [OF buffered_decreases [OF ob False sel sv sd] _ q]
    with rest q show ?thesis by (auto simp: ok_def split: if_splits)
  qed
qed

lemma read_synced: "readReportState env s = (r, t) \<Longrightarrow> unsynced t = unsynced s"
  using readReportState_cases [of env s r t] by auto

lemma loadCurrent_synced:
  assumes "loadCurrent env ob s = (Inr u, t)" "unsynced s = None"
  shows "unsynced t = None"
proof -
  obtain content s1 where rd: "readReportState env s = (Inr content, s1)" using assms(1) by (auto simp: loadCurrent_def bindE_Inr_iff)
  with assms read_synced [OF rd] show ?thesis
    by (auto simp: loadCurrent_def ok_def fail_def split: option.splits if_splits)
qed

lemma loadFile_synced:
  assumes "loadFile env s = (Inr u, t)" "unsynced s = None"
  shows "unsynced t = None"
proof -
  obtain r s1 where rd: "readReportState env s = (r, s1)" by fastforce
  have "unsynced t = None" if "loadRemote env s1 = (Inr u, t)"
    using that by (auto simp: loadRemote_def bindE_Inr_iff fail_def split: option.splits if_splits dest: save_synced)
  with assms rd read_synced [OF rd] show ?thesis
    by (auto simp: loadFile_def ok_def fail_def split: sum.splits option.splits if_splits)
qed

lemma loadUnsynced_synced:
  assumes "loadUnsynced env s = (Inr u, t)"
  shows "unsynced t = None"
proof (cases "unsynced s")
  case None
  with assms show ?thesis by (simp add: loadUnsynced_def ok_def)
next
  case (Some st)
  with assms obtain content s1 where rd: "readReportState env s = (Inr content, s1)" by (auto simp: loadUnsynced_def bindE_Inr_iff)
  with assms Some have "finishStateSync env s1 = (Inr u, t)" by (auto simp: loadUnsynced_def fail_def split: if_splits)
  then show ?thesis by (rule finishStateSync_cases [where u = st]) (use Some read_synced [OF rd] in auto)
qed

lemma load_synced:
  assumes "loadReportState env s = (Inr u, t)"
  shows "unsynced t = None"
proof -
  obtain s1 where l: "loadUnsynced env s = (Inr (), s1)"
    and n: "(case outbox s1 of Some ob \<Rightarrow> loadCurrent env ob s1 | None \<Rightarrow> loadFile env s1) = (Inr u, t)"
    using assms by (auto simp: loadReportState_def bindE_Inr_iff)
  with loadUnsynced_synced [OF l] show ?thesis by (auto split: option.splits dest: loadCurrent_synced loadFile_synced)
qed

section \<open>What the outbox relies on\<close>

text \<open>
  A runtime with a balance for every user that has a name: capturing reports at most the balances
  and keeps them, committing rows that the balances cover takes exactly these rows, and revoking
  users keeps the balances.
\<close>

locale billing =
  fixes sound :: "'r \<Rightarrow> bool"
    and bal :: "'r \<Rightarrow> string \<Rightarrow> usage"
    and hk :: "'r hooks"
  assumes capture_sound: "sound rt \<Longrightarrow> capture hk (pc, rt) = (r, pc', rt') \<Longrightarrow>
      sound rt' \<and> (\<forall>k. k \<noteq> [] \<longrightarrow> bal rt' k = bal rt k)"
    and capture_covered: "sound rt \<Longrightarrow> capture hk (pc, rt) = (Inr rows, pc', rt') \<Longrightarrow>
      rows_nonneg rows \<and> (\<forall>k. k \<noteq> [] \<longrightarrow> nonneg (bal rt k - rows_due rows k))"
    and commit_exact: "sound rt \<Longrightarrow> rows_nonneg rows \<Longrightarrow> \<forall>k. k \<noteq> [] \<longrightarrow> nonneg (bal rt k - rows_due rows k) \<Longrightarrow>
      commit hk rows (pc, rt) = (r', pc', rt') \<Longrightarrow>
      r' = Inr () \<and> sound rt' \<and> (\<forall>k. k \<noteq> [] \<longrightarrow> bal rt' k = bal rt k - rows_due rows k)"
    and revoke_sound: "sound rt \<Longrightarrow> revoke hk ids (pc, rt) = (r', pc', rt') \<Longrightarrow>
      sound rt' \<and> (\<forall>k. k \<noteq> [] \<longrightarrow> bal rt' k = bal rt k)"
    and balance_nonneg: "sound rt \<Longrightarrow> nonneg (bal rt k)"
begin

text \<open>
  A batch in memory that was captured by this process and not committed yet is covered, on top of
  an amount \<open>e\<close> that is spoken for (the rows of a round that are still queued).
\<close>

definition covers :: "'r \<Rightarrow> (string \<Rightarrow> usage) \<Rightarrow> reportState \<Rightarrow> bool" where
  "covers rt e st \<longleftrightarrow> (\<forall>b. rs_Pending st = Some b \<longrightarrow> rows_nonneg (map user_of_row (batch_Rows b)) \<and>
     (\<forall>k. k \<noteq> [] \<longrightarrow> nonneg (bal rt k - (batch_due (batch_Rows b) k + e k))))"

abbreviation own :: "('b, 'r) client \<Rightarrow> bool" where
  "own s \<equiv> \<not> committed s \<and> \<not> recovered s"

definition books :: "(string \<Rightarrow> usage) \<Rightarrow> (string \<Rightarrow> usage) \<Rightarrow> ('b, 'r) client \<Rightarrow> bool" where
  "books T e s \<longleftrightarrow> sound (runtime s) \<and>
     (\<forall>k. k \<noteq> [] \<longrightarrow> bal (runtime s) k + paid (trace s) k = T k \<and> nonneg (e k) \<and> nonneg (bal (runtime s) k - e k)) \<and>
     (own s \<longrightarrow> (\<forall>st. outbox s = Some st \<or> unsynced s = Some st \<longrightarrow> covers (runtime s) e st))"

lemma covers_clear [simp]: "rs_Pending st = None \<Longrightarrow> covers rt e st"
  by (simp add: covers_def)

lemma covers_same: "rs_Pending st' = rs_Pending st \<Longrightarrow> covers rt e st' = covers rt e st"
  by (simp add: covers_def)

lemma covers_fit [simp]: "covers rt e (fitState env st) = covers rt e st"
  by (rule covers_same) simp

lemma booksD:
  assumes "books T e s"
  shows "sound (runtime s)" "k \<noteq> [] \<Longrightarrow> bal (runtime s) k + paid (trace s) k = T k"
    "k \<noteq> [] \<Longrightarrow> nonneg (bal (runtime s) k - e k)" "own s \<Longrightarrow> outbox s = Some st \<Longrightarrow> covers (runtime s) e st"
    "own s \<Longrightarrow> unsynced s = Some st \<Longrightarrow> covers (runtime s) e st" "k \<noteq> [] \<Longrightarrow> nonneg (e k)"
  using assms by (simp_all add: books_def)

text \<open>Steps that neither touch the runtime nor commit.\<close>

lemma books_frame:
  assumes "books T e s" "runtime t = runtime s" "\<forall>k. paid (trace t) k = paid (trace s) k"
    "own t \<Longrightarrow> (\<forall>st. outbox t = Some st \<or> unsynced t = Some st \<longrightarrow> covers (runtime s) e st)"
  shows "books T e t"
  using assms by (simp add: books_def)

lemma books_same:
  assumes "books T e s" "runtime t = runtime s" "\<forall>k. paid (trace t) k = paid (trace s) k"
    "outbox t = outbox s" "unsynced t = unsynced s" "committed t = committed s" "recovered t = recovered s"
  shows "books T e t"
  using assms by (simp add: books_def)

lemma books_simps [simp]:
  "books T e (s\<lparr>tick := n\<rparr>) = books T e s" "books T e (s\<lparr>cache := c\<rparr>) = books T e s"
  "books T e (s\<lparr>lastTrafficUID := u\<rparr>) = books T e s"
  by (simp_all add: books_def)

text \<open>An amount that is spoken for may be released.\<close>

lemma books_release:
  assumes "books T e s" "\<And>k. k \<noteq> [] \<Longrightarrow> nonneg (e' k) \<and> nonneg (e k - e' k)"
  shows "books T e' s"
proof -
  have le: "nonneg (a - e' k)" if "nonneg (a - e k)" "k \<noteq> []" for a k
    using that assms(2) [of k] by (simp add: nonneg_def)
  have "covers (runtime s) e' st" if "covers (runtime s) e st" for st
    using that le [of "bal (runtime s) _ - batch_due _ _"] by (simp add: covers_def diff_diff_eq)
  with assms le show ?thesis by (auto simp: books_def)
qed

section \<open>The outbox keeps the books\<close>

lemma books_bindE:
  assumes "books T e (snd m)" "\<And>a t. m = (Inr a, t) \<Longrightarrow> books T e t \<Longrightarrow> books T e (snd (k a t))"
  shows "books T e (snd (bindE m k))"
  using assms by (cases m; cases "fst m") (auto simp: bindE_def)

lemma books_bindE_weaken:
  fixes m :: "('e + 'a) \<times> ('b, 'r) client"
  assumes "books T e (snd m)" "\<And>t :: ('b, 'r) client. books T e t \<Longrightarrow> books T e' t"
    "\<And>a t. m = (Inr a, t) \<Longrightarrow> books T e t \<Longrightarrow> books T e' (snd (k a t))"
  shows "books T e' (snd (bindE m k))"
  using assms by (cases m; cases "fst m") (auto simp: bindE_def)

lemma books_return [simp]: "books T e (snd (ok a s)) = books T e s" "books T e (snd (fail x s)) = books T e s"
  by (simp_all add: ok_def fail_def)

lemma books_steps:
  assumes "books T e s"
  shows "books T e (snd (fsop env s))" "books T e (snd (request env meth action etag body s))"
    "books T e (snd (acquireLock env busy s))" "books T e (snd (getUsers env etag s))"
proof -
  show r: "books T e (snd (request env meth action etag body s))" for meth action etag body
    by (rule books_same [OF assms]) (simp_all add: request_def Let_def)
  show "books T e (snd (getUsers env etag s))" by (simp add: getUsers_snd r)
qed (simp_all add: fsop_def acquireLock_def Let_def ok_def fail_def assms split: sum.split)

lemma books_read: "books T e s \<Longrightarrow> books T e (snd (readReportState env s))"
  using readReportState_cases [of env s] by (cases "readReportState env s") auto

lemma books_save:
  assumes "books T e s" "own s \<Longrightarrow> covers (runtime s) e st"
  shows "books T e (snd (saveReportState env st s))"
proof -
  obtain r t where "saveReportState env st s = (r, t)" by fastforce
  then show ?thesis
  proof (cases rule: saveReportState_cases)
    case (ok n n')
    show ?thesis unfolding \<open>saveReportState env st s = (r, t)\<close> snd_conv ok(2)
      by (rule books_frame [OF assms(1)]) (use assms(2) in auto)
  next
    case (unsync m n)
    show ?thesis unfolding \<open>saveReportState env st s = (r, t)\<close> snd_conv unsync(2)
      by (rule books_frame [OF assms(1)]) (use assms booksD(4) [OF assms(1)] in auto)
  next
    case (err m n)
    with \<open>saveReportState env st s = (r, t)\<close> assms(1) show ?thesis by simp
  qed
qed

lemma books_loadUnsynced:
  assumes "books T e s" "loadUnsynced env s = (r, t)"
  shows "books T e t" "r = Inr () \<Longrightarrow> unsynced t = None"
proof -
  have "books T e t \<and> (r = Inr () \<longrightarrow> unsynced t = None)"
  proof (cases "unsynced s")
    case None
    with assms show ?thesis by (auto simp: loadUnsynced_def ok_def)
  next
    case (Some u)
    obtain f s1 where rd: "readReportState env s = (f, s1)" by fastforce
    with readReportState_cases [of env s f s1] obtain n where s1: "s1 = s\<lparr>tick := n\<rparr>" by auto
    show ?thesis
    proof (cases "\<exists>b. f = Inr b \<and> b = json_state env u")
      case True
      then have fin: "finishStateSync env s1 = (r, t)" using assms(2) Some rd by (auto simp: loadUnsynced_def)
      have "unsynced s1 = Some u" using Some s1 by simp
      with fin show ?thesis
      proof (cases rule: finishStateSync_cases)
        case (ok n)
        have "books T e (settled u s1 n)"
          by (rule books_frame [OF assms(1)]) (use s1 Some booksD(5) [OF assms(1)] in auto)
        with ok show ?thesis by simp
      qed (use s1 assms(1) in auto)
    qed (use assms rd s1 Some in \<open>auto simp: loadUnsynced_def bindE_def fail_def split: sum.splits if_splits\<close>)
  qed
  then show "books T e t" "r = Inr () \<Longrightarrow> unsynced t = None" by auto
qed

lemma books_loadCurrent:
  assumes "books T e s" "outbox s = Some ob" "unsynced s = None"
  shows "books T e (snd (loadCurrent env ob s))"
  unfolding loadCurrent_def
proof (rule books_bindE [OF books_read [OF assms(1)]])
  fix content t
  assume "readReportState env s = (Inr content, t)" and t: "books T e t"
  then have u: "unsynced t = None" using assms(3) readReportState_cases by fastforce
  have "books T e (t\<lparr>outbox := Some st, committed := False, recovered := False\<rparr>)" if "rs_Pending st = None" for st
    by (rule books_frame [OF t]) (use u that in auto)
  with t show "books T e (snd (if content = json_state env ob then ok () t
       else (case unjson_state env content of
           None \<Rightarrow> fail (Err ''traffic state changed by another controller; refusing to overwrite'') t
         | Some saved \<Rightarrow>
             (if committed t \<and> rs_Pending ob \<noteq> None \<and> rs_Version saved = 1 \<and> rs_Pending saved = None \<and>
                 rs_Next saved = rs_Next ob + 1
              then ok () (t\<lparr>outbox := Some saved, committed := False, recovered := False\<rparr>)
              else fail (Err ''traffic state changed by another controller; refusing to overwrite'') t))))"
    by (simp split: option.split)
qed

lemma books_loadRemote: "books T e s \<Longrightarrow> books T e (snd (loadRemote env s))"
  unfolding loadRemote_def
  by (rule books_bindE [OF books_steps(2)])
    (auto split: option.split intro!: books_save simp: freshState_def)

lemma books_loadFile:
  assumes "books T e s" "unsynced s = None"
  shows "books T e (snd (loadFile env s))"
proof -
  obtain f t where rd: "readReportState env s = (f, t)" by fastforce
  then obtain n where t: "t = s\<lparr>tick := n\<rparr>" using readReportState_cases [of env s f t] by auto
  have "books T e (s\<lparr>tick := n, outbox := Some st, recovered := (rs_Pending st \<noteq> None)\<rparr>)" for st
    by (rule books_frame [OF assms(1)]) (use assms(2) in auto)
  with rd t assms(1) books_loadRemote [of T e "s\<lparr>tick := n\<rparr>" env] show ?thesis
    by (auto simp: loadFile_def split: sum.split option.split)
qed

lemma books_load:
  assumes "books T e s"
  shows "books T e (snd (loadReportState env s))"
proof -
  obtain r t where l: "loadUnsynced env s = (r, t)" by fastforce
  note t = books_loadUnsynced [OF assms l]
  show ?thesis
    unfolding loadReportState_def l
    by (rule books_bindE) (use t books_loadCurrent [OF t(1)] books_loadFile [OF t(1)] in \<open>auto split: option.split\<close>)
qed

lemma books_callRevoke: "books T e s \<Longrightarrow> books T e (snd (callRevoke hk ids s))"
  using revoke_sound [of "runtime s" ids "cache s"]
  by (auto simp: callRevoke_def books_def covers_def split: prod.splits)

lemma books_callCapture:
  assumes "books T e s"
  shows "books T e (snd (callCapture hk s))"
  using assms capture_sound [of "runtime s" "cache s"]
  by (auto simp: callCapture_def books_def covers_def split: prod.splits)

text \<open>The one place where the counters are reduced.\<close>

lemma books_commitOnce:
  assumes "books T e s" "outbox s = Some ob" "rs_Pending ob = Some batch"
  shows "books T e (snd (commitOnce hk batch s))"
proof (cases "own s")
  case False
  with assms(1) show ?thesis by (auto simp: commitOnce_def)
next
  case True
  let ?rows = "map user_of_row (batch_Rows batch)"
  obtain r pc rt where c: "commit hk ?rows (cache s, runtime s) = (r, pc, rt)" by (metis surj_pair)
  have cov: "covers (runtime s) e ob" using booksD(4) [OF assms(1) True assms(2)] .
  have pos: "rows_nonneg ?rows" and left: "\<forall>k. k \<noteq> [] \<longrightarrow> nonneg (bal (runtime s) k - (rows_due ?rows k + e k))"
    using cov assms(3) by (auto simp: covers_def)
  have "\<forall>k. k \<noteq> [] \<longrightarrow> nonneg (bal (runtime s) k - rows_due ?rows k)"
    using left booksD(6) [OF assms(1)] by (blast intro: nonneg_less(2))
  note x = commit_exact [OF booksD(1) [OF assms(1)] pos this c]
  have "books T e (s\<lparr>cache := pc, runtime := rt, trace := trace s @ [EvCommit ?rows True], committed := True\<rparr>)"
    using x left booksD(2,6) [OF assms(1)] by (auto simp: books_def diff_diff_eq)
  with True c x show ?thesis by (simp add: commitOnce_def callCommit_def succeeded_def ok_def)
qed

lemma commitOnce_unsynced: "commitOnce hk batch s = (r, t) \<Longrightarrow> unsynced t = unsynced s"
  by (auto simp: commitOnce_def ok_def elim!: bindE_cases split: if_splits dest: callCommit_frame)

lemma books_saved:
  assumes "books T e s" "rs_Pending st = None" "saveReportState env st s = (Inr u, t)"
  shows "books T e (t\<lparr>recovered := False, committed := False\<rparr>)"
proof -
  have "books T e t" using books_save [OF assms(1), of st env] assms(2,3) by simp
  then show ?thesis by (rule books_frame) (use assms(2,3) in \<open>auto elim!: saveReportState_cases\<close>)
qed

lemma books_finishAck:
  assumes "books T e s" "outbox s = Some ob" "rs_Pending ob = Some batch"
  shows "books T e (snd (finishAck env hk ob batch ack s))"
proof -
  have clear: "rs_Pending (ackedState batch ob n) = None" for n by (simp add: ackedState_def)
  have tail: "books T e (snd (bindE (saveReportState env (ackedState batch ob n) t)
      (\<lambda>_ s. ok () (s\<lparr>recovered := False, committed := False\<rparr>))))" if "books T e t" for n t
    by (rule books_bindE [OF books_save [OF that]]) (auto simp: clear intro: books_saved [OF that clear])
  show ?thesis
    unfolding finishAck_def Let_def
    by (rule books_bindE [OF books_commitOnce [OF assms]], rule books_bindE [OF books_callRevoke])
      (auto intro: tail)
qed

lemma books_sendPendingOnce:
  assumes "books T e s"
  shows "books T e (snd (sendPendingOnce env hk s))"
proof -
  have "books T e (snd (finishAck env hk ob batch ack t))"
    if "request env ''POST'' ''traffic'' [] body s = (r, t)" "outbox s = Some ob" "rs_Pending ob = Some batch" for body r t ob batch ack
    using books_steps(2) [OF assms, of env "''POST''" "''traffic''" "[]" body] that
    by (intro books_finishAck) (auto dest: request_frame(1))
  moreover have "books T e t" if "request env ''POST'' ''traffic'' [] body s = (r, t)" for body r t
    using books_steps(2) [OF assms, of env "''POST''" "''traffic''" "[]" body] that by simp
  ultimately show ?thesis
    using assms by (auto simp: sendPendingOnce_def split: option.split prod.split sum.split)
qed

lemma books_rebase: "books T e s \<Longrightarrow> books T e (snd (rebaseTrafficConflict env c s))"
  by (auto simp: rebaseTrafficConflict_def rebasedState_def covers_def split: option.split
      intro!: books_save dest: booksD(4))

lemma books_cursor: "books T e s \<Longrightarrow> books T e (snd (readTrafficCursor env s))"
  using readTrafficCursor_frame [of env s] books_steps(2) by (metis prod.collapse)

lemma books_isolation:
  assumes "books T e s"
  shows "books T e (snd (finishTrafficIsolation env hk s))"
proof (cases "outbox s")
  case None
  with assms show ?thesis by (simp add: finishTrafficIsolation_def)
next
  case (Some ob)
  let ?s = "s\<lparr>cache := InvalidateUsers (cache s)\<rparr>"
  have commits: "books T e (snd (bindE (callRevoke hk ids t) (\<lambda>_ s. bindE (commitOnce hk batch s) (\<lambda>_ s.
      bindE (saveReportState env (isolatedState batch res ob (env_now env (tick s))) s) (\<lambda>_ s.
        if batch_Rows batch = [] then fail (Panic ''index out of range'') s
        else ok () (s\<lparr>lastTrafficUID := row_UID (last (batch_Rows batch))\<rparr>))))))"
    if "books T e t" "outbox t = Some ob" "rs_Pending ob = Some batch" for t ids batch res
  proof (rule books_bindE [OF books_callRevoke [OF that(1)]])
    fix u t1
    assume r: "callRevoke hk ids t = (Inr u, t1)" and t1: "books T e t1"
    have "outbox t1 = Some ob" using callRevoke_frame(1) [OF r] that(2) by simp
    from books_commitOnce [OF t1 this that(3)] show "books T e (snd (bindE (commitOnce hk batch t1) (\<lambda>_ s.
      bindE (saveReportState env (isolatedState batch res ob (env_now env (tick s))) s) (\<lambda>_ s.
        if batch_Rows batch = [] then fail (Panic ''index out of range'') s
        else ok () (s\<lparr>lastTrafficUID := row_UID (last (batch_Rows batch))\<rparr>)))))"
      by (rule books_bindE) (auto simp: isolatedState_def intro!: books_bindE books_save)
  qed
  show ?thesis
    unfolding finishTrafficIsolation_def Some option.case
  proof (rule books_bindE)
    show "books T e (snd (getUsers env [] ?s))" using books_steps(4) [of T e ?s] assms by simp
    fix sn t
    assume g: "getUsers env [] ?s = (Inr sn, t)" and t: "books T e t"
    then have "outbox t = Some ob" using getUsers_outbox [OF g] Some by simp
    with t commits [OF t] show "books T e (snd (case sn of
           None \<Rightarrow> fail (Err ''missing users while resolving traffic'') t
         | Some sn \<Rightarrow> (case (rs_Pending ob, rs_Resolution ob) of
              (Some batch, Some res) \<Rightarrow>
                bindE (callRevoke hk (inactiveUIDs (snap_Users sn) (batch_Rows batch)) t) (\<lambda>_ s.
                bindE (commitOnce hk batch s) (\<lambda>_ s.
                bindE (saveReportState env (isolatedState batch res ob (env_now env (tick s))) s) (\<lambda>_ s.
                  if batch_Rows batch = [] then fail (Panic ''index out of range'') s
                  else ok () (s\<lparr>lastTrafficUID := row_UID (last (batch_Rows batch))\<rparr>))))
            | _ \<Rightarrow> fail (Panic ''nil batch or resolution'') t)))"
      by (auto split: option.split)
  qed
qed

lemma books_resave:
  assumes "books T e s" "outbox s = Some ob" "rs_Pending st = rs_Pending ob"
  shows "books T e (snd (saveReportState env st s))"
  using books_save [OF assms(1)] booksD(4) [OF assms(1) _ assms(2)] covers_same [OF assms(3)] by blast

lemma books_isolate:
  assumes "books T e s"
  shows "books T e (snd (isolateTraffic env hk n s))" "books T e (snd (isolateAtCursor env hk s))"
proof -
  have i: "books T e (snd (isolateTraffic env hk n t))" if "books T e t" for n t
    using that by (auto simp: isolateTraffic_def split: option.split intro!: books_bindE books_isolation books_resave)
  show "books T e (snd (isolateTraffic env hk n s))" using i [OF assms] .
  show "books T e (snd (isolateAtCursor env hk s))"
    using books_cursor [OF assms, of env] i by (auto simp: isolateAtCursor_def split: prod.split sum.split)
qed

lemma books_attempt:
  assumes s: "books T e s"
    and again: "\<And>t. books T e t \<Longrightarrow> attempt = 0 \<Longrightarrow> books T e (snd (sendAttempt env hk (Suc 0) t))"
  shows "books T e (snd (sendAttempt env hk attempt s))"
proof -
  obtain r s1 where once: "sendPendingOnce env hk s = (r, s1)" by fastforce
  have s1: "books T e s1" using books_sendPendingOnce [OF s, of env] once by simp
  have rest: "books T e (snd (case outbox t of None \<Rightarrow> fail (Panic ''nil outbox'') t
      | Some ob \<Rightarrow> (case as_conflict err of
           Some c \<Rightarrow> (if canIsolateTraffic c (rs_Pending ob) (digestOf env)
              then isolateTraffic env hk (conflict_Next c) t
              else if rs_Failures ob \<ge> 3 then isolateAtCursor env hk t
              else if attempt \<noteq> 0 then fail err t
              else bindE (rebaseTrafficConflict env c t) (\<lambda>_ s. sendAttempt env hk (Suc attempt) s))
         | None \<Rightarrow> (if rs_Failures ob \<ge> 3 then isolateAtCursor env hk t else fail err t))))"
    if "books T e t" for t err
    using that by (auto split: option.split intro!: books_isolate books_bindE books_rebase again)
  have saves: "books T e (snd (saveReportState env (ob\<lparr>rs_Failures := n\<rparr>) s1))" if "outbox s1 = Some ob" for ob n
    by (rule books_resave [OF s1 that]) simp
  show ?thesis
  proof (cases r)
    case (Inr u)
    with s1 once show ?thesis by (simp add: sendAttempt.simps [of env hk attempt s])
  next
    case (Inl err)
    show ?thesis
    proof (cases "as_unconfirmed err = None \<or> outbox s1 = None")
      case True
      with s1 once Inl show ?thesis by (auto simp: sendAttempt.simps [of env hk attempt s])
    next
      case False
      then obtain ob where ob: "as_unconfirmed err \<noteq> None" "outbox s1 = Some ob" by auto
      show ?thesis
        unfolding sendAttempt.simps [of env hk attempt s] once Inl prod.case sum.case if_not_P [OF ob(1)] ob(2) option.case
        by (rule books_bindE [OF saves [OF ob(2)] rest])
    qed
  qed
qed

lemma books_sendPending:
  assumes "books T e s"
  shows "books T e (snd (sendPending env hk s))"
proof -
  have "books T e (snd (sendAttempt env hk (Suc n) t))" if "books T e t" for n t
    using that by (rule books_attempt) simp
  then have "books T e (snd (sendAttempt env hk 0 s))" by (intro books_attempt [OF assms])
  with assms books_isolation show ?thesis by (auto simp: sendPending_def split: option.split)
qed

lemma books_flushBuffered: "books T e s \<Longrightarrow> books T e (snd (flushBuffered env hk batches s))"
proof (induction "bufferedLen s" arbitrary: s batches rule: less_induct)
  case less
  have clear: "books T e (s\<lparr>recovered := True\<rparr>)" by (rule books_frame [OF less.prems]) simp_all
  note save = books_save [OF clear]
  have rec: "books T e (snd (flushBuffered env hk b t2))"
    if "outbox s = Some ob" "rs_Buffered ob \<noteq> []" "selectTrafficBatch (rs_Buffered ob) = Inr (sel, rest)"
      "saveReportState env (pendingState ob sel rest) (s\<lparr>recovered := True\<rparr>) = (Inr u, t1)" "sendPending env hk t1 = (Inr v, t2)"
      "books T e t2" for ob sel rest u t1 v t2 b
    using less.hyps [OF buffered_decreases [OF that(1-5)] that(6)] .
  show ?case
  proof (cases "\<exists>ob sel rest. outbox s = Some ob \<and> rs_Buffered ob \<noteq> [] \<and> selectTrafficBatch (rs_Buffered ob) = Inr (sel, rest)")
    case False
    with less.prems show ?thesis
      by (auto simp: flushBuffered.simps [of env hk batches s] split: option.split sum.split)
  next
    case True
    then obtain ob sel rest where ob: "outbox s = Some ob" "rs_Buffered ob \<noteq> []" "selectTrafficBatch (rs_Buffered ob) = Inr (sel, rest)"
      by blast
    show ?thesis
      unfolding flushBuffered.simps [of env hk batches s] ob(1,3) option.case if_not_P [OF ob(2)] sum.case prod.case
      by (rule books_bindE [OF save], simp, rule books_bindE [OF books_sendPending], assumption) (auto intro: rec [OF ob])
  qed
qed

text \<open>In a round, the rows that are still queued are spoken for.\<close>

lemma books_flushQueue:
  assumes "books T (batch_due queued) s" "rows_nonneg (map user_of_row queued)"
  shows "books T (\<lambda>_. 0) (snd (flushQueue env hk batches queued s))"
  using assms
proof (induction "length queued" arbitrary: s batches queued rule: less_induct)
  case less
  have released: "books T (\<lambda>_. 0) t" if "books T (batch_due q) t" "rows_nonneg (map user_of_row q)" for q and t
    by (rule books_release [OF that(1)]) (simp add: rows_due_nonneg [OF that(2)])
  show ?case
  proof (cases "\<exists>ob sel rest. outbox s = Some ob \<and> queued \<noteq> [] \<and> env_ctx env (tick s) = None \<and> selectTrafficBatch queued = Inr (sel, rest)")
    case False
    with released [OF less.prems] show ?thesis
      by (auto simp: flushQueue.simps [of env hk batches queued s] split: option.split sum.split)
  next
    case True
    then obtain ob sel rest where ob: "outbox s = Some ob" "queued \<noteq> []" "env_ctx env (tick s) = None"
      "selectTrafficBatch queued = Inr (sel, rest)" by blast
    have ms: "mset (sel @ rest) = mset queued" using select_batch_mset [OF ob(4)] by simp
    then have "mset (map user_of_row queued) = mset (map user_of_row (sel @ rest))" by (simp only: mset_map)
    from rows_due_mset [OF this] have due: "batch_due queued k = batch_due sel k + batch_due rest k" for k
      by (simp add: rows_due_append)
    have pos: "rows_nonneg (map user_of_row sel)" "rows_nonneg (map user_of_row rest)"
      using less.prems(2) mset_eq_setD [OF ms] by (auto simp: rows_nonneg_def)
    have s: "books T (batch_due rest) s"
      by (rule books_release [OF less.prems(1)]) (simp add: due rows_due_nonneg pos)
    have cov: "covers (runtime s) (batch_due rest) (pendingState ob sel [])"
      using booksD(3) [OF less.prems(1)] pos by (simp add: covers_def pendingState_def due)
    note rec = less.hyps [OF select_batch_shorter [OF ob(4,2)] _ pos(2)]
    have "books T (\<lambda>_. 0) (snd (bindE (saveReportState env (pendingState ob sel []) s) (\<lambda>_ s.
        bindE (sendPending env hk s) (\<lambda>_ s. if batches > 0
          then (if batches - 1 = 0 then ok () s else flushQueue env hk (batches - 1) rest s)
          else flushQueue env hk batches rest s))))"
      by (rule books_bindE_weaken [OF books_save [OF s cov] released [OF _ pos(2)]], assumption,
          rule books_bindE_weaken [OF books_sendPending released [OF _ pos(2)]])
        (auto intro: rec released [OF _ pos(2)])
    then show ?thesis
      unfolding flushQueue.simps [of env hk batches queued s] using ob by simp
  qed
qed

lemma map_row_user [simp]: "map user_of_row (map row_of_user rows) = rows"
  by (induction rows) simp_all

text \<open>Before a round captures, nothing is pending: the captured rows are covered.\<close>

lemma books_flushCaptured:
  assumes "books T (\<lambda>_. 0) s" "quiet s"
  shows "books T (\<lambda>_. 0) (snd (flushCaptured env hk batches s))"
proof -
  obtain r pc rt where c: "capture hk (cache s, runtime s) = (r, pc, rt)" by (metis surj_pair)
  let ?t = "s\<lparr>cache := pc, runtime := rt\<rparr>"
  have call: "callCapture hk s = (r, ?t)" by (simp add: callCapture_def c)
  have t: "books T (\<lambda>_. 0) ?t" using books_callCapture [OF assms(1)] call by simp
  show ?thesis
  proof (cases r)
    case (Inl e)
    with call t show ?thesis by (simp add: flushCaptured_def)
  next
    case (Inr rows)
    let ?q = "rotateRows (lastTrafficUID ?t) rows"
    have r: "sound rt" "\<And>k. k \<noteq> [] \<Longrightarrow> bal rt k = bal (runtime s) k"
      "rows_nonneg rows" "\<And>k. k \<noteq> [] \<Longrightarrow> nonneg (bal (runtime s) k - rows_due rows k)"
      using capture_sound [OF booksD(1) [OF assms(1)] c] capture_covered [OF booksD(1) [OF assms(1)], of "cache s" rows pc rt] c Inr
      by auto
    have q: "rows_due (rotateRows n rows) k = rows_due rows k" for n k by (rule rows_due_mset) simp
    have "rows_nonneg ?q" using r(3) mset_eq_setD [OF mset_rotateRows] by (metis rows_nonneg_def)
    moreover have "books T (rows_due ?q) ?t"
      using t r rows_due_nonneg [OF r(3)] assms(2) by (auto simp: books_def q quiet_def)
    ultimately have "books T (\<lambda>_. 0) (snd (flushQueue env hk batches (map row_of_user ?q) ?t))"
      by (intro books_flushQueue) (simp_all only: map_row_user)
    with call Inr show ?thesis by (simp add: flushCaptured_def)
  qed
qed

text \<open>
  A reporting round, whatever the panel and the file system do and wherever it stops, keeps for
  every user the sum of the counter and of what was committed.
\<close>

lemma books_FlushTrafficLimit:
  assumes "books T (\<lambda>_. 0) s"
  shows "books T (\<lambda>_. 0) (snd (FlushTrafficLimit env hk batches s))"
proof -
  have round: "books T (\<lambda>_. 0) (snd (bindE (flushBuffered env hk n t) (\<lambda>more s.
      (case more of None \<Rightarrow> ok () s | Some n \<Rightarrow> flushCaptured env hk n s))))" if "books T (\<lambda>_. 0) t" "quiet t" for n t
    by (rule books_bindE [OF books_flushBuffered [OF that(1)]])
      (auto split: option.split intro: books_flushCaptured flushBuffered_quiet [OF _ that(2)])
  have send: "books T (\<lambda>_. 0) (snd (case outbox t of None \<Rightarrow> fail (Panic ''nil outbox'') t
      | Some ob \<Rightarrow> bindE (sendPending env hk t) (\<lambda>_ s.
          (let counted = rs_Pending ob \<noteq> None \<and> batches > 0;
               batches' = (if counted then batches - 1 else batches) in
           if counted \<and> batches' = 0 then ok () s
           else bindE (flushBuffered env hk batches' s) (\<lambda>more s.
             (case more of None \<Rightarrow> ok () s | Some n \<Rightarrow> flushCaptured env hk n s))))))"
    if "books T (\<lambda>_. 0) t" "unsynced t = None" for t
    using that by (auto split: option.split simp: Let_def simp del: bindE_simps
        intro!: books_bindE [OF books_sendPending] round intro: sendPending_quiet)
  show ?thesis
    unfolding FlushTrafficLimit_def
    using assms by (auto simp del: bindE_simps
        intro!: books_bindE [OF books_steps(1)] books_bindE [OF books_steps(3)] books_bindE [OF books_load] send load_synced)
qed

text \<open>Between rounds the runtime may count more and change in ways that keep the balances.\<close>

lemma books_counted:
  assumes "books T (\<lambda>_. 0) s" "sound rt" "\<And>k. k \<noteq> [] \<Longrightarrow> bal rt k = bal (runtime s) k + d k \<and> nonneg (d k)"
  shows "books (\<lambda>k. T k + d k) (\<lambda>_. 0) (s\<lparr>cache := c, runtime := rt\<rparr>)"
proof -
  have "nonneg (bal rt k - x)" if "nonneg (bal (runtime s) k - x)" "k \<noteq> []" for k x
    using that assms(3) [of k] by (simp add: nonneg_def)
  then have cov: "covers rt (\<lambda>_. 0) st" if "covers (runtime s) (\<lambda>_. 0) st" for st using that by (simp add: covers_def)
  have "bal rt k + paid (trace s) k = T k + d k" if "k \<noteq> []" for k
    using booksD(2) [OF assms(1) that] assms(3) [OF that] by (metis add.assoc add.commute)
  with assms cov balance_nonneg show ?thesis by (auto simp: books_def)
qed

lemma books_activity:
  assumes "books T (\<lambda>_. 0) s" "sound rt" "\<And>k. k \<noteq> [] \<Longrightarrow> bal rt k = bal (runtime s) k"
  shows "books T (\<lambda>_. 0) (s\<lparr>cache := c, runtime := rt\<rparr>)"
  using books_counted [OF assms(1,2), of "\<lambda>_. 0"] assms(3) by simp

end

end
