(* ===== verification/Accounts.thy ===== *)
theory Accounts
  imports Controller_Life Settlement
begin

text \<open>
  The counters of a controller's node as the accounts that the outbox settles. Every counter has a
  user with an identifier, every cached user counts into the counter of its own name, and the
  operations of the core keep both: capturing, deleting and pruning change no balance, committing
  takes exactly the rows that it is given.
\<close>

section \<open>The accounts of a node\<close>

definition acct :: "hy2Node \<Rightarrow> heap \<Rightarrow> (string \<Rightarrow> int) \<Rightarrow> bool" where
  "acct n h uid \<longleftrightarrow>
     counter_ok (node_counter n, storageHeap h) \<and> map_of (node_counter n) [] = None \<and>
     (\<forall>k p. map_of (cache_users n) k = Some p \<longrightarrow> p < length (cacheHeap h) \<and>
        map_of (node_counter n) k = Some (tc_storage (cacheHeap h ! p)) \<and> map_of (auth_users n) k \<noteq> None) \<and>
     (\<forall>k. map_of (node_counter n) k \<noteq> None \<or> map_of (auth_users n) k \<noteq> None \<longrightarrow> uid k \<noteq> 0)"

abbreviation nodeCounter :: "hy2Node \<Rightarrow> heap \<Rightarrow> TrafficCounter" where
  "nodeCounter n h \<equiv> (node_counter n, storageHeap h)"

lemma acctD:
  assumes "acct n h uid"
  shows "counter_ok (nodeCounter n h)" "map_of (node_counter n) [] = None"
    "map_of (cache_users n) k = Some p \<Longrightarrow> map_of (node_counter n) k = Some (tc_storage (cacheHeap h ! p))"
    "map_of (cache_users n) k = Some p \<Longrightarrow> p < length (cacheHeap h)"
    "map_of (cache_users n) k = Some p \<Longrightarrow> map_of (auth_users n) k \<noteq> None"
    "map_of (node_counter n) k \<noteq> None \<or> map_of (auth_users n) k \<noteq> None \<Longrightarrow> uid k \<noteq> 0"
  using assms by (auto simp: acct_def)

text \<open>Only these parts matter.\<close>

lemma acct_frame:
  assumes "acct n h uid" "node_counter n' = node_counter n" "storageHeap h' = storageHeap h" "cacheHeap h' = cacheHeap h"
    "\<And>k p. map_of (cache_users n') k = Some p \<Longrightarrow> map_of (cache_users n) k = Some p \<and> map_of (auth_users n') k \<noteq> None"
    "\<And>k. map_of (auth_users n') k \<noteq> None \<Longrightarrow> map_of (auth_users n) k \<noteq> None \<or> uid' k \<noteq> 0"
    "\<And>k. uid k \<noteq> 0 \<Longrightarrow> uid' k \<noteq> 0"
  shows "acct n' h' uid'"
  using assms unfolding acct_def by metis

subsection \<open>Capturing\<close>

text \<open>Every counted user has an identifier, so a capture drops no counter.\<close>

lemma capture_node:
  assumes "acct n h uid"
  shows "snd (captureNode m uid n (storageHeap h)) = n"
proof -
  have "captureOne m uid n (storageHeap h) x \<noteq> Drop" if "x \<in> set (node_counter n)" for x
  proof -
    have "map_of (node_counter n) (fst x) \<noteq> None" using that by (auto simp: map_of_eq_None_iff)
    then have "uid (fst x) \<noteq> 0" using acctD(6) [OF assms] by blast
    then show ?thesis by (cases x) (simp add: captureOne_def Let_def)
  qed
  then show ?thesis by (cases n) (simp add: captureNode_def filter_id_conv)
qed

lemma set_reportsOf: "r \<in> set (reportsOf cs) \<longleftrightarrow> Report r \<in> set cs"
  by (induction cs) (auto simp: reportsOf_def List.map_filter_simps split: captured.splits)

lemma reports_due:
  assumes "gomap_ok es" "\<And>x. x \<in> set es \<Longrightarrow> f x = Skip \<or> (\<exists>r. f x = Report r \<and> ut_UUID r = fst x \<and> row_due r = b (fst x))"
  shows "rows_due (reportsOf (map f es)) k = b k \<or> rows_due (reportsOf (map f es)) k = 0"
    "k \<notin> fst ` set es \<Longrightarrow> rows_due (reportsOf (map f es)) k = 0"
proof -
  have "(rows_due (reportsOf (map f es)) k = b k \<or> rows_due (reportsOf (map f es)) k = 0) \<and>
    (k \<notin> fst ` set es \<longrightarrow> rows_due (reportsOf (map f es)) k = 0)"
    using assms
  proof (induction es)
    case (Cons x es)
    have IH: "(rows_due (reportsOf (map f es)) k = b k \<or> rows_due (reportsOf (map f es)) k = 0) \<and>
      (k \<notin> fst ` set es \<longrightarrow> rows_due (reportsOf (map f es)) k = 0)" using Cons by simp
    from Cons.prems(2) [of x] Cons.prems(1) IH show ?case
      by (cases "fst x = k") (auto simp: reportsOf_def List.map_filter_simps)
  qed (simp add: reportsOf_def List.map_filter_simps)
  then show "rows_due (reportsOf (map f es)) k = b k \<or> rows_due (reportsOf (map f es)) k = 0"
    "k \<notin> fst ` set es \<Longrightarrow> rows_due (reportsOf (map f es)) k = 0" by auto
qed

lemma capture_rows:
  assumes "acct n h uid" "captureNode m uid n (storageHeap h) = (rows, n')"
  shows "rows_nonneg rows" "nonneg (counted (nodeCounter n h) k - rows_due rows k)"
proof -
  let ?f = "captureOne m uid n (storageHeap h)" and ?b = "counted (nodeCounter n h)"
  have rows: "rows = reportsOf (map ?f (node_counter n))" using assms(2) by (simp add: captureNode_def)
  have ok: "gomap_ok (node_counter n)" using acctD(1) [OF assms(1)] by (simp add: counter_ok_def)
  have pos: "nonneg (?b k)" for k using counted_fits [OF acctD(1) [OF assms(1)]] by (simp add: fits_def)
  have one: "?f x = Skip \<or> (\<exists>r. ?f x = Report r \<and> ut_UUID r = fst x \<and> row_due r = ?b (fst x))"
    if "x \<in> set (node_counter n)" for x
  proof -
    obtain k a where x: "x = (k, a)" by fastforce
    then have a: "map_of (node_counter n) k = Some a" using that gomap_ok_in_set [OF ok, of k a] by blast
    then have "uid k \<noteq> 0" using acctD(6) [OF assms(1), of k] by simp
    with x show ?thesis by (auto simp: captureOne_def Let_def row_due_def counted_Some [OF a])
  qed
  show "rows_nonneg rows"
    unfolding rows_nonneg_def rows
  proof
    fix r
    assume "r \<in> set (reportsOf (map ?f (node_counter n)))"
    then obtain x where "x \<in> set (node_counter n)" "?f x = Report r" by (auto simp: set_reportsOf)
    with one [of x] pos show "nonneg (row_due r)" by auto
  qed
  show "nonneg (?b k - rows_due rows k)" unfolding rows using reports_due(1) [OF ok, of ?f ?b k] one pos [of k] by auto
qed

subsection \<open>Committing\<close>

lemma commitRow_exact:
  assumes "counter_ok (m, sh)" "nonneg (row_due r)" "ut_UUID r \<noteq> [] \<Longrightarrow> nonneg (counted (m, sh) (ut_UUID r) - row_due r)"
  shows "counter_ok (m, commitRow m r sh)"
    "k \<noteq> [] \<Longrightarrow> counted (m, commitRow m r sh) k = counted (m, sh) k - rows_due [r] k"
proof -
  have "counter_ok (m, commitRow m r sh) \<and> (k \<noteq> [] \<longrightarrow> counted (m, commitRow m r sh) k = counted (m, sh) k - rows_due [r] k)"
  proof (cases "ut_UUID r = []")
    case True
    with assms(1) show ?thesis by (simp add: commitRow_def)
  next
    case False
    let ?k = "ut_UUID r" and ?u = "row_due r"
    have fst: "fst (subtractBoth ?k ?u (m, sh)) = m" by (simp add: subtractBoth_def Subtract_def split: option.split)
    have row: "subtractBoth ?k ?u (m, sh) = (m, commitRow m r sh)"
      using False fst by (cases "subtractBoth ?k ?u (m, sh)") (simp add: commitRow_def subtractBoth_def row_due_def)
    have f: "fits (counted (m, sh) ?k)" by (rule counted_fits [OF assms(1)])
    have u: "fits ?u" using f assms(2,3) False by (auto simp: fits_def nonneg_def)
    have "counter_ok (subtractBoth ?k ?u (m, sh))" using traffic.debit_sound [OF assms(1) u] .
    moreover have "counted (subtractBoth ?k ?u (m, sh)) k = (if k = ?k then counted (m, sh) ?k - ?u else counted (m, sh) k)"
      using traffic.debit_balance [OF assms(1) u] assms(3) False by blast
    ultimately show ?thesis by (simp add: row)
  qed
  then show "counter_ok (m, commitRow m r sh)"
    "k \<noteq> [] \<Longrightarrow> counted (m, commitRow m r sh) k = counted (m, sh) k - rows_due [r] k" by auto
qed

lemma commitRows_exact:
  assumes "counter_ok (m, sh)" "rows_nonneg rows" "\<forall>k. k \<noteq> [] \<longrightarrow> nonneg (counted (m, sh) k - rows_due rows k)"
  shows "counter_ok (m, fold (commitRow m) rows sh) \<and>
    (\<forall>k. k \<noteq> [] \<longrightarrow> counted (m, fold (commitRow m) rows sh) k = counted (m, sh) k - rows_due rows k)"
  using assms
proof (induction rows arbitrary: sh)
  case (Cons r rows)
  have pos: "nonneg (row_due r)" "rows_nonneg rows" using Cons.prems(2) by (simp_all add: rows_nonneg_def)
  have due: "rows_due (r # rows) k = rows_due [r] k + rows_due rows k" for k by simp
  have "nonneg (counted (m, sh) (ut_UUID r) - row_due r)" if "ut_UUID r \<noteq> []"
    using Cons.prems(3) that rows_due_nonneg [OF pos(2)] by (auto dest!: spec [of _ "ut_UUID r"] intro: nonneg_less(2))
  note one = commitRow_exact [OF Cons.prems(1) pos(1) this]
  have "\<forall>k. k \<noteq> [] \<longrightarrow> nonneg (counted (m, commitRow m r sh) k - rows_due rows k)"
    using Cons.prems(3) one(2) unfolding due by (simp add: diff_diff_eq del: rows_due_simps(2))
  from Cons.IH [OF one(1) pos(2) this] show ?case by (simp add: one(2) due diff_diff_eq del: rows_due_simps(2))
qed simp

subsection \<open>Pruning\<close>

lemma counted_retired:
  assumes "retiredZero n sh k"
  shows "counted (AList.delete k (node_counter n), sh) j = counted (node_counter n, sh) j"
  using assms by (cases "j = k") (auto simp: counted_None retiredZero_def counted_def zero_usage_def GetUpCount_def GetDownCount_def)

lemma prune_acct:
  assumes "acct n h uid" "pruneUsers ks (storageHeap h) n = (rs, n')"
  shows "acct n' h (\<lambda>k. if k \<in> set rs then 0 else uid k)" "counted (nodeCounter n' h) k = counted (nodeCounter n h) k"
proof -
  have "acct n' h (\<lambda>k. if k \<in> set rs then 0 else uid k) \<and> (\<forall>k. counted (nodeCounter n' h) k = counted (nodeCounter n h) k)"
    using assms
  proof (induction ks arbitrary: n uid rs)
    case (Cons u ks)
    show ?case
    proof (cases "retiredZero n (storageHeap h) u")
      case False
      with Cons show ?thesis by simp
    next
      case True
      let ?n = "n\<lparr>node_counter := AList.delete u (node_counter n)\<rparr>"
      obtain rs' where p: "pruneUsers ks (storageHeap h) ?n = (rs', n')" and rs: "rs = u # rs'"
        using Cons.prems(2) True by (auto split: prod.splits)
      note a = acctD [OF Cons.prems(1)]
      have off: "map_of (auth_users n) u = None" using True by (simp add: retiredZero_def)
      then have "map_of (cache_users n) u = None" using a(5) [of u] by (cases "map_of (cache_users n) u") auto
      then have "acct ?n h (uid(u := 0))"
        unfolding acct_def using a off
        by (auto simp: counter_ok_delete dest: acctD(3-5) [OF Cons.prems(1)])
      from Cons.IH [OF this p] have "acct n' h (\<lambda>k. if k \<in> set rs' then 0 else (uid(u := 0)) k)"
        "\<forall>k. counted (nodeCounter n' h) k = counted (nodeCounter ?n h) k" by auto
      moreover have "(\<lambda>k. if k \<in> set rs' then 0 else (uid(u := 0)) k) = (\<lambda>k. if k \<in> set rs then 0 else uid k)" by (auto simp: rs)
      ultimately show ?thesis using counted_retired [OF True] by simp
    qed
  qed simp
  then show "acct n' h (\<lambda>k. if k \<in> set rs then 0 else uid k)" "counted (nodeCounter n' h) k = counted (nodeCounter n h) k" by auto
qed

subsection \<open>Deleting and adding users\<close>

lemma remove_acct:
  assumes "acct n h uid" "fold removeUser us (n, h) = (n', h')"
  shows "acct n' h' uid" "counted (nodeCounter n' h') k = counted (nodeCounter n h) k"
proof -
  have "acct n' h' uid \<and> counted (nodeCounter n' h') k = counted (nodeCounter n h) k"
    using assms
  proof (induction us arbitrary: n h)
    case (Cons u us)
    obtain n1 h1 where r: "removeUser u (n, h) = (n1, h1)" by fastforce
    have e: "node_counter n1 = node_counter n" "storageHeap h1 = storageHeap h" "cacheHeap h1 = cacheHeap h"
      "map_of (cache_users n1) = (map_of (cache_users n))(user_Uuid u := None)"
      "map_of (auth_users n1) = (map_of (auth_users n))(user_Uuid u := None)"
      using r by (auto simp: removeUser_def Let_def delAuth_def revokeLimit_def AList.delete_conv' split: option.splits)
    have "acct n1 h1 uid" by (rule acct_frame [OF Cons.prems(1) e(1-3)]) (use e(4,5) acctD(5) [OF Cons.prems(1)] in \<open>auto split: if_splits\<close>)
    from Cons.IH [OF this] Cons.prems(2) r e(1,2) show ?case by simp
  qed simp
  then show "acct n' h' uid" "counted (nodeCounter n' h') k = counted (nodeCounter n h) k" by auto
qed

lemma addAuth_acct:
  assumes "acct n h uid" "\<forall>u \<in> set us. uid (user_Uuid u) \<noteq> 0"
  shows "acct (fold addAuth us n) h uid" "node_counter (fold addAuth us n) = node_counter n"
proof -
  have "acct (fold addAuth us n) h uid \<and> node_counter (fold addAuth us n) = node_counter n"
    using assms
  proof (induction us arbitrary: n)
    case (Cons u us)
    have e: "node_counter (addAuth u n) = node_counter n"
      "map_of (cache_users (addAuth u n)) = (map_of (cache_users n))(user_Uuid u := None)"
      "map_of (auth_users (addAuth u n)) = (map_of (auth_users n))(user_Uuid u \<mapsto> user_Id u)"
      by (auto simp: addAuth_def ForgetUser_def Let_def AList.delete_conv' AList.update_conv')
    have "acct (addAuth u n) h uid"
      by (rule acct_frame [OF Cons.prems(1) e(1)]) (use e(2,3) Cons.prems(2) acctD(5) [OF Cons.prems(1)] in \<open>auto split: if_splits\<close>)
    from Cons.IH [OF this] Cons.prems(2) e(1) show ?case by simp
  qed simp
  then show "acct (fold addAuth us n) h uid" "node_counter (fold addAuth us n) = node_counter n" by auto
qed

subsection \<open>Traffic callbacks\<close>

lemma getUser_acct:
  assumes "acct n h uid" "getUser uuid n h = (r, n', h')" "map_of (auth_users n) uuid \<noteq> None \<or> lookupLimit uuid n h = None" "uuid \<noteq> []"
  shows "acct n' h' uid" "counted (nodeCounter n' h') k = counted (nodeCounter n h) k"
    "r = Some p \<Longrightarrow> map_of (node_counter n') uuid = Some (tc_storage (cacheHeap h' ! p))"
proof -
  have "acct n' h' uid \<and> counted (nodeCounter n' h') k = counted (nodeCounter n h) k \<and>
    (r = Some p \<longrightarrow> map_of (node_counter n') uuid = Some (tc_storage (cacheHeap h' ! p)))"
  proof (cases "map_of (cache_users n) uuid \<noteq> None \<or> lookupLimit uuid n h = None")
    case True
    with assms acctD(3) [OF assms(1), of uuid] show ?thesis by (auto simp: getUser_def split: option.splits if_splits)
  next
    case False
    then obtain lim where none: "map_of (cache_users n) uuid = None" and lim: "lookupLimit uuid n h = Some lim" by auto
    obtain st m sh where g: "GetCounter uuid (nodeCounter n h) = (st, m, sh)" "counter_ok (m, sh)" "map_of m uuid = Some st"
      "\<forall>j. counted (m, sh) j = counted (nodeCounter n h) j" by (rule GetCounter_spec [OF acctD(1) [OF assms(1)], where k = uuid])
    have same: "map_of m j = map_of (node_counter n) j" if "j \<noteq> uuid" for j
      using g(1) that by (auto simp: GetCounter_def split: option.splits)
    let ?p = "length (cacheHeap h)"
    have x: "r = Some ?p" "n' = n\<lparr>node_counter := m, cache_users := AList.update uuid ?p (cache_users n)\<rparr>"
      "h' = h\<lparr>storageHeap := sh, cacheHeap := cacheHeap h @ [\<lparr>tc_id = uuid, tc_storage = st, tc_limiter = fst lim, tc_limit = snd lim\<rparr>]\<rparr>"
      using assms(2) none lim g(1) by (auto simp: getUser_def storeCache_def)
    have on: "map_of (auth_users n) uuid \<noteq> None" using assms(3) lim by simp
    have "acct n' h' uid"
      unfolding acct_def
    proof (intro conjI allI impI)
      show "counter_ok (nodeCounter n' h')" using g(2) by (simp add: x)
      show "map_of (node_counter n') [] = None" using same [of "[]"] assms(4) acctD(2) [OF assms(1)] by (simp add: x)
      show "uid j \<noteq> 0" if "map_of (node_counter n') j \<noteq> None \<or> map_of (auth_users n') j \<noteq> None" for j
        using that on same [of j] acctD(6) [OF assms(1), of j] by (cases "j = uuid") (auto simp: x)
    next
      fix j q
      assume "map_of (cache_users n') j = Some q"
      then show "q < length (cacheHeap h')" "map_of (node_counter n') j = Some (tc_storage (cacheHeap h' ! q))"
        "map_of (auth_users n') j \<noteq> None"
        using on same [of j] g(3) acctD(3-5) [OF assms(1), of j q]
        by (auto simp: x nth_append split: if_splits)
    qed
    with g(3,4) show ?thesis by (auto simp: x)
  qed
  then show "acct n' h' uid" "counted (nodeCounter n' h') k = counted (nodeCounter n h) k"
    "r = Some p \<Longrightarrow> map_of (node_counter n') uuid = Some (tc_storage (cacheHeap h' ! p))" by auto
qed

lemma mayCount_frame:
  "storageHeap (snd (mayCount p h)) = storageHeap h" "cacheHeap (snd (mayCount p h)) = cacheHeap h"
  by (simp_all add: mayCount_def Let_def setLimit_def)

lemma traffic_acct:
  assumes "acct n h uid" "LogTraffic uuid tx rx n h = (accepted, n', h')"
    "map_of (auth_users n) uuid \<noteq> None \<or> lookupLimit uuid n h = None" "uuid \<noteq> []"
    "fits (counted (nodeCounter n h) uuid + amount tx rx)"
  shows "acct n' h' uid"
    "counted (nodeCounter n' h') k = counted (nodeCounter n h) k + (if accepted \<and> k = uuid then amount tx rx else 0)"
proof -
  obtain r n1 h1 where g: "getUser uuid n h = (r, n1, h1)" by (rule prod_cases3)
  note g' = getUser_acct [OF assms(1) g assms(3,4)]
  have "acct n' h' uid \<and>
    counted (nodeCounter n' h') k = counted (nodeCounter n h) k + (if accepted \<and> k = uuid then amount tx rx else 0)"
  proof (cases r)
    case None
    with assms(2) g g' show ?thesis by (simp add: LogTraffic_def)
  next
    case (Some p)
    obtain ok h2 where m: "mayCount p h1 = (ok, h2)" by fastforce
    have h2: "storageHeap h2 = storageHeap h1" "cacheHeap h2 = cacheHeap h1" using mayCount_frame [of p h1] m by simp_all
    have a: "acct n1 h2 uid" by (rule acct_frame [OF g'(1) _ h2]) (use acctD(5) [OF g'(1)] in auto)
    show ?thesis
    proof (cases ok)
      case False
      with assms(2) g g'(2) Some m h2 a show ?thesis by (simp add: LogTraffic_def)
    next
      case True
      then have x: "accepted" "n' = n1" "h' = countTraffic p tx rx h2" using assms(2) g Some m by (simp_all add: LogTraffic_def)
      have "map_of (node_counter n1) uuid = Some (tc_storage (cacheHeap h2 ! p))" using g'(3) [OF Some] h2 by simp
      moreover have "fits (counted (nodeCounter n1 h2) uuid + amount tx rx)" using assms(5) g'(2) h2 by simp
      ultimately obtain sh where sh: "countTraffic p tx rx h2 = h2\<lparr>storageHeap := sh\<rparr>" "counter_ok (node_counter n1, sh)"
        "\<forall>j. counted (node_counter n1, sh) j = (if j = uuid then counted (nodeCounter n1 h2) uuid + amount tx rx
           else counted (nodeCounter n1 h2) j)"
        using countTraffic_storages [OF acctD(1) [OF a]] by blast
      have "acct n1 (h2\<lparr>storageHeap := sh\<rparr>) uid" using a sh(2) by (simp add: acct_def)
      with sh x g'(2) h2 show ?thesis by simp
    qed
  qed
  then show "acct n' h' uid"
    "counted (nodeCounter n' h') k = counted (nodeCounter n h) k + (if accepted \<and> k = uuid then amount tx rx else 0)" by auto
qed

section \<open>The accounts in the core\<close>

definition accts :: "string \<Rightarrow> V2Core \<Rightarrow> bool" where
  "accts tag vc \<longleftrightarrow> (\<forall>n. map_of (nodes (hy2 vc)) tag = Some n \<longrightarrow> acct n (mheap (hy2 vc)) (uidOf tag vc))"

definition balance :: "string \<Rightarrow> V2Core \<Rightarrow> string \<Rightarrow> usage" where
  "balance tag vc k = (case map_of (nodes (hy2 vc)) tag of None \<Rightarrow> 0 | Some n \<Rightarrow> counted (nodeCounter n (mheap (hy2 vc))) k)"

lemma uidOf_hy2 [simp]: "uidOf tag (vc\<lparr>hy2 := m\<rparr>) = uidOf tag vc"
  by (simp add: uidOf_def fun_eq_iff)

lemma balance_pos: "accts tag vc \<Longrightarrow> nonneg (balance tag vc k)"
  using counted_fits [OF acctD(1)] by (auto simp: accts_def balance_def fits_def split: option.split)

lemma slice_accts:
  assumes "accts tag vc" "coreTrafficSlice tag m vc = (rows, vc')"
  shows "accts tag vc'" "balance tag vc' = balance tag vc" "rows_nonneg rows" "nonneg (balance tag vc k - rows_due rows k)"
proof -
  have "accts tag vc' \<and> balance tag vc' = balance tag vc \<and> rows_nonneg rows \<and> nonneg (balance tag vc k - rows_due rows k)"
  proof (cases "map_of (nodes (hy2 vc)) tag")
    case None
    with assms balance_pos [OF assms(1)] show ?thesis by (simp add: coreTrafficSlice_def HasNode_def rows_nonneg_def)
  next
    case (Some n)
    let ?h = "mheap (hy2 vc)"
    have a: "acct n ?h (uidOf tag vc)" using assms(1) Some by (simp add: accts_def)
    obtain n' where c: "captureNode m (uidOf tag vc) n (storageHeap ?h) = (rows, n')"
      using assms(2) Some by (auto simp: coreTrafficSlice_def HasNode_def GetUserTrafficSlice_def split: prod.splits)
    then have "n' = n" using capture_node [OF a, of m] by simp
    then have "vc' = vc\<lparr>hy2 := putNode tag n (hy2 vc)\<rparr>"
      using assms(2) Some c by (simp add: coreTrafficSlice_def HasNode_def GetUserTrafficSlice_def)
    with a Some capture_rows [OF a c] show ?thesis by (auto simp: accts_def balance_def fun_eq_iff)
  qed
  then show "accts tag vc'" "balance tag vc' = balance tag vc" "rows_nonneg rows" "nonneg (balance tag vc k - rows_due rows k)" by auto
qed

text \<open>Pruning takes the identifiers of the pruned users away.\<close>

lemma uids_pruned:
  "uidOf tag (vc\<lparr>uidMap := fold (\<lambda>uuid. AList.delete (UserTag tag uuid)) rs (uidMap vc)\<rparr>) k = (if k \<in> set rs then 0 else uidOf tag vc k)"
proof -
  have "map_of (fold (\<lambda>uuid. AList.delete (UserTag tag uuid)) rs m) (UserTag tag k) =
    (if k \<in> set rs then None else map_of m (UserTag tag k))" for m :: "(string, int) gomap"
    by (induction rs arbitrary: m) auto
  then show ?thesis by (simp add: uidOf_def)
qed

lemma prune_accts:
  assumes "accts tag vc"
  shows "accts tag (pruneRetiredTraffic tag ks vc)" "balance tag (pruneRetiredTraffic tag ks vc) = balance tag vc"
proof -
  have "accts tag (pruneRetiredTraffic tag ks vc) \<and> balance tag (pruneRetiredTraffic tag ks vc) = balance tag vc"
  proof (cases "map_of (nodes (hy2 vc)) tag")
    case None
    with assms show ?thesis by (simp add: pruneRetiredTraffic_def PruneRetiredUsers_def accts_def balance_def fun_eq_iff)
  next
    case (Some n)
    have a: "acct n (mheap (hy2 vc)) (uidOf tag vc)" using assms Some by (simp add: accts_def)
    obtain rs n' where p: "pruneUsers ks (storageHeap (mheap (hy2 vc))) n = (rs, n')" by fastforce
    have u: "uidOf tag (pruneRetiredTraffic tag ks vc) = (\<lambda>k. if k \<in> set rs then 0 else uidOf tag vc k)"
      using uids_pruned [where tag = tag and vc = vc and rs = rs] Some p by (simp add: fun_eq_iff pruneRetiredTraffic_def PruneRetiredUsers_def uidOf_def)
    show ?thesis
      unfolding accts_def u using prune_acct [OF a p] Some p
      by (simp add: pruneRetiredTraffic_def PruneRetiredUsers_def balance_def fun_eq_iff)
  qed
  then show "accts tag (pruneRetiredTraffic tag ks vc)" "balance tag (pruneRetiredTraffic tag ks vc) = balance tag vc" by auto
qed

lemma commit_accts:
  assumes "accts tag vc" "rows_nonneg rows" "\<forall>k. k \<noteq> [] \<longrightarrow> nonneg (balance tag vc k - rows_due rows k)"
    "map_of (nodes (hy2 vc)) tag \<noteq> None"
  shows "accts tag (CommitUserTrafficSlice tag rows vc)"
    "k \<noteq> [] \<Longrightarrow> balance tag (CommitUserTrafficSlice tag rows vc) k = balance tag vc k - rows_due rows k"
proof -
  obtain n where n: "map_of (nodes (hy2 vc)) tag = Some n" using assms(4) by auto
  let ?h = "mheap (hy2 vc)" and ?vc = "vc\<lparr>hy2 := CommitUserTraffic tag rows (hy2 vc)\<rparr>"
  have a: "acct n ?h (uidOf tag vc)" using assms(1) n by (simp add: accts_def)
  have "counter_ok (node_counter n, fold (commitRow (node_counter n)) rows (storageHeap ?h)) \<and>
    (\<forall>k. k \<noteq> [] \<longrightarrow> counted (node_counter n, fold (commitRow (node_counter n)) rows (storageHeap ?h)) k =
      counted (nodeCounter n ?h) k - rows_due rows k)"
    using assms(3) n by (intro commitRows_exact [OF acctD(1) [OF a] assms(2)]) (simp add: balance_def)
  then have vc: "accts tag ?vc" "\<forall>k. k \<noteq> [] \<longrightarrow> balance tag ?vc k = balance tag vc k - rows_due rows k"
    using a n by (simp_all add: accts_def balance_def CommitUserTraffic_def acct_def)
  show "accts tag (CommitUserTrafficSlice tag rows vc)"
    using vc(1) prune_accts(1) assms(1) by (simp add: CommitUserTrafficSlice_def)
  show "balance tag (CommitUserTrafficSlice tag rows vc) k = balance tag vc k - rows_due rows k" if "k \<noteq> []"
    using vc prune_accts(2) [OF vc(1)] that n by (simp add: CommitUserTrafficSlice_def HasNode_def)
qed

lemma del_accts:
  assumes "accts tag vc" "coreDelUsers us tag vc = (r, vc')"
  shows "accts tag vc'" "balance tag vc' = balance tag vc"
proof -
  have "accts tag vc' \<and> balance tag vc' = balance tag vc"
  proof (cases "map_of (nodes (hy2 vc)) tag")
    case None
    with assms prune_accts [OF assms(1)] show ?thesis by (auto simp: coreDelUsers_def HasNode_def ok_def)
  next
    case (Some n)
    have a: "acct n (mheap (hy2 vc)) (uidOf tag vc)" using assms(1) Some by (simp add: accts_def)
    obtain n' h' where f: "fold removeUser us (n, mheap (hy2 vc)) = (n', h')" by fastforce
    let ?vc = "vc\<lparr>hy2 := putNode tag n' ((hy2 vc)\<lparr>mheap := h'\<rparr>)\<rparr>"
    have vc: "accts tag ?vc" "balance tag ?vc = balance tag vc"
      using remove_acct [OF a f] Some by (auto simp: accts_def balance_def fun_eq_iff)
    have "vc' = pruneRetiredTraffic tag (map user_Uuid us) ?vc"
      using assms(2) Some f by (auto simp: coreDelUsers_def HasNode_def DelUsers_def ok_def)
    with prune_accts [OF vc(1)] vc(2) show ?thesis by simp
  qed
  then show "accts tag vc'" "balance tag vc' = balance tag vc" by auto
qed

lemma uids_added:
  assumes "\<forall>u \<in> set us. user_Id u \<noteq> 0" "uidOf tag vc k \<noteq> 0 \<or> k \<in> uuids us"
  shows "uidOf tag (vc\<lparr>uidMap := fold (\<lambda>u. AList.update (UserTag tag (user_Uuid u)) (user_Id u)) us (uidMap vc)\<rparr>) k \<noteq> 0"
  using assms
proof (induction us arbitrary: vc)
  case (Cons u us)
  let ?vc = "vc\<lparr>uidMap := AList.update (UserTag tag (user_Uuid u)) (user_Id u) (uidMap vc)\<rparr>"
  have "uidOf tag ?vc k \<noteq> 0 \<or> k \<in> uuids us" using Cons.prems by (auto simp: uidOf_def)
  from Cons.IH [OF _ this] Cons.prems(1) show ?case by simp
qed simp

lemma add_accts:
  assumes "accts tag vc" "coreAddUsers ty tag us vc = (r, vc')" "\<forall>u \<in> set us. user_Id u \<noteq> 0"
  shows "accts tag vc'" "balance tag vc' = balance tag vc"
proof -
  have "accts tag vc' \<and> balance tag vc' = balance tag vc"
  proof (cases "ty = Some ''hysteria2''")
    case False
    with assms show ?thesis by (auto simp: coreAddUsers_def fail_def split: option.splits if_splits)
  next
    case True
    let ?vc = "vc\<lparr>uidMap := fold (\<lambda>u. AList.update (UserTag tag (user_Uuid u)) (user_Id u)) us (uidMap vc)\<rparr>"
    have uid: "uidOf tag ?vc k \<noteq> 0" if "uidOf tag vc k \<noteq> 0 \<or> k \<in> uuids us" for k
      using uids_added [OF assms(3)] that .
    show ?thesis
    proof (cases "map_of (nodes (hy2 vc)) tag")
      case None
      with assms(2) True show ?thesis by (auto simp: coreAddUsers_def AddUsers_def fail_def accts_def balance_def fun_eq_iff)
    next
      case (Some n)
      have a: "acct n (mheap (hy2 vc)) (uidOf tag vc)" using assms(1) Some by (simp add: accts_def)
      have "acct n (mheap (hy2 vc)) (uidOf tag ?vc)" by (rule acct_frame [OF a]) (use uid acctD(5) [OF a] in auto)
      note a' = addAuth_acct [OF this, of us]
      have vc: "vc' = ?vc\<lparr>hy2 := putNode tag (fold addAuth us n) (hy2 vc)\<rparr>"
        using assms(2) True Some by (auto simp: coreAddUsers_def AddUsers_def ok_def Let_def)
      show ?thesis using a' uid Some by (auto simp: vc accts_def balance_def fun_eq_iff)
    qed
  qed
  then show "accts tag vc'" "balance tag vc' = balance tag vc" by auto
qed

end
