(* ===== verification/Billing.thy ===== *)
theory Billing
  imports Accounts
begin

text \<open>
  Traffic from the callback to the bill: the life of a controller with the total of what its
  node has counted. The outbox is a client of the controller's accounts (the locale
  \<open>billing\<close>), so at every moment the counters and the committed batches together are this total.
\<close>

section \<open>The controller's runtime keeps accounts\<close>

definition ctl_accts :: "Controller \<Rightarrow> bool" where
  "ctl_accts c \<longleftrightarrow> ctl_ok c \<and> accts (ctag c) (server c)"

definition ctl_balance :: "Controller \<Rightarrow> string \<Rightarrow> usage" where
  "ctl_balance c = balance (ctag c) (server c)"

lemma accts_limiters:
  assumes "storageHeap h = storageHeap (mheap (hy2 vc))" "cacheHeap h = cacheHeap (mheap (hy2 vc))"
  shows "accts tag (vc\<lparr>hy2 := (hy2 vc)\<lparr>mheap := h\<rparr>\<rparr>) = accts tag vc"
    "balance tag (vc\<lparr>hy2 := (hy2 vc)\<lparr>mheap := h\<rparr>\<rparr>) = balance tag vc"
  using assms by (simp_all add: accts_def balance_def acct_def fun_eq_iff split: option.split)

lemma onLimiter_accts [simp]:
  "accts tag (server (onLimiter f c)) = accts tag (server c)" "balance tag (server (onLimiter f c)) = balance tag (server c)"
  "ctag (onLimiter f c) = ctag c"
  by (simp_all add: onLimiter_def accts_limiters split: option.split)

lemma ctl_node: "ctl_ok c \<Longrightarrow> map_of (nodes (hy2 (server c))) (ctag c) \<noteq> None"
  by (auto elim!: ctl_okE)

lemma revoke_accts:
  assumes "ctl_accts c" "revokeReportedUsers ids (pc, c) = (r, pc', c')"
  shows "ctl_accts c' \<and> ctl_balance c' = ctl_balance c"
proof -
  have "ctl_ok c'" using ctl_revoke [of c ids pc] assms by (simp add: ctl_accts_def)
  moreover have "accts (ctag c') (server c') \<and> balance (ctag c') (server c') = balance (ctag c) (server c)"
  proof (cases "ids = []")
    case True
    with assms show ?thesis by (simp add: revokeReportedUsers_def ok_def ctl_accts_def)
  next
    case False
    let ?del = "filter (\<lambda>u. user_Id u \<in> set ids) (userList c)"
    obtain x vc where d: "coreDelUsers ?del (ctag c) (server c) = (x, vc)" by fastforce
    have "accts (ctag c) vc" "balance (ctag c) vc = balance (ctag c) (server c)"
      using del_accts [OF _ d] assms(1) by (auto simp: ctl_accts_def)
    with assms(2) d False show ?thesis
      by (auto simp: revokeReportedUsers_def Let_def ok_def fail_def split: sum.splits)
  qed
  ultimately show ?thesis by (simp add: ctl_accts_def ctl_balance_def)
qed

text \<open>The callbacks that the controller hands to the outbox are what the outbox relies on.\<close>

interpretation report: billing ctl_accts ctl_balance "reportHooks x" for x
proof
  fix rt :: Controller and pc pc' rt' r
  assume rt: "ctl_accts rt"
  then have a: "accts (ctag rt) (server rt)" and ok: "ctl_ok rt" by (simp_all add: ctl_accts_def)
  have cap: "captureTraffic m d (pc, rt) = (Inr (fst (coreTrafficSlice (ctag rt) m (server rt))),
      pc, rt\<lparr>server := snd (coreTrafficSlice (ctag rt) m (server rt)),
        onlineSmallTraffic := smallUsers d (fst (coreTrafficSlice (ctag rt) m (server rt)))\<rparr>)" for m d pc
    by (simp add: captureTraffic_def ok_def split: prod.split)
  note slice = slice_accts [OF a surjective_pairing]
  show "ctl_accts rt' \<and> (\<forall>k. k \<noteq> [] \<longrightarrow> ctl_balance rt' k = ctl_balance rt k)"
    if "capture (reportHooks x) (pc, rt) = (r, pc', rt')"
    using that ctl_capture(1) [OF ok] slice by (auto simp: reportHooks_def cap ctl_accts_def ctl_balance_def)
  show "rows_nonneg rows \<and> (\<forall>k. k \<noteq> [] \<longrightarrow> nonneg (ctl_balance rt k - rows_due rows k))"
    if "capture (reportHooks x) (pc, rt) = (Inr rows, pc', rt')" for rows
    using that slice by (auto simp: reportHooks_def cap ctl_balance_def)
  show "r' = Inr () \<and> ctl_accts rt' \<and> (\<forall>k. k \<noteq> [] \<longrightarrow> ctl_balance rt' k = ctl_balance rt k - rows_due rows k)"
    if "rows_nonneg rows" "\<forall>k. k \<noteq> [] \<longrightarrow> nonneg (ctl_balance rt k - rows_due rows k)"
      "commit (reportHooks x) rows (pc, rt) = (r', pc', rt')" for rows and r' :: "goerr + unit"
    using that commit_accts [OF a that(1) _ ctl_node [OF ok]] ctl_commit [OF ok]
    by (auto simp: reportHooks_def commitTraffic_def ok_def ctl_accts_def ctl_balance_def)
  show "ctl_accts rt' \<and> (\<forall>k. k \<noteq> [] \<longrightarrow> ctl_balance rt' k = ctl_balance rt k)"
    if "revoke (reportHooks x) ids (pc, rt) = (r', pc', rt')" for ids and r' :: "goerr + unit"
    using that revoke_accts [OF rt] by (auto simp: reportHooks_def)
  show "nonneg (ctl_balance rt k)" for k unfolding ctl_balance_def by (rule balance_pos [OF a])
qed

lemma nonneg_both: "nonneg a \<Longrightarrow> nonneg (0 - a) \<Longrightarrow> a = 0"
  by (cases a) (simp add: nonneg_def uminus_usage_def zero_usage_def)

text \<open>Recovery before the start has no counters, and commits nothing that needs them.\<close>

interpretation restart: billing "\<lambda>_. True" "\<lambda>_ _. 0" noHooks
proof
  show "r' = Inr () \<and> True \<and> (\<forall>k. k \<noteq> [] \<longrightarrow> (0::usage) = 0 - rows_due rows k)"
    if "rows_nonneg rows" "\<forall>k. k \<noteq> [] \<longrightarrow> nonneg (0 - rows_due rows k)" "commit noHooks rows (pc, rt) = (r', pc', rt')"
    for rows r' pc pc' and rt rt' :: Controller
    using that nonneg_both [OF rows_due_nonneg [OF that(1)]] by (auto simp: noHooks_def ok_def)
qed (auto simp: noHooks_def ok_def rows_nonneg_def)

section \<open>The other tasks of the controller\<close>

abbreviation kept_books :: "(string \<Rightarrow> usage) \<Rightarrow> ('b, Controller) client \<Rightarrow> bool" where
  "kept_books T s \<equiv> report.books T (\<lambda>_. 0) s"

definition same_accts :: "Controller \<Rightarrow> Controller \<Rightarrow> bool" where
  "same_accts c c' \<longleftrightarrow> ctl_accts c' \<and> ctl_balance c' = ctl_balance c"

lemma books_runtime:
  assumes "kept_books T s" "same_accts (runtime s) rt"
  shows "kept_books T (s\<lparr>cache := c, runtime := rt\<rparr>)" "kept_books T (s\<lparr>runtime := rt\<rparr>)"
proof -
  show *: "kept_books T (s\<lparr>cache := c, runtime := rt\<rparr>)" for c
    using report.books_activity [OF assms(1)] assms(2) by (simp add: same_accts_def)
  show "kept_books T (s\<lparr>runtime := rt\<rparr>)" using * [of "cache s"] by simp
qed

lemma books_onRuntime:
  assumes "kept_books T s" "same_accts (runtime s) (snd (f (cache s, runtime s)))"
  shows "kept_books T (onRuntime f s)"
  using assms by (cases "f (cache s, runtime s)") (simp add: onRuntime_def books_runtime)

lemma same_accts_limiter:
  assumes "ctl_accts c" "\<And>l. same_limits l (f l)"
  shows "same_accts c (onLimiter f c)"
  using assms ctl_onLimiter [of c f] by (simp add: same_accts_def ctl_accts_def ctl_balance_def)

lemma applySnapshot_accts:
  assumes "ctl_accts c" "valid_users (snap_Users sn)"
  shows "same_accts c (snd (applySnapshot sn (pc, c)))"
proof -
  obtain deleted added modified where cmp: "compareUserList (userList c) (snap_Users sn) = (deleted, added, modified)"
    by (rule prod_cases3)
  have c: "ctl_ok c" "accts (ctag c) (server c)" using assms(1) by (simp_all add: ctl_accts_def)
  have ids: "\<forall>u \<in> set added. user_Id u \<noteq> 0"
  proof -
    have "distinct (map user_Uuid (userList c))" using c(1) by (auto elim!: ctl_okE simp: valid_users_def)
    then have "set added \<subseteq> set (snap_Users sn)"
      using compareUserList_eq [of "userList c" "snap_Users sn"] assms(2) cmp by (auto simp: valid_users_def)
    then show ?thesis using assms(2) by (fastforce simp: valid_users_def list_all_iff)
  qed
  obtain r1 vc1 where d: "(if deleted \<noteq> [] then coreDelUsers deleted (ctag c) (server c) else ok () (server c)) = (r1, vc1)" by fastforce
  have a1: "accts (ctag c) vc1 \<and> balance (ctag c) vc1 = balance (ctag c) (server c)"
    using d c(2) del_accts [OF c(2), of deleted r1 vc1] by (auto simp: ok_def split: if_splits)
  obtain r2 vc2 where e: "(if added \<noteq> [] then coreAddUsers (map_option info_Type (info c)) (ctag c) added vc1 else ok 0 vc1) = (r2, vc2)"
    by fastforce
  have a2: "accts (ctag c) vc2 \<and> balance (ctag c) vc2 = balance (ctag c) (server c)"
    using e a1 add_accts [of "ctag c" vc1 _ added r2 vc2, OF _ _ ids] by (auto simp: ok_def split: if_splits)
  have "ctl_ok (snd (applySnapshot sn (pc, c)))" using applySnapshot_ok [OF c(1) assms(2)] by (metis snd_conv)
  moreover have "applySnapshot sn (pc, c) = (case r1 of Inl _ \<Rightarrow> (pc, c\<lparr>server := vc1\<rparr>) | Inr _ \<Rightarrow>
      (case r2 of Inl _ \<Rightarrow> (pc, c\<lparr>server := vc2\<rparr>) | Inr _ \<Rightarrow>
        (let c = c\<lparr>server := vc2\<rparr>;
             c = (if added \<noteq> [] \<or> deleted \<noteq> [] \<or> modified \<noteq> []
                  then onLimiter (UpdateUser (ctag c) added deleted modified) c else c) in
         (CommitUsers (Some sn) pc, c\<lparr>userList := snap_Users sn\<rparr>))))"
    by (cases r1; cases r2) (simp_all only: applySnapshot_def prod.case cmp d e sum.case)
  then have "ctag (snd (applySnapshot sn (pc, c))) = ctag c \<and> accts (ctag c) (server (snd (applySnapshot sn (pc, c)))) \<and>
      balance (ctag c) (server (snd (applySnapshot sn (pc, c)))) = balance (ctag c) (server c)"
    using a1 a2 by (auto simp: Let_def split: sum.split)
  ultimately show ?thesis by (simp add: same_accts_def ctl_accts_def ctl_balance_def)
qed

lemma same_accts_settings:
  assumes "ctl_accts c" "ctl_ok c'" "ctag c' = ctag c" "server c' = server c"
  shows "same_accts c c'"
  using assms by (simp add: same_accts_def ctl_accts_def ctl_balance_def)

lemma books_calls:
  assumes "kept_books T s"
  shows "kept_books T (snd (GetUsers env s))" "kept_books T (snd (GetUserAlive env s))"
    "kept_books T (snd (ReportNodeOnlineUsers env data s))" "kept_books T (snd (GetNodeInfo env cd s))"
  unfolding other_calls_snd getNodeInfo_snd by (rule report.books_steps(2) [OF assms])+

lemma books_accts: "kept_books T s \<Longrightarrow> ctl_accts (runtime s)"
  by (rule report.booksD(1))

lemma books_syncUsers:
  assumes "kept_books T s"
  shows "kept_books T (syncUsers env s)"
proof (cases "GetUsers env s")
  case (Pair r t)
  have t: "kept_books T t" using books_calls(1) [OF assms, of env] Pair by simp
  have "valid_users (snap_Users sn)" if "r = Inr (Some sn)" for sn
    using getUsers_valid Pair that by (auto simp: GetUsers_def)
  then have "same_accts (runtime t) (snd (finishSync g sn (cache t, runtime t)))" if "r = Inr sn" for g sn
    using that applySnapshot_accts [OF books_accts [OF t]] books_accts [OF t]
    by (auto simp: finishSync_def same_accts_def split: option.split)
  then show ?thesis using Pair t by (auto simp: syncUsers_def Let_def split: sum.split intro: books_onRuntime)
qed

lemma books_monitor:
  assumes "kept_books T s"
  shows "kept_books T (nodeInfoMonitor env cd now s)"
proof (cases "GetNodeInfo env cd s")
  case (Pair r t)
  have t: "kept_books T t" using books_calls(4) [OF assms, of env cd] Pair by simp
  note a = books_accts [OF t]
  then have ok: "ctl_ok (runtime t)" by (simp add: ctl_accts_def)
  have "same_accts (runtime t) (snd (applyRuntimeNodeInfo (Some n) (cache t, runtime t)))" if "r = Inr (Some n)" for n
    using getNodeInfo_type [of env cd s n t] Pair that ctl_settings(1) [OF ok]
    by (intro same_accts_settings [OF a]) (simp_all add: applyRuntimeNodeInfo_def)
  moreover have "same_accts (runtime t) (requestReload now (runtime t))"
    by (rule same_accts_settings [OF a ctl_requestReload [OF ok]]) (simp_all add: requestReload_def split: option.split)
  ultimately show ?thesis
    using Pair t by (auto simp: nodeInfoMonitor_def split: sum.split option.split intro: books_syncUsers books_onRuntime books_runtime(2))
qed

lemma books_heartbeat:
  assumes "kept_books T s"
  shows "kept_books T (reportHeartbeat env budget s)"
proof -
  have "kept_books T (snd (ReportNodeOnlineUsers env data (s\<lparr>runtime := onLimiter (\<lambda>l. snd (GetOnlineDevice l)) (runtime s)\<rparr>)))" for data
    by (intro books_calls(3) books_runtime(2) [OF assms] same_accts_limiter books_accts [OF assms] same_limits_ops)
  moreover have "kept_books T (case GetUserAlive env t of (Inl e, s) \<Rightarrow> s
      | (Inr alive, s) \<Rightarrow> s\<lparr>runtime := onLimiter (UpdateAliveList alive) (runtime s)\<rparr>)" if "kept_books T t" for t
  proof (cases "GetUserAlive env t")
    case (Pair r u)
    then have u: "kept_books T u" using books_calls(2) [OF that, of env] by simp
    with Pair show ?thesis
      by (auto split: sum.split intro: books_runtime(2) same_accts_limiter [OF books_accts [OF u] same_limits_ops(2)])
  qed
  ultimately show ?thesis using assms by (auto simp: reportHeartbeat_def Let_def split: option.split)
qed

section \<open>Callbacks of the node\<close>

lemma onNode_accts:
  assumes "map_of (nodes (hy2 (server c))) (ctag c) = Some n" "f n (cheap c) = (n', h')"
    "acct n' h' (uidOf (ctag c) (server c))"
  shows "accts (ctag c) (server (onNode f c))" "ctag (onNode f c) = ctag c"
    "ctl_balance (onNode f c) k = counted (nodeCounter n' h') k"
  using assms by (simp_all add: onNode_def accts_def ctl_balance_def balance_def)

lemma checkLimit_frame:
  assumes "checkLimit now ip network uuid n h = (n', h')"
  shows "node_counter n' = node_counter n" "cache_users n' = cache_users n" "auth_users n' = auth_users n"
    "storageHeap h' = storageHeap h" "cacheHeap h' = cacheHeap h"
  using assms
  by (auto simp: checkLimit_def freshCheck_def sweepLimitCache_def setUserOverLimit_def setLimiterOverLimit_def setLimit_def Let_def
      split: option.splits if_splits prod.splits)

lemma books_connection:
  assumes "kept_books T s"
  shows "kept_books T (setRuntime (connectionCheck now ip network uuid (runtime s)) s)"
proof -
  let ?c = "runtime s"
  have c: "ctl_ok ?c" "accts (ctag ?c) (server ?c)" using books_accts [OF assms] by (simp_all add: ctl_accts_def)
  obtain n where n: "map_of (nodes (hy2 (server ?c))) (ctag ?c) = Some n" using ctl_node [OF c(1)] by auto
  obtain n' h' where k: "checkLimit now ip network uuid n (cheap ?c) = (n', h')" by fastforce
  note f = checkLimit_frame [OF k]
  have a: "acct n (cheap ?c) (uidOf (ctag ?c) (server ?c))" using c(2) n by (simp add: accts_def)
  have "acct n' h' (uidOf (ctag ?c) (server ?c))" by (rule acct_frame [OF a f(1,4,5)]) (use f(2,3) acctD(5) [OF a] in auto)
  note on = onNode_accts [where f = "checkLimit now ip network uuid", OF n k this]
  have "same_accts ?c (connectionCheck now ip network uuid ?c)"
    using on ctl_connection [OF c(1)] f n
    by (auto simp: connectionCheck_def same_accts_def ctl_accts_def fun_eq_iff) (simp add: ctl_balance_def balance_def)
  then show ?thesis by (rule books_runtime(2) [OF assms])
qed

text \<open>Whether a traffic callback of the controller's node is accepted.\<close>

definition accepted :: "string \<Rightarrow> u64 \<Rightarrow> u64 \<Rightarrow> Controller \<Rightarrow> bool" where
  "accepted uuid tx rx c =
     (case map_of (nodes (hy2 (server c))) (ctag c) of None \<Rightarrow> False | Some n \<Rightarrow> fst (LogTraffic uuid tx rx n (cheap c)))"

lemma books_traffic:
  assumes "kept_books T s" "fits (ctl_balance (runtime s) uuid + amount tx rx)"
  shows "kept_books (\<lambda>k. T k + (if accepted uuid tx rx (runtime s) \<and> k = uuid then amount tx rx else 0))
    (setRuntime (trafficCallback uuid tx rx (runtime s)) s)"
proof -
  let ?c = "runtime s"
  have c: "ctl_ok ?c" "accts (ctag ?c) (server ?c)" using books_accts [OF assms(1)] by (simp_all add: ctl_accts_def)
  obtain n a where n: "map_of (nodes (hy2 (server ?c))) (ctag ?c) = Some n" "node_limiter n = Some a" "node_tag n = ctag ?c"
    "valid_users (userList ?c)" "\<forall>k. served n (limiters (cheap ?c) ! a) k (wanted (userList ?c) k)"
    by (rule ctl_okE [OF c(1)])
  have ac: "acct n (cheap ?c) (uidOf (ctag ?c) (server ?c))" using c(2) n(1) by (simp add: accts_def)
  obtain x n' h' where l: "LogTraffic uuid tx rx n (cheap ?c) = (x, n', h')" by (rule prod_cases3)
  have acc: "accepted uuid tx rx ?c = x" by (simp add: accepted_def n(1) l)
  have ok: "ctl_ok (trafficCallback uuid tx rx ?c)" by (rule ctl_traffic [OF c(1)])
  have "acct n' h' (uidOf (ctag ?c) (server ?c)) \<and>
    (\<forall>k. counted (nodeCounter n' h') k = ctl_balance ?c k + (if x \<and> k = uuid then amount tx rx else 0))"
  proof (cases "uuid \<in> uuids (userList ?c)")
    case False
    then have sv: "served n (limiters (cheap ?c) ! a) uuid None" using n(5) wanted_None by metis
    then have "LogTraffic uuid tx rx n (cheap ?c) = (False, n, cheap ?c)"
      using n(2) by (simp add: served_def LogTraffic_def getUser_def lookupLimit_def loggerLimiter_def)
    with l ac n(1) show ?thesis by (simp add: ctl_balance_def balance_def)
  next
    case True
    then have "wanted (userList ?c) uuid \<noteq> None" by (simp add: wanted_None)
    then have "map_of (auth_users n) uuid \<noteq> None" using n(5) [rule_format, of uuid] by (auto simp: served_def)
    moreover have "uuid \<noteq> []" using True n(4) by (auto simp: valid_users_def list_all_iff)
    ultimately show ?thesis
      using traffic_acct [OF ac l] assms(2) n(1) by (simp add: ctl_balance_def balance_def)
  qed
  then have x: "acct n' h' (uidOf (ctag ?c) (server ?c))"
    "\<And>k. counted (nodeCounter n' h') k = ctl_balance ?c k + (if x \<and> k = uuid then amount tx rx else 0)" by auto
  have f: "(\<lambda>n h. snd (LogTraffic uuid tx rx n h)) n (cheap ?c) = (n', h')" by (simp add: l)
  note on = onNode_accts [where f = "\<lambda>n h. snd (LogTraffic uuid tx rx n h)", OF n(1) f x(1), folded trafficCallback_def]
  have "nonneg (amount tx rx)" by (simp add: nonneg_def amount_def)
  then show ?thesis
    using report.books_counted [OF assms(1), of "trafficCallback uuid tx rx ?c" _ "cache s"] on ok
    by (simp add: acc x(2) ctl_accts_def)
qed

section \<open>The start\<close>

text \<open>All storages of the core hold values that a counter can have; a new core has none.\<close>

definition storages_fit :: "V2Core \<Rightarrow> bool" where
  "storages_fit vc \<longleftrightarrow> list_all (\<lambda>st. fits (Usage (UpCounter st) (DownCounter st))) (storageHeap (mheap (hy2 vc)))"

lemma startNode_accts:
  assumes "startNode se i c = (Inr (), c')" "valid_users (userList c)" "storages_fit (server c)"
  shows "ctl_accts c'" "ctl_balance c' k = 0"
proof -
  let ?c = "registerNew i c" and ?tag = "ctag c"
  obtain vc m vc2 where vc: "coreAddNode ?tag (Some (info_Type i)) (start_serverErr se) (server ?c) = (Inr (), vc)"
    and add: "coreAddUsers (Some (info_Type i)) ?tag (userList c) vc = (Inr m, vc2)"
    and c': "c' = ?c\<lparr>server := vc2, info := Some i\<rparr>"
    using assms(1) by (auto simp: startNode_def Let_def fail_def ok_def registerNew_def split: option.splits prod.splits sum.splits)
  have new: "storageHeap (mheap (hy2 vc)) = storageHeap (cheap c)" "\<exists>n. map_of (nodes (hy2 vc)) ?tag = Some n \<and>
      node_counter n = [] \<and> cache_users n = [] \<and> auth_users n = []"
    using vc by (auto simp: coreAddNode_def AddNode_def registerNew_def Let_def fail_def ok_def split: if_splits option.splits)
  have "accts ?tag vc" "balance ?tag vc k = 0"
    using new assms(3) by (auto simp: accts_def acct_def balance_def counter_ok_def counted_None storages_fit_def list_all_iff)
  moreover have "\<forall>u \<in> set (userList c). user_Id u \<noteq> 0" using assms(2) by (fastforce simp: valid_users_def list_all_iff)
  ultimately have "accts ?tag vc2" "balance ?tag vc2 k = 0" using add_accts [OF _ add] by auto
  moreover have "ctag c' = ?tag" by (simp add: c' registerNew_def Let_def)
  ultimately show "ctl_accts c'" "ctl_balance c' k = 0"
    using startNode_serves [OF assms(1,2)] by (simp_all add: ctl_accts_def ctl_balance_def c')
qed

abbreviation no_books :: "('b, Controller) client \<Rightarrow> bool" where
  "no_books s \<equiv> restart.books (\<lambda>_. 0) (\<lambda>_. 0) s"

lemma no_books_runtime [simp]: "no_books (s\<lparr>runtime := c\<rparr>) = no_books s"
  by (simp add: restart.books_def restart.covers_def)

lemma no_books_calls:
  assumes "no_books s"
  shows "no_books (snd (GetUsers env s))" "no_books (snd (GetUserAlive env s))" "no_books (snd (GetNodeInfo env cd s))"
    "no_books (snd (FlushTraffic env noHooks s))"
  using restart.books_FlushTrafficLimit [OF assms]
  unfolding other_calls_snd getNodeInfo_snd FlushTraffic_def by (auto intro: restart.books_steps(2) [OF assms])

lemma books_opened:
  assumes "no_books s" "ctl_accts (runtime s)" "\<And>k. ctl_balance (runtime s) k = 0"
  shows "kept_books (\<lambda>_. 0) s"
  using assms by (auto simp: restart.books_def restart.covers_def report.books_def report.covers_def)

lemma startUsers_books:
  assumes s: "no_books s" "valid_users (userList (runtime s))" "storages_fit (server (runtime s))"
    and st: "startUsers env se n s = (r, t)"
  shows "no_books t \<and> (r = Inr () \<longrightarrow> ctl_accts (runtime t) \<and> (\<forall>k. ctl_balance (runtime t) k = 0))"
proof -
  obtain r1 s1 where f: "FlushTraffic env noHooks s = (r1, s1)" by fastforce
  have s1: "no_books s1" "runtime s1 = runtime s"
    using no_books_calls(4) [OF s(1), of env] recovery_runtime [of env s] f by simp_all
  obtain r2 s2 where g: "GetUsers env s1 = (r2, s2)" by fastforce
  have s2: "no_books s2" "runtime s2 = runtime s1"
    using no_books_calls(1) [OF s1(1), of env] calls_runtime(2) [of env s1] g by simp_all
  show ?thesis
  proof (cases "\<exists>x snapshot. r1 = Inr x \<and> r2 = Inr snapshot")
    case False
    with st f g s1 s2 show ?thesis by (auto simp: startUsers_def fail_def split: sum.splits)
  next
    case True
    then obtain x snapshot where r: "r1 = Inr x" "r2 = Inr snapshot" by blast
    define s3 where "s3 = (case snapshot of None \<Rightarrow> s2 | Some sn \<Rightarrow> s2\<lparr>runtime := (runtime s2)\<lparr>userList := snap_Users sn\<rparr>\<rparr>)"
    have s3: "no_books s3" "server (runtime s3) = server (runtime s)" "valid_users (userList (runtime s3))"
      using s s1 s2 getUsers_valid [of env _ s1 _ s2] g r by (auto simp: s3_def GetUsers_def split: option.split)
    obtain alive s4 where a: "GetUserAlive env s3 = (alive, s4)" by fastforce
    have s4: "no_books s4" "runtime s4 = runtime s3"
      using no_books_calls(2) [OF s3(1), of env] calls_runtime(3) [of env s3] a by simp_all
    define c where "c = (runtime s4)\<lparr>aliveMap := (case alive of Inl _ \<Rightarrow> [] | Inr m \<Rightarrow> m), ctag := info_Tag n\<rparr>"
    have c: "valid_users (userList c)" "storages_fit (server c)" using s3 s4 s(3) by (simp_all add: c_def)
    obtain r5 c5 where n: "startNode se n c = (r5, c5)" by fastforce
    have "ctl_accts (startTasks n c5) \<and> (\<forall>k. ctl_balance (startTasks n c5) k = 0)" if "r5 = Inr ()"
    proof -
      note a = startNode_accts [OF n [unfolded that] c]
      have "info c5 = Some n"
        using n that by (auto simp: startNode_def Let_def fail_def ok_def split: option.splits prod.splits sum.splits)
      then have "info_Type n = ''hysteria2''" using a(1) by (auto simp: ctl_accts_def elim!: ctl_okE)
      then have "same_accts c5 (startTasks n c5)"
        using ctl_settings(2) a(1) by (intro same_accts_settings) (auto simp: startTasks_def ctl_accts_def)
      with a(2) show ?thesis by (simp add: same_accts_def)
    qed
    then show ?thesis
      using st f r g a n s4(1)
      by (auto simp: startUsers_def s3_def [symmetric] c_def [symmetric] Let_def fail_def ok_def split: option.splits sum.splits)
  qed
qed

lemma StartContext_books:
  assumes "no_books s" "valid_users (userList (runtime s))" "storages_fit x" "StartContext env cd se x s = (r, t)"
  shows "no_books t \<and> (r = Inr () \<longrightarrow> kept_books (\<lambda>_. 0) t)"
proof -
  let ?s = "s\<lparr>runtime := (runtime s)\<lparr>server := x\<rparr>\<rparr>"
  have "no_books t \<and> (r = Inr () \<longrightarrow> ctl_accts (runtime t) \<and> (\<forall>k. ctl_balance (runtime t) k = 0))"
  proof (cases "info (runtime ?s)")
    case (Some n)
    with assms show ?thesis using startUsers_books [of ?s env se n r t] by (simp add: StartContext_def Let_def)
  next
    case None
    obtain rn s1 where g: "GetNodeInfo env cd ?s = (rn, s1)" by fastforce
    have s1: "runtime s1 = runtime ?s" "no_books s1"
      using calls_runtime(1) [of env cd ?s] no_books_calls(3) [of ?s env cd] assms(1) g by simp_all
    show ?thesis
      using None g assms s1 startUsers_books [of "s1\<lparr>runtime := (runtime s1)\<lparr>info := Some _\<rparr>\<rparr>" env se _ r t]
      by (auto simp: StartContext_def Let_def fail_def split: sum.splits option.splits)
  qed
  then show ?thesis using books_opened by blast
qed

section \<open>Runs with a total\<close>

text \<open>
  A history of a controller with the total of the traffic that its node accepted for each user
  since the start. No user exceeds what a 64-bit counter can hold.
\<close>

inductive billed_run ::
  "'b env \<Rightarrow> 'b codec \<Rightarrow> ('b, Controller) client \<Rightarrow> bool \<Rightarrow> (string \<Rightarrow> usage) \<Rightarrow> ('b, Controller) client \<Rightarrow> bool"
  for env :: "'b env" and cd :: "'b codec" and s0 :: "('b, Controller) client" where
  created: "billed_run env cd s0 False (\<lambda>_. 0) s0"
| retry: "billed_run env cd s0 False T s \<Longrightarrow> storages_fit x \<Longrightarrow> StartContext env cd se x s = (Inl e, t) \<Longrightarrow>
    billed_run env cd s0 False T t"
| started: "billed_run env cd s0 False T s \<Longrightarrow> storages_fit x \<Longrightarrow> StartContext env cd se x s = (Inr (), t) \<Longrightarrow>
    billed_run env cd s0 True T t"
| report: "billed_run env cd s0 True T s \<Longrightarrow> billed_run env cd s0 True T (reportUserTrafficTask env s)"
| heartbeat: "billed_run env cd s0 True T s \<Longrightarrow> billed_run env cd s0 True T (reportHeartbeat env budget s)"
| monitor: "billed_run env cd s0 True T s \<Longrightarrow> billed_run env cd s0 True T (nodeInfoMonitor env cd now s)"
| connection: "billed_run env cd s0 True T s \<Longrightarrow>
    billed_run env cd s0 True T (setRuntime (connectionCheck now ip network uuid (runtime s)) s)"
| traffic: "billed_run env cd s0 True T s \<Longrightarrow> fits (ctl_balance (runtime s) uuid + amount tx rx) \<Longrightarrow>
    billed_run env cd s0 True
      (\<lambda>k. T k + (if accepted uuid tx rx (runtime s) \<and> k = uuid then amount tx rx else 0))
      (setRuntime (trafficCallback uuid tx rx (runtime s)) s)"

text \<open>It is a history of the controller.\<close>

lemma billed_controller: "billed_run env cd s0 running T s \<Longrightarrow> controller_run env cd s0 running s"
  by (induction rule: billed_run.induct) (auto intro: controller_run.intros)

lemma billed_books:
  assumes "billed_run env cd (newClient host nid path d (NewController core ch node)) running T s"
  shows "if running then kept_books T s else no_books s \<and> T = (\<lambda>_. 0)"
  using assms
proof induction
  case created
  show ?case by (simp add: restart.books_def newClient_def)
next
  case (retry T s x se e t)
  have "valid_users (userList (runtime s))"
    using controller_run_ok [OF billed_controller [OF retry(1)], of core ch node] by (simp add: newClient_def)
  with StartContext_books [OF _ _ retry(2,3)] retry.IH show ?case by simp
next
  case (started T s x se t)
  have "valid_users (userList (runtime s))"
    using controller_run_ok [OF billed_controller [OF started(1)], of core ch node] by (simp add: newClient_def)
  with StartContext_books [OF _ _ started(2,3)] started.IH show ?case by simp
next
  case (report T s)
  then show ?case using report.books_FlushTrafficLimit by (simp add: reportUserTrafficTask_def)
qed (simp_all add: books_heartbeat books_monitor books_connection books_traffic)

text \<open>C1: Billing is exact from the traffic callback to the acknowledged report. In every history of a
  controller (failed and repeated starts, reporting rounds against any panel and any file system,
  heartbeats, synchronisations, connection checks and traffic callbacks, in any order), what the
  counter of a user holds and what the committed batches took from it is together exactly what
  the node accepted for that user: no byte is deducted twice, deducted without having been
  counted, or lost when a batch is retried, rebased, isolated or found again after a failed
  write.\<close>

theorem controller_bills_exactly:
  assumes "billed_run env cd (newClient host nid path d (NewController core ch node)) True T s" "uuid \<noteq> []"
  shows "ctl_balance (runtime s) uuid + paid (trace s) uuid = T uuid"
  using billed_books [OF assms(1)] report.booksD(2) [OF _ assms(2)] by simp

section \<open>A concrete run\<close>

lemma life_accepts: "accepted ''a'' 10 20 lifeRuntime" "ctl_balance lifeRuntime ''a'' = 0"
  by code_simp+

text \<open>A user's traffic is counted after the start, and a reporting round follows.\<close>

theorem controller_bills_exactly_witness:
  "\<exists>T s. billed_run lifeEnv lifeCodec lifeNew True T (reportUserTrafficTask lifeEnv s) \<and> T ''a'' = Usage 10 20 \<and>
     ctl_balance (runtime (reportUserTrafficTask lifeEnv s)) ''a'' + paid (trace (reportUserTrafficTask lifeEnv s)) ''a'' = Usage 10 20"
proof -
  obtain t where t: "StartContext lifeEnv lifeCodec quietStart (server bareController) lifeNew = (Inr (), t)" "runtime t = lifeRuntime"
    by (rule life_starts)
  have "storages_fit (server bareController)" by (simp add: storages_fit_def bareController_def)
  then have "billed_run lifeEnv lifeCodec lifeNew True (\<lambda>_. 0) t" by (rule billed_run.started [OF billed_run.created _ t(1)])
  moreover have "fits (ctl_balance (runtime t) ''a'' + amount 10 20)"
    unfolding t(2) life_accepts by (simp add: amount_def fits_def nonneg_def)
  ultimately have "billed_run lifeEnv lifeCodec lifeNew True
      (\<lambda>k. 0 + (if accepted ''a'' 10 20 (runtime t) \<and> k = ''a'' then amount 10 20 else 0))
      (setRuntime (trafficCallback ''a'' 10 20 (runtime t)) t)" by (rule billed_run.traffic)
  from billed_run.report [OF this] obtain T s where r: "billed_run lifeEnv lifeCodec lifeNew True T (reportUserTrafficTask lifeEnv s)"
    "T ''a'' = Usage 10 20"
    using life_accepts(1) t(2) by (force simp: amount_def)
  with controller_bills_exactly [OF r(1) [unfolded lifeNew_def], of "''a''"] show ?thesis by auto
qed

end
