(* ===== verification/State_Machine.thy ===== *)
theory State_Machine
  imports Main
begin

text \<open>
  The interface between a state machine and the statements about its runs: a property that every
  step keeps holds in every state that can be reached, and a rank that every step lowers bounds
  the length of runs.
\<close>

locale stable =
  fixes step :: "'s \<Rightarrow> 's \<Rightarrow> bool"
    and keep :: "'s \<Rightarrow> bool"
  assumes step_keeps: "keep s \<Longrightarrow> step s s' \<Longrightarrow> keep s'"
begin

lemma run_keeps: "step\<^sup>*\<^sup>* s s' \<Longrightarrow> keep s \<Longrightarrow> keep s'"
  by (induction rule: rtranclp_induct) (auto intro: step_keeps)

end

text \<open>A rank for the states that are kept: runs end, and they end where no step is possible.\<close>

locale terminating = stable +
  fixes rank :: "'a \<Rightarrow> nat"
  assumes step_lowers: "keep s \<Longrightarrow> step s s' \<Longrightarrow> rank s' < rank s"
begin

lemma run_ends: "keep s \<Longrightarrow> \<exists>s'. step\<^sup>*\<^sup>* s s' \<and> (\<forall>s''. \<not> step s' s'')"
proof (induction "rank s" arbitrary: s rule: less_induct)
  case less
  show ?case
  proof (cases "\<exists>s'. step s s'")
    case True
    then obtain s' where s': "step s s'" by blast
    from less.hyps [OF step_lowers [OF less.prems s'] step_keeps [OF less.prems s']] s' show ?thesis
      by (meson converse_rtranclp_into_rtranclp)
  qed auto
qed

lemma run_bounded: "(step ^^ n) s s' \<Longrightarrow> keep s \<Longrightarrow> n + rank s' \<le> rank s"
proof (induction n arbitrary: s')
  case (Suc n)
  then obtain t where t: "(step ^^ n) s t" "step t s'" by auto
  then have "keep t" using run_keeps [OF relpowp_imp_rtranclp] Suc.prems(2) by blast
  with Suc.IH [OF t(1) Suc.prems(2)] step_lowers [OF _ t(2)] show ?case by simp
qed simp

end

end
