(* ===== verification/Periodic_Task.thy ===== *)
theory Periodic_Task
  imports Go_Prelude State_Machine
begin

text \<open>
  The periodic task (\<open>common/task/task.go\<close>) as a state machine. A task owns one loop goroutine, the
  worker goroutines that run its callback, and the goroutines that end the process after repeated
  timeouts. Each definition is one atomic section of the code: what happens between two points at
  which another goroutine can intervene. The callback is not modelled: it may take any time and
  end with any result. Durations are in nanoseconds; logging is left out.
\<close>

section \<open>State\<close>

text \<open>Where the loop goroutine is: between two statements of \<open>Start\<close>'s loop or \<open>ExecuteWithTimeout\<close>.\<close>

datatype loopPc = NoLoop | Entering | Locked | Selecting nat | Sleeping | LoopDone

datatype execResult = ExecOk | ExecCanceled | ExecDeadline | ExecFailed

datatype workerPhase = Executing | Sent | Unlocked | Finished

text \<open>A worker and the content of its \<open>done\<close> channel.\<close>

record worker =
  w_phase :: workerPhase
  w_done :: "execResult option"

datatype lifetime = NoLifetime | Live | Cancelled

text \<open>A goroutine of \<open>handleExitOnTimeout\<close>: before its check of \<open>closed\<close>, and waiting after it.\<close>

datatype exitPhase = ExitArmed | ExitWaiting bool

text \<open>What became of the turns of the loop, for the statements below.\<close>

datatype turn = Completed | TimedOut | Skipped

record Task =
  task_Interval :: int
  task_Timeout :: int
  task_ReloadOnTimeout :: bool
  task_ExitOnTimeout :: bool
  task_ExitOnTimeoutAfter :: int
  task_ReloadCh :: "bool option"
  task_Running :: bool
  task_closed :: bool
  task_timeoutCount :: int
  task_lifetime :: lifetime
  task_workerDone :: "nat option"
  executeLock :: bool
  loop :: loopPc
  workers :: "worker list"
  exits :: "exitPhase list"
  exited :: bool
  turns :: "turn list"

definition newTask :: "int \<Rightarrow> int \<Rightarrow> bool \<Rightarrow> bool \<Rightarrow> int \<Rightarrow> bool option \<Rightarrow> Task" where
  "newTask interval timeout reload exit after ch =
     \<lparr>task_Interval = interval, task_Timeout = timeout, task_ReloadOnTimeout = reload, task_ExitOnTimeout = exit,
      task_ExitOnTimeoutAfter = after, task_ReloadCh = ch, task_Running = False, task_closed = False,
      task_timeoutCount = 0, task_lifetime = NoLifetime, task_workerDone = None, executeLock = False,
      loop = NoLoop, workers = [], exits = [], exited = False, turns = []\<rparr>"

definition wrap32 :: "int \<Rightarrow> int" where
  "wrap32 x = (x + 2 ^ 31) mod 2 ^ 32 - 2 ^ 31"

section \<open>Operations\<close>

text \<open>\<open>Start\<close>: an error (\<open>True\<close>) for a closed task, nothing for a running one.\<close>

definition taskStart :: "bool \<Rightarrow> Task \<Rightarrow> bool \<times> Task" where
  "taskStart first t =
     (if task_closed t then (True, t)
      else if task_Running t then (False, t)
      else (False, t\<lparr>task_Running := True, loop := (if first then Entering else Sleeping)\<rparr>))"

definition taskUpdateInterval :: "int \<Rightarrow> Task \<Rightarrow> Task" where
  "taskUpdateInterval i t = (if i \<le> 0 then t else t\<lparr>task_Interval := i\<rparr>)"

definition currentTimeout :: "Task \<Rightarrow> int" where
  "currentTimeout t =
     (if task_Timeout t > 0 then task_Timeout t else min (wrap64 (5 * task_Interval t)) (5 * 60 * 10 ^ 9))"

definition exitThreshold :: "Task \<Rightarrow> int" where
  "exitThreshold t = (if task_ExitOnTimeoutAfter t \<le> 0 then 1 else task_ExitOnTimeoutAfter t)"

definition handleExitOnTimeout :: "int \<Rightarrow> Task \<Rightarrow> Task" where
  "handleExitOnTimeout n t = (if n < exitThreshold t then t else t\<lparr>exits := exits t @ [ExitArmed]\<rparr>)"

text \<open>\<open>ExecuteWithTimeout\<close> up to the attempt to take the execution lock.\<close>

definition tryExecute :: "Task \<Rightarrow> Task" where
  "tryExecute t =
     (if executeLock t
      then (let t = t\<lparr>loop := Sleeping, turns := turns t @ [Skipped]\<rparr> in
            if task_ExitOnTimeout t \<and> task_timeoutCount t > 0
            then (let n = wrap32 (task_timeoutCount t + 1) in handleExitOnTimeout n (t\<lparr>task_timeoutCount := n\<rparr>))
            else t)
      else t\<lparr>executeLock := True, loop := Locked\<rparr>)"

text \<open>Its section under \<open>Access\<close>, and the start of the worker.\<close>

definition beginExecute :: "Task \<Rightarrow> Task" where
  "beginExecute t =
     (if task_closed t then t\<lparr>executeLock := False, loop := Sleeping\<rparr>
      else t\<lparr>task_lifetime := (if task_lifetime t = NoLifetime then Live else task_lifetime t),
             task_workerDone := Some (length (workers t)), loop := Selecting (length (workers t)),
             workers := workers t @ [\<lparr>w_phase = Executing, w_done = None\<rparr>]\<rparr>)"

text \<open>The two branches of its \<open>select\<close>.\<close>

definition executeTimedOut :: "Task \<Rightarrow> Task" where
  "executeTimedOut t =
     (let t = t\<lparr>loop := Sleeping\<rparr> in
      if task_lifetime t = Cancelled then t
      else (let n = wrap32 (task_timeoutCount t + 1);
                t = t\<lparr>task_timeoutCount := n, turns := turns t @ [TimedOut]\<rparr> in
            if task_ReloadOnTimeout t \<and> task_ReloadCh t \<noteq> None then t\<lparr>task_ReloadCh := Some True\<rparr>
            else if task_ExitOnTimeout t then handleExitOnTimeout n t
            else t))"

definition executeReturned :: "execResult \<Rightarrow> Task \<Rightarrow> Task" where
  "executeReturned r t =
     t\<lparr>task_timeoutCount := 0, turns := turns t @ [Completed], loop := (if r = ExecFailed then LoopDone else Sleeping)\<rparr>"

text \<open>The worker: the result goes to the channel, then the deferred calls run, last first.\<close>

definition workerSend :: "nat \<Rightarrow> execResult \<Rightarrow> Task \<Rightarrow> Task" where
  "workerSend k r t = t\<lparr>workers := (workers t)[k := \<lparr>w_phase = Sent, w_done = Some r\<rparr>]\<rparr>"

definition workerUnlock :: "nat \<Rightarrow> Task \<Rightarrow> Task" where
  "workerUnlock k t = t\<lparr>executeLock := False, workers := (workers t)[k := (workers t ! k)\<lparr>w_phase := Unlocked\<rparr>]\<rparr>"

definition workerClose :: "nat \<Rightarrow> Task \<Rightarrow> Task" where
  "workerClose k t = t\<lparr>workers := (workers t)[k := (workers t ! k)\<lparr>w_phase := Finished\<rparr>]\<rparr>"

definition safeStop :: "Task \<Rightarrow> Task" where
  "safeStop t =
     t\<lparr>task_closed := True, task_lifetime := (if task_lifetime t = NoLifetime then NoLifetime else Cancelled),
       task_Running := False\<rparr>"

text \<open>\<open>Stop\<close> is closed when the task is no longer \<open>Running\<close> after it was started.\<close>

definition stopClosed :: "Task \<Rightarrow> bool" where
  "stopClosed t \<longleftrightarrow> loop t \<noteq> NoLoop \<and> \<not> task_Running t"

text \<open>Whether \<open>CloseContext\<close>, which called \<open>safeStop\<close>, can return without an error.\<close>

definition loopDoneClosed :: "Task \<Rightarrow> bool" where
  "loopDoneClosed t \<longleftrightarrow> loop t = NoLoop \<or> loop t = LoopDone"

definition workerDoneClosed :: "Task \<Rightarrow> bool" where
  "workerDoneClosed t \<longleftrightarrow> (case task_workerDone t of None \<Rightarrow> True | Some k \<Rightarrow> w_phase (workers t ! k) = Finished)"

definition closeReturns :: "Task \<Rightarrow> bool" where
  "closeReturns t \<longleftrightarrow> task_closed t \<and> loopDoneClosed t \<and> workerDoneClosed t"

definition exitCheck :: "nat \<Rightarrow> Task \<Rightarrow> Task" where
  "exitCheck i t =
     t\<lparr>exits := (if task_closed t then take i (exits t) @ drop (Suc i) (exits t)
                 else (exits t)[i := ExitWaiting (task_lifetime t \<noteq> NoLifetime)])\<rparr>"

definition exitCancelled :: "nat \<Rightarrow> Task \<Rightarrow> Task" where
  "exitCancelled i t = t\<lparr>exits := take i (exits t) @ drop (Suc i) (exits t)\<rparr>"

definition exitProcess :: "Task \<Rightarrow> Task" where
  "exitProcess t = t\<lparr>exited := True\<rparr>"

section \<open>Steps\<close>

text \<open>
  What the goroutines of a task do on their own, except the timer. A context ends when its
  deadline has passed, which may be at any moment, or when the lifetime is cancelled.
\<close>

inductive work :: "Task \<Rightarrow> Task \<Rightarrow> bool" where
  attempt: "loop t = Entering \<Longrightarrow> work t (tryExecute t)"
| launch: "loop t = Locked \<Longrightarrow> work t (beginExecute t)"
| timeout: "loop t = Selecting k \<Longrightarrow> work t (executeTimedOut t)"
| result: "loop t = Selecting k \<Longrightarrow> w_done (workers t ! k) = Some r \<Longrightarrow> work t (executeReturned r t)"
| stop: "loop t = Sleeping \<Longrightarrow> stopClosed t \<Longrightarrow> work t (t\<lparr>loop := LoopDone\<rparr>)"
| send: "k < length (workers t) \<Longrightarrow> w_phase (workers t ! k) = Executing \<Longrightarrow> work t (workerSend k r t)"
| unlock: "k < length (workers t) \<Longrightarrow> w_phase (workers t ! k) = Sent \<Longrightarrow> work t (workerUnlock k t)"
| finish: "k < length (workers t) \<Longrightarrow> w_phase (workers t ! k) = Unlocked \<Longrightarrow> work t (workerClose k t)"

inductive tstep :: "Task \<Rightarrow> Task \<Rightarrow> bool" where
  work: "work t t' \<Longrightarrow> tstep t t'"
| timer: "loop t = Sleeping \<Longrightarrow> tstep t (t\<lparr>loop := Entering\<rparr>)"
| start: "tstep t (snd (taskStart first t))"
| interval: "tstep t (taskUpdateInterval i t)"
| cancel: "tstep t (safeStop t)"
| check: "i < length (exits t) \<Longrightarrow> exits t ! i = ExitArmed \<Longrightarrow> tstep t (exitCheck i t)"
| dismiss: "i < length (exits t) \<Longrightarrow> exits t ! i = ExitWaiting True \<Longrightarrow> task_lifetime t = Cancelled \<Longrightarrow> tstep t (exitCancelled i t)"
| terminate: "i < length (exits t) \<Longrightarrow> exits t ! i = ExitWaiting b \<Longrightarrow> tstep t (exitProcess t)"

inductive_cases workE: "work t t'"
inductive_cases tstepE: "tstep t t'"

section \<open>Invariant\<close>

abbreviation active :: "Task \<Rightarrow> nat \<Rightarrow> bool" where
  "active t k \<equiv> k < length (workers t) \<and> w_phase (workers t ! k) \<in> {Executing, Sent}"

text \<open>The execution lock: held by the loop or by the latest worker, never by two.\<close>

definition lock_inv :: "Task \<Rightarrow> bool" where
  "lock_inv t \<longleftrightarrow>
     (loop t = Locked \<longrightarrow> executeLock t \<and> (\<forall>k. \<not> active t k)) \<and>
     (\<forall>k. active t k \<longrightarrow> executeLock t \<and> Suc k = length (workers t))"

definition latest_inv :: "Task \<Rightarrow> bool" where
  "latest_inv t \<longleftrightarrow>
     (case task_workerDone t of None \<Rightarrow> workers t = [] | Some k \<Rightarrow> Suc k = length (workers t)) \<and>
     (\<forall>k. loop t = Selecting k \<longrightarrow> Suc k = length (workers t)) \<and>
     (\<forall>k < length (workers t). w_phase (workers t ! k) \<noteq> Executing \<longrightarrow> w_done (workers t ! k) \<noteq> None)"

definition life_inv :: "Task \<Rightarrow> bool" where
  "life_inv t \<longleftrightarrow>
     (task_closed t \<longrightarrow> \<not> task_Running t \<and> task_lifetime t \<noteq> Live) \<and>
     (\<not> task_closed t \<longrightarrow> task_lifetime t \<noteq> Cancelled) \<and>
     (\<not> task_Running t \<longrightarrow> task_closed t \<or> loop t = NoLoop) \<and>
     (loop t = NoLoop \<longrightarrow> \<not> task_Running t \<and> workers t = []) \<and>
     (workers t \<noteq> [] \<longrightarrow> task_lifetime t \<noteq> NoLifetime)"

lemmas task_ops = tryExecute_def beginExecute_def executeTimedOut_def executeReturned_def workerSend_def workerUnlock_def
  workerClose_def safeStop_def taskStart_def taskUpdateInterval_def exitCheck_def exitCancelled_def exitProcess_def
  handleExitOnTimeout_def Let_def

lemma nth_upd: "k < length xs \<Longrightarrow> xs[j := x] ! k = (if j = k then x else xs ! k)"
  by (auto simp: nth_list_update)

lemma work_lock:
  assumes "lock_inv t" "latest_inv t" "work t t'"
  shows "lock_inv t'"
  using assms(3,1,2)
  by cases (auto simp: lock_inv_def latest_inv_def task_ops nth_upd nth_append less_Suc_eq split: if_splits option.splits,
      (metis Suc_inject)+)

lemma work_latest:
  assumes "latest_inv t" "work t t'"
  shows "latest_inv t'"
  using assms(2,1)
  by cases (auto simp: latest_inv_def task_ops nth_upd nth_append less_Suc_eq split: if_splits option.splits)

lemma work_life:
  assumes "life_inv t" "work t t'"
  shows "life_inv t'"
  using assms(2,1) by cases (auto simp: life_inv_def task_ops split: if_splits)

definition task_inv :: "Task \<Rightarrow> bool" where
  "task_inv t \<longleftrightarrow> lock_inv t \<and> latest_inv t \<and> life_inv t"

lemma work_inv: "task_inv t \<Longrightarrow> work t t' \<Longrightarrow> task_inv t'"
  using work_lock work_latest work_life by (auto simp: task_inv_def)

interpretation task: stable tstep task_inv
proof
  fix t t'
  assume inv: "task_inv t" and st: "tstep t t'"
  from st show "task_inv t'"
  proof cases
    case work
    with inv show ?thesis by (rule work_inv)
  qed (use inv in \<open>auto simp: task_inv_def lock_inv_def latest_inv_def life_inv_def task_ops split: if_splits option.splits\<close>)
qed

lemma task_inv_new: "task_inv (newTask i d r x a ch)"
  by (simp add: task_inv_def lock_inv_def latest_inv_def life_inv_def newTask_def)

section \<open>Properties\<close>

text \<open>C30: Executions of a task never overlap. In every state that a task can reach, at most one worker is
  inside the callback, also when earlier executions ran into their timeout and are still running.\<close>

theorem task_no_overlap:
  assumes "tstep\<^sup>*\<^sup>* (newTask i d r x a ch) t"
    and "j < length (workers t)" "w_phase (workers t ! j) = Executing"
    and "k < length (workers t)" "w_phase (workers t ! k) = Executing"
  shows "j = k"
  using task.run_keeps [OF assms(1) task_inv_new] assms(2-5)
  by (auto simp: task_inv_def lock_inv_def) (metis Suc_inject)

definition quiet :: "Task \<Rightarrow> bool" where
  "quiet t \<longleftrightarrow> task_inv t \<and> closeReturns t"

lemma quiet_inactive:
  assumes "quiet t"
  shows "\<not> active t k"
proof
  assume "active t k"
  then have k: "k < length (workers t)" "w_phase (workers t ! k) \<in> {Executing, Sent}" "Suc k = length (workers t)"
    using assms by (auto simp: quiet_def task_inv_def lock_inv_def)
  moreover from k(1) assms have "task_workerDone t = Some k"
    using k(3) by (auto simp: quiet_def task_inv_def latest_inv_def split: option.splits)
  ultimately show False using assms by (auto simp: quiet_def closeReturns_def workerDoneClosed_def)
qed

text \<open>A closed task with its goroutines gone: the workers that exist are all there will be.\<close>

lemma quiet_step:
  assumes "quiet t" "tstep t t'"
  shows "closeReturns t' \<and> length (workers t') = length (workers t)"
proof -
  have t: "task_closed t" "loop t = NoLoop \<or> loop t = LoopDone" "workerDoneClosed t"
    using assms(1) by (auto simp: quiet_def closeReturns_def loopDoneClosed_def)
  have f: "w_phase (workers t ! k) = Finished" if "task_workerDone t = Some k" for k
    using t(3) that by (simp add: workerDoneClosed_def)
  have len: "Suc k = length (workers t)" if "task_workerDone t = Some k" for k
    using assms(1) that by (simp add: quiet_def task_inv_def latest_inv_def)
  from assms(2) show ?thesis
  proof cases
    case work
    then show ?thesis
    proof cases
      case (finish k)
      then show ?thesis
        using t f len by (auto simp: closeReturns_def loopDoneClosed_def workerDoneClosed_def task_ops nth_upd split: option.split)
    qed (use t quiet_inactive [OF assms(1)] in \<open>auto\<close>)
  qed (use t in \<open>auto simp: closeReturns_def loopDoneClosed_def workerDoneClosed_def task_ops split: if_splits option.splits\<close>)
qed

interpretation quiet: stable tstep "\<lambda>t. quiet t \<and> length (workers t) = n" for n
  using quiet_step task.step_keeps by unfold_locales (auto simp: quiet_def)


subsection \<open>Closing ends\<close>

fun loopRank :: "loopPc \<Rightarrow> nat" where
  "loopRank NoLoop = 0"
| "loopRank LoopDone = 0"
| "loopRank Sleeping = 1"
| "loopRank Locked = 2"
| "loopRank (Selecting _) = 2"
| "loopRank Entering = 3"

fun phaseRank :: "workerPhase \<Rightarrow> nat" where
  "phaseRank Executing = 3"
| "phaseRank Sent = 2"
| "phaseRank Unlocked = 1"
| "phaseRank Finished = 0"

definition closeWork :: "Task \<Rightarrow> nat" where
  "closeWork t = loopRank (loop t) + sum_list (map (phaseRank \<circ> w_phase) (workers t))"

lemma phases_lower:
  assumes "k < length ws" "phaseRank (w_phase w) < phaseRank (w_phase (ws ! k))"
  shows "sum_list (map (phaseRank \<circ> w_phase) (ws[k := w])) < sum_list (map (phaseRank \<circ> w_phase) ws)"
  using assms by (induction ws arbitrary: k) (auto split: nat.split)

interpretation closing: terminating work "\<lambda>t. task_inv t \<and> task_closed t" closeWork
proof
  fix t t'
  assume t: "task_inv t \<and> task_closed t" and st: "work t t'"
  have "task_closed t'" using st t by cases (auto simp: task_ops)
  with work_inv t st show "task_inv t' \<and> task_closed t'" by blast
  from st show "closeWork t' < closeWork t"
  proof cases
    case (timeout k)
    then have "task_lifetime t = Cancelled"
      using t by (cases "task_lifetime t") (auto simp: task_inv_def latest_inv_def life_inv_def)
    with timeout show ?thesis by (simp add: closeWork_def task_ops)
  qed (use t in \<open>auto simp: closeWork_def task_ops intro!: phases_lower\<close>)
qed

lemma no_work_closed:
  assumes "task_inv t" "task_closed t" "\<forall>t'. \<not> work t t'"
  shows "closeReturns t"
proof -
  have run: "\<not> task_Running t" using assms(1,2) by (simp add: task_inv_def life_inv_def)
  have "loop t \<noteq> Entering" "loop t \<noteq> Locked" "loop t \<noteq> Selecting k" for k using assms(3) work.intros by blast+
  moreover have "loop t \<noteq> Sleeping" using assms(3) work.stop run by (auto simp: stopClosed_def)
  ultimately have "loopDoneClosed t" by (cases "loop t") (auto simp: loopDoneClosed_def)
  moreover have "w_phase (workers t ! k) = Finished" if "k < length (workers t)" for k
    using assms(3) that work.send work.unlock work.finish by (metis workerPhase.exhaust)
  ultimately show ?thesis
    using assms(1,2) by (auto simp: closeReturns_def workerDoneClosed_def task_inv_def latest_inv_def split: option.splits)
qed

text \<open>C31: Closing a task ends. Once a task is cancelled, its goroutines make at most \<open>closeWork\<close> further
  steps on their own, if the callback returns and the timer does not fire again; and when none of
  them has a step left, \<open>CloseContext\<close> returns without an error.\<close>

theorem task_close_terminates:
  assumes "tstep\<^sup>*\<^sup>* (newTask i d r x a ch) t" "task_closed t"
  shows "(\<exists>t'. work\<^sup>*\<^sup>* t t' \<and> closeReturns t') \<and>
    (\<forall>n t'. (work ^^ n) t t' \<longrightarrow> n \<le> closeWork t \<and> (closeReturns t' \<or> (\<exists>t''. work t' t'')))"
proof -
  have t: "task_inv t \<and> task_closed t" using task.run_keeps [OF assms(1) task_inv_new] assms(2) by blast
  have fin: "closeReturns t' \<or> (\<exists>t''. work t' t'')" if "work\<^sup>*\<^sup>* t t'" for t'
    using closing.run_keeps [OF that t] no_work_closed by blast
  then have "\<exists>t'. work\<^sup>*\<^sup>* t t' \<and> closeReturns t'" using closing.run_ends [OF t] by blast
  moreover have "n \<le> closeWork t" "closeReturns t' \<or> (\<exists>t''. work t' t'')" if "(work ^^ n) t t'" for n t'
    using closing.run_bounded [OF that t] fin [OF relpowp_imp_rtranclp [OF that]] by auto
  ultimately show ?thesis by blast
qed

subsection \<open>When the process ends itself\<close>

text \<open>The number of turns since the last completed one.\<close>

definition streak :: "turn list \<Rightarrow> nat" where
  "streak ts = length (takeWhile (\<lambda>x. x \<noteq> Completed) (rev ts))"

lemma streak_simps [simp]:
  "streak [] = 0" "streak (ts @ [x]) = (if x = Completed then 0 else Suc (streak ts))"
  by (simp_all add: streak_def)

definition failing_turns :: "int \<Rightarrow> turn list \<Rightarrow> bool" where
  "failing_turns n ts \<longleftrightarrow> (\<exists>pre mid post. ts = pre @ mid @ post \<and> n \<le> int (length mid) \<and> Completed \<notin> set mid)"

lemma failing_snoc: "failing_turns n ts \<Longrightarrow> failing_turns n (ts @ [x])"
  unfolding failing_turns_def by (metis append.assoc)

lemma failing_streak:
  assumes "n \<le> int (streak ts)"
  shows "failing_turns n ts"
proof -
  let ?P = "\<lambda>x. x \<noteq> Completed"
  have "ts = rev (dropWhile ?P (rev ts)) @ rev (takeWhile ?P (rev ts)) @ []"
    by (metis append_Nil2 rev_append rev_rev_ident takeWhile_dropWhile_id)
  moreover have "Completed \<notin> set (rev (takeWhile ?P (rev ts)))" by (auto dest: set_takeWhileD)
  ultimately show ?thesis using assms unfolding failing_turns_def streak_def by (metis length_rev)
qed

lemma wrap32_le: "- (2 ^ 31) \<le> x \<Longrightarrow> wrap32 x \<le> x" "- (2 ^ 31) \<le> wrap32 x"
proof -
  show "- (2 ^ 31) \<le> wrap32 x" by (simp add: wrap32_def)
  assume "- (2 ^ 31) \<le> x"
  then show "wrap32 x \<le> x" using zmod_le_nonneg_dividend [of "x + 2 ^ 31" "2 ^ 32"] by (simp add: wrap32_def)
qed

definition exit_inv :: "Task \<Rightarrow> bool" where
  "exit_inv t \<longleftrightarrow> - (2 ^ 31) \<le> task_timeoutCount t \<and> task_timeoutCount t \<le> int (streak (turns t)) \<and>
     (exits t \<noteq> [] \<or> exited t \<longrightarrow> task_ExitOnTimeout t \<and> failing_turns (exitThreshold t) (turns t))"

lemma exit_handle:
  assumes "exit_inv t" "task_ExitOnTimeout t" "x \<noteq> Completed" "turns t' = turns t @ [x]" "exits t' = exits t" "exited t' = exited t"
    "task_timeoutCount t' = wrap32 (task_timeoutCount t + 1)" "task_ExitOnTimeout t' = task_ExitOnTimeout t"
    "task_ExitOnTimeoutAfter t' = task_ExitOnTimeoutAfter t"
  shows "exit_inv t'" "exit_inv (handleExitOnTimeout (wrap32 (task_timeoutCount t + 1)) t')"
proof -
  have th: "exitThreshold t' = exitThreshold t" using assms(9) by (simp add: exitThreshold_def)
  have n: "wrap32 (task_timeoutCount t + 1) \<le> int (streak (turns t'))"
    using wrap32_le(1) [of "task_timeoutCount t + 1"] assms(1,3,4) by (simp add: exit_inv_def)
  show "exit_inv t'" using assms n th wrap32_le(2) failing_snoc by (auto simp: exit_inv_def)
  then show "exit_inv (handleExitOnTimeout (wrap32 (task_timeoutCount t + 1)) t')"
    using n assms(2,8) failing_streak [of "exitThreshold t'" "turns t'"] by (auto simp: handleExitOnTimeout_def exit_inv_def exitThreshold_def)
qed

lemma exit_same:
  assumes "exit_inv t" "task_timeoutCount t' = task_timeoutCount t" "turns t' = turns t \<or> (\<exists>x. x \<noteq> Completed \<and> turns t' = turns t @ [x])"
    "exits t' \<noteq> [] \<or> exited t' \<Longrightarrow> exits t \<noteq> [] \<or> exited t" "task_ExitOnTimeout t' = task_ExitOnTimeout t"
    "task_ExitOnTimeoutAfter t' = task_ExitOnTimeoutAfter t"
  shows "exit_inv t'"
  using assms failing_snoc by (auto simp: exit_inv_def exitThreshold_def)

lemma exit_work:
  assumes "exit_inv t" "work t t'"
  shows "exit_inv t'"
  using assms(2)
proof cases
  case attempt
  then show ?thesis
    using exit_handle(2) [OF assms(1), of Skipped "t\<lparr>loop := Sleeping, turns := turns t @ [Skipped],
        task_timeoutCount := wrap32 (task_timeoutCount t + 1)\<rparr>"]
    by (auto simp: tryExecute_def Let_def intro: exit_same [OF assms(1)])
next
  case (timeout k)
  let ?t = "t\<lparr>loop := Sleeping, task_timeoutCount := wrap32 (task_timeoutCount t + 1), turns := turns t @ [TimedOut]\<rparr>"
  have t: "exit_inv ?t"
    using wrap32_le(1) [of "task_timeoutCount t + 1"] wrap32_le(2) assms(1) failing_snoc by (auto simp: exit_inv_def exitThreshold_def)
  have "exit_inv (?t\<lparr>task_ReloadCh := Some True\<rparr>)" by (rule exit_same [OF t]) simp_all
  with timeout t exit_handle(2) [OF assms(1), of TimedOut ?t] show ?thesis
    by (auto simp: executeTimedOut_def Let_def intro: exit_same [OF assms(1)])
next
  case (result k r)
  then show ?thesis using assms(1) failing_snoc by (auto simp: executeReturned_def exit_inv_def exitThreshold_def)
qed (auto simp: task_ops intro: exit_same [OF assms(1)])

lemma step_config:
  "work t t' \<Longrightarrow> task_ExitOnTimeout t' = task_ExitOnTimeout t \<and> task_ExitOnTimeoutAfter t' = task_ExitOnTimeoutAfter t"
  "tstep t t' \<Longrightarrow> task_ExitOnTimeout t' = task_ExitOnTimeout t \<and> task_ExitOnTimeoutAfter t' = task_ExitOnTimeoutAfter t"
proof -
  show work: "work t t' \<Longrightarrow> task_ExitOnTimeout t' = task_ExitOnTimeout t \<and> task_ExitOnTimeoutAfter t' = task_ExitOnTimeoutAfter t"
    for t t' by (induction rule: work.induct) (auto simp: task_ops)
  show "tstep t t' \<Longrightarrow> task_ExitOnTimeout t' = task_ExitOnTimeout t \<and> task_ExitOnTimeoutAfter t' = task_ExitOnTimeoutAfter t"
    by (induction rule: tstep.induct) (auto simp: task_ops dest: work)
qed

interpretation exits: stable tstep "\<lambda>t. exit_inv t \<and> task_ExitOnTimeout t = x \<and> task_ExitOnTimeoutAfter t = a" for x a
proof
  fix t t'
  assume inv: "exit_inv t \<and> task_ExitOnTimeout t = x \<and> task_ExitOnTimeoutAfter t = a" and st: "tstep t t'"
  from st have "exit_inv t'"
  proof cases
    case work
    with inv show ?thesis using exit_work by blast
  qed (use inv in \<open>auto simp: task_ops intro!: exit_same [of t]\<close>)
  with step_config(2) [OF st] inv show "exit_inv t' \<and> task_ExitOnTimeout t' = x \<and> task_ExitOnTimeoutAfter t' = a" by simp
qed

text \<open>C32: The process ends itself only after persistent timeouts. When a task ends the process, it was
  configured to, and in its history there are as many consecutive turns as its threshold asks for
  (one, if none is set) in none of which the callback completed.\<close>

theorem task_exit_threshold:
  assumes "tstep\<^sup>*\<^sup>* (newTask i d r x a ch) t" "exited t"
  shows "x \<and> failing_turns (if a \<le> 0 then 1 else a) (turns t)"
proof -
  have "exit_inv (newTask i d r x a ch) \<and> task_ExitOnTimeout (newTask i d r x a ch) = x \<and>
      task_ExitOnTimeoutAfter (newTask i d r x a ch) = a" by (simp add: exit_inv_def newTask_def)
  from exits.run_keeps [OF assms(1) this] assms(2) show ?thesis by (auto simp: exit_inv_def exitThreshold_def)
qed

section \<open>A concrete task\<close>

text \<open>
  The reporting task: its first execution runs into the timeout and does not return, the next
  two turns are skipped, and the process is ended; or the task is closed after the timeout.
\<close>

definition demoTask :: Task where
  "demoTask = newTask (60 * 10 ^ 9) (45 * 10 ^ 9) False True 3 (Some False)"

definition hungTask :: Task where
  "hungTask = executeTimedOut (beginExecute (tryExecute (snd (taskStart True demoTask))))"

definition skippedTask :: Task where
  "skippedTask = tryExecute ((tryExecute (hungTask\<lparr>loop := Entering\<rparr>))\<lparr>loop := Entering\<rparr>)"

definition exitedTask :: Task where
  "exitedTask = exitProcess (exitCheck 0 skippedTask)"

definition closedTask :: Task where
  "closedTask = workerClose 0 (workerUnlock 0 (workerSend 0 ExecCanceled ((safeStop hungTask)\<lparr>loop := LoopDone\<rparr>)))"

lemmas demo_defs = demoTask_def newTask_def hungTask_def task_ops exitThreshold_def wrap32_def

lemma hung_value:
  "hungTask = demoTask\<lparr>task_Running := True, loop := Sleeping, task_lifetime := Live, task_workerDone := Some 0,
     executeLock := True, workers := [\<lparr>w_phase = Executing, w_done = None\<rparr>], task_timeoutCount := 1, turns := [TimedOut]\<rparr>"
  by (simp add: demo_defs)

lemma skipped_value:
  "skippedTask = hungTask\<lparr>task_timeoutCount := 3, turns := [TimedOut, Skipped, Skipped], exits := [ExitArmed]\<rparr>"
  by (simp add: skippedTask_def hung_value) (simp add: demo_defs)

lemma hung_reached: "tstep\<^sup>*\<^sup>* demoTask hungTask"
proof -
  let ?a = "snd (taskStart True demoTask)"
  have l: "loop ?a = Entering" "loop (tryExecute ?a) = Locked" "loop (beginExecute (tryExecute ?a)) = Selecting 0"
    by (simp_all add: demo_defs)
  have "tstep demoTask ?a" by (rule tstep.start)
  moreover have "tstep ?a (tryExecute ?a)" "tstep (tryExecute ?a) (beginExecute (tryExecute ?a))"
    "tstep (beginExecute (tryExecute ?a)) hungTask"
    unfolding hungTask_def by (rule tstep.work, rule work.attempt work.launch work.timeout, rule l)+
  ultimately show ?thesis by (meson rtranclp.intros)
qed

lemma skipped_reached: "tstep\<^sup>*\<^sup>* demoTask skippedTask"
proof -
  let ?a = "hungTask\<lparr>loop := Entering\<rparr>"
  let ?b = "(tryExecute ?a)\<lparr>loop := Entering\<rparr>"
  have "loop hungTask = Sleeping" "loop (tryExecute ?a) = Sleeping" by (simp_all add: demo_defs)
  then have "tstep hungTask ?a" "tstep (tryExecute ?a) ?b" by (auto intro: tstep.timer)
  moreover have "tstep ?a (tryExecute ?a)" "tstep ?b skippedTask"
    unfolding skippedTask_def by (rule tstep.work, rule work.attempt, simp)+
  ultimately show ?thesis using hung_reached by (meson rtranclp.intros)
qed

lemma exited_reached: "tstep\<^sup>*\<^sup>* demoTask exitedTask" "exited exitedTask" "turns exitedTask = [TimedOut, Skipped, Skipped]"
proof -
  have "exits skippedTask = [ExitArmed]" "\<not> task_closed skippedTask"
    by (simp_all add: skipped_value hung_value) (simp add: demoTask_def newTask_def)
  then have "tstep skippedTask (exitCheck 0 skippedTask)" "exits (exitCheck 0 skippedTask) = [ExitWaiting (task_lifetime skippedTask \<noteq> NoLifetime)]"
    by (simp_all add: tstep.check) (simp add: exitCheck_def)
  moreover from this(2) have "tstep (exitCheck 0 skippedTask) exitedTask"
    unfolding exitedTask_def by (intro tstep.terminate [of 0]) simp_all
  ultimately have "tstep skippedTask (exitCheck 0 skippedTask)" "tstep (exitCheck 0 skippedTask) exitedTask" by simp_all
  then show "tstep\<^sup>*\<^sup>* demoTask exitedTask" using skipped_reached by (meson rtranclp.intros)
  show "exited exitedTask" "turns exitedTask = [TimedOut, Skipped, Skipped]"
    by (simp_all add: exitedTask_def exitProcess_def exitCheck_def skipped_value)
qed

lemma closed_reached: "tstep\<^sup>*\<^sup>* demoTask (safeStop hungTask)" "tstep\<^sup>*\<^sup>* demoTask closedTask" "closeReturns closedTask"
proof -
  let ?s = "safeStop hungTask"
  let ?a = "?s\<lparr>loop := LoopDone\<rparr>"
  let ?b = "workerSend 0 ExecCanceled ?a"
  let ?c = "workerUnlock 0 ?b"
  show s: "tstep\<^sup>*\<^sup>* demoTask ?s" using hung_reached tstep.cancel by (meson rtranclp.intros)
  have "work ?s ?a" by (rule work.stop) (simp_all add: stopClosed_def safeStop_def hung_value)
  moreover have "work ?a ?b" by (rule work.send) (simp_all add: safeStop_def hung_value)
  moreover have "work ?b ?c" by (rule work.unlock) (simp_all add: workerSend_def safeStop_def hung_value)
  moreover have "work ?c closedTask"
    unfolding closedTask_def by (rule work.finish) (simp_all add: workerUnlock_def workerSend_def safeStop_def hung_value)
  ultimately show "tstep\<^sup>*\<^sup>* demoTask closedTask" using s tstep.work by (meson rtranclp.intros)
  show "closeReturns closedTask"
    by (simp add: closeReturns_def loopDoneClosed_def workerDoneClosed_def closedTask_def workerClose_def workerUnlock_def
        workerSend_def safeStop_def hung_value)
qed

theorem task_no_overlap_witness:
  "\<exists>t. tstep\<^sup>*\<^sup>* demoTask t \<and> length (workers t) = 1 \<and> w_phase (workers t ! 0) = Executing \<and>
     turns t = [TimedOut, Skipped, Skipped] \<and> (\<forall>j. \<not> (j < length (workers t) \<and> w_phase (workers t ! j) = Executing \<and> j \<noteq> 0))"
proof -
  have "length (workers skippedTask) = 1" "w_phase (workers skippedTask ! 0) = Executing" "turns skippedTask = [TimedOut, Skipped, Skipped]"
    by (simp_all add: skipped_value hung_value)
  with task_no_overlap [OF skipped_reached [unfolded demoTask_def], of _ 0] skipped_reached show ?thesis by (metis less_numeral_extra(1))
qed


theorem task_close_terminates_witness:
  "\<exists>t'. work\<^sup>*\<^sup>* (safeStop hungTask) t' \<and> closeReturns t'"
  using task_close_terminates [OF closed_reached(1) [unfolded demoTask_def]] by (simp add: safeStop_def)

theorem task_exit_threshold_witness:
  "exited exitedTask \<and> failing_turns 3 [TimedOut, Skipped, Skipped]"
  using task_exit_threshold [OF exited_reached(1) [unfolded demoTask_def] exited_reached(2)] exited_reached(2,3) by simp

end
