(* ===== verification/Server_Loop.thy ===== *)
theory Server_Loop
  imports Go_Strings State_Machine
begin

text \<open>
  The life of a node's QUIC server (\<open>serveLoop\<close>, \<open>stop\<close> and \<open>closeServer\<close> of
  \<open>core/officialhy2/manager.go\<close>): one goroutine serves and replaces the server when it fails, another
  may stop the node at any moment. A server is an index into the list of servers ever created.
  Serving may end at any time with any error, and creating a server may fail. Each definition is
  one atomic section; logging is left out.
\<close>

section \<open>Backoff\<close>

definition maxBackoff :: int where
  "maxBackoff = 30 * 10 ^ 9"

definition nextRestartBackoff :: "int \<Rightarrow> int" where
  "nextRestartBackoff current = (let n = wrap64 (current * 2) in if n > maxBackoff then maxBackoff else n)"

definition retryDelay :: int where
  "retryDelay = 10 ^ 9"

text \<open>An error is given by its text.\<close>

definition isServerClosedError :: "string option \<Rightarrow> bool" where
  "isServerClosedError e = (case e of None \<Rightarrow> False | Some m \<Rightarrow> contains m ''quic: server closed'')"

section \<open>State\<close>

text \<open>Where \<open>runServeLoop\<close> is.\<close>

datatype servePc =
    LoopHead
  | Picking
  | Serving nat
  | Served "string option"
  | Closing nat
  | Waiting
  | Creating
  | Created nat
  | Discarding nat
  | ServeDone

text \<open>
  Where \<open>stop\<close> is: not called, after closing \<open>stopCh\<close>, with the server taken, done with closing and waiting
  for the serving goroutine, and returned, with whether that goroutine had ended.
\<close>

datatype stopPc = NotStopped | StopSignalled | StopTook "nat option" | StopClosed "string option" | StopReturned "string option" bool

record serveState =
  current :: "nat option"
  opened :: "bool list"
  servePc :: servePc
  stopPc :: stopPc
  backoff :: int

definition stopCh :: "serveState \<Rightarrow> bool" where
  "stopCh n \<longleftrightarrow> stopPc n \<noteq> NotStopped"

text \<open>\<open>AddNode\<close> creates the first server and starts the loop.\<close>

definition serveStart :: serveState where
  "serveStart = \<lparr>current = Some 0, opened = [True], servePc = LoopHead, stopPc = NotStopped, backoff = retryDelay\<rparr>"

section \<open>The serving goroutine\<close>

definition loopHead :: "serveState \<Rightarrow> serveState" where
  "loopHead n = n\<lparr>servePc := (if stopCh n then ServeDone else Picking)\<rparr>"

definition pickServer :: "serveState \<Rightarrow> serveState" where
  "pickServer n = n\<lparr>servePc := (case current n of None \<Rightarrow> Waiting | Some s \<Rightarrow> Serving s)\<rparr>"

definition serveReturned :: "string option \<Rightarrow> serveState \<Rightarrow> serveState" where
  "serveReturned e n = n\<lparr>servePc := (if stopCh n then ServeDone else Served e)\<rparr>"

text \<open>\<open>closeServer\<close>: the server is taken under the lock and closed outside of it.\<close>

definition takeServer :: "serveState \<Rightarrow> serveState" where
  "takeServer n = n\<lparr>current := None, servePc := (case current n of None \<Rightarrow> Waiting | Some s \<Rightarrow> Closing s)\<rparr>"

definition closeAt :: "nat \<Rightarrow> serveState \<Rightarrow> serveState" where
  "closeAt s n = n\<lparr>opened := (opened n)[s := False]\<rparr>"

definition waitBeforeRestart :: "bool \<Rightarrow> serveState \<Rightarrow> serveState" where
  "waitBeforeRestart elapsed n = n\<lparr>servePc := (if elapsed then Creating else ServeDone)\<rparr>"

definition createFailed :: "serveState \<Rightarrow> serveState" where
  "createFailed n = n\<lparr>backoff := nextRestartBackoff (backoff n), servePc := LoopHead\<rparr>"

definition createServer :: "serveState \<Rightarrow> serveState" where
  "createServer n = n\<lparr>opened := opened n @ [True], servePc := Created (length (opened n))\<rparr>"

text \<open>The new server is installed under the lock, unless the node was stopped.\<close>

definition installServer :: "nat \<Rightarrow> serveState \<Rightarrow> serveState" where
  "installServer s n =
     (if stopCh n then n\<lparr>servePc := Discarding s\<rparr>
      else n\<lparr>current := Some s, backoff := retryDelay, servePc := LoopHead\<rparr>)"

inductive serve_step :: "serveState \<Rightarrow> serveState \<Rightarrow> bool" where
  head: "servePc n = LoopHead \<Longrightarrow> serve_step n (loopHead n)"
| pick: "servePc n = Picking \<Longrightarrow> serve_step n (pickServer n)"
| served: "servePc n = Serving s \<Longrightarrow> serve_step n (serveReturned e n)"
| taken: "servePc n = Served e \<Longrightarrow> serve_step n (takeServer n)"
| closed: "servePc n = Closing s \<Longrightarrow> serve_step n ((closeAt s n)\<lparr>servePc := Waiting\<rparr>)"
| elapsed: "servePc n = Waiting \<Longrightarrow> serve_step n (waitBeforeRestart True n)"
| stopped: "servePc n = Waiting \<Longrightarrow> stopCh n \<Longrightarrow> serve_step n (waitBeforeRestart False n)"
| failed: "servePc n = Creating \<Longrightarrow> serve_step n (createFailed n)"
| created: "servePc n = Creating \<Longrightarrow> serve_step n (createServer n)"
| install: "servePc n = Created s \<Longrightarrow> serve_step n (installServer s n)"
| discard: "servePc n = Discarding s \<Longrightarrow> serve_step n ((closeAt s n)\<lparr>servePc := ServeDone\<rparr>)"

section \<open>Stopping\<close>

definition stopSignal :: "serveState \<Rightarrow> serveState" where
  "stopSignal n = n\<lparr>stopPc := StopSignalled\<rparr>"

definition stopTake :: "serveState \<Rightarrow> serveState" where
  "stopTake n = n\<lparr>current := None, stopPc := StopTook (current n)\<rparr>"

definition stopClose :: "string option \<Rightarrow> serveState \<Rightarrow> serveState" where
  "stopClose e n =
     (case stopPc n of
        StopTook (Some s) \<Rightarrow> (closeAt s n)\<lparr>stopPc := StopClosed (if isServerClosedError e then None else e)\<rparr>
      | _ \<Rightarrow> n\<lparr>stopPc := StopClosed None\<rparr>)"

text \<open>The wait for \<open>serveDone\<close>, which ends after five seconds in any case.\<close>

definition stopReturn :: "bool \<Rightarrow> serveState \<Rightarrow> serveState" where
  "stopReturn joined n = n\<lparr>stopPc := StopReturned (case stopPc n of StopClosed e \<Rightarrow> e | _ \<Rightarrow> None) joined\<rparr>"

inductive stop_step :: "serveState \<Rightarrow> serveState \<Rightarrow> bool" where
  signal: "stopPc n = NotStopped \<Longrightarrow> stop_step n (stopSignal n)"
| take_: "stopPc n = StopSignalled \<Longrightarrow> stop_step n (stopTake n)"
| close_: "stopPc n = StopTook s \<Longrightarrow> stop_step n (stopClose e n)"
| join: "stopPc n = StopClosed e \<Longrightarrow> servePc n = ServeDone \<Longrightarrow> stop_step n (stopReturn True n)"
| give_up: "stopPc n = StopClosed e \<Longrightarrow> stop_step n (stopReturn False n)"

inductive node_step :: "serveState \<Rightarrow> serveState \<Rightarrow> bool" where
  serve: "serve_step n n' \<Longrightarrow> node_step n n'"
| stop: "stop_step n n' \<Longrightarrow> node_step n n'"

section \<open>Invariant\<close>

text \<open>A server that is open is reachable by the one who will close it.\<close>

definition owned :: "serveState \<Rightarrow> nat \<Rightarrow> bool" where
  "owned n s \<longleftrightarrow> current n = Some s \<or> servePc n \<in> {Closing s, Created s, Discarding s} \<or> stopPc n = StopTook (Some s)"

definition serve_inv :: "serveState \<Rightarrow> bool" where
  "serve_inv n \<longleftrightarrow>
     (\<forall>s < length (opened n). opened n ! s \<longrightarrow> owned n s) \<and>
     (\<forall>s. owned n s \<longrightarrow> s < length (opened n)) \<and>
     (\<forall>s. servePc n = Closing s \<or> servePc n = Created s \<or> servePc n = Creating \<or> servePc n = Waiting \<longrightarrow> current n = None) \<and>
     (stopPc n \<notin> {NotStopped, StopSignalled} \<longrightarrow> current n = None) \<and>
     (\<forall>s. servePc n = Discarding s \<longrightarrow> stopCh n) \<and> (servePc n = ServeDone \<longrightarrow> stopCh n) \<and>
     (\<forall>e. stopPc n = StopReturned e True \<longrightarrow> servePc n = ServeDone) \<and> retryDelay \<le> backoff n \<and> backoff n \<le> maxBackoff"

lemma backoff_bounds:
  assumes "retryDelay \<le> b" "b \<le> maxBackoff"
  shows "retryDelay \<le> nextRestartBackoff b" "nextRestartBackoff b \<le> maxBackoff" "nextRestartBackoff b = min (2 * b) maxBackoff"
proof -
  have "wrap64 (b * 2) = b * 2" using assms by (intro wrap64_id) (simp add: in_int64_def retryDelay_def maxBackoff_def)
  with assms show "retryDelay \<le> nextRestartBackoff b" "nextRestartBackoff b \<le> maxBackoff" "nextRestartBackoff b = min (2 * b) maxBackoff"
    by (auto simp: nextRestartBackoff_def retryDelay_def maxBackoff_def)
qed

lemmas serve_ops = loopHead_def pickServer_def serveReturned_def takeServer_def closeAt_def waitBeforeRestart_def createFailed_def
  createServer_def installServer_def stopSignal_def stopTake_def stopClose_def stopReturn_def

lemma serve_inv_serve:
  assumes "serve_inv n" "serve_step n n'"
  shows "serve_inv n'"
  using assms(2)
proof cases
  case failed
  with assms(1) show ?thesis using backoff_bounds by (auto simp: serve_inv_def serve_ops owned_def stopCh_def)
next
  case created
  with assms(1) show ?thesis by (auto simp: serve_inv_def serve_ops owned_def stopCh_def nth_append less_Suc_eq)
next
  case (install s)
  with assms(1) show ?thesis by (auto simp: serve_inv_def serve_ops owned_def stopCh_def retryDelay_def maxBackoff_def)
next
  case (closed s)
  with assms(1) show ?thesis by (auto simp: serve_inv_def serve_ops owned_def stopCh_def nth_list_update split: if_splits)
next
  case (discard s)
  with assms(1) show ?thesis by (auto simp: serve_inv_def serve_ops owned_def stopCh_def nth_list_update split: if_splits)
next
  case (taken e)
  then have own: "owned n' s = owned n s" for s by (auto simp: takeServer_def owned_def split: option.split)
  have "opened n' = opened n" "current n' = None" "stopPc n' = stopPc n" "backoff n' = backoff n"
    "servePc n' = Waiting \<or> (\<exists>s. servePc n' = Closing s)"
    using taken by (auto simp: takeServer_def split: option.split)
  moreover have "stopPc n \<noteq> StopReturned e' True" for e' using assms(1) taken by (auto simp: serve_inv_def)
  ultimately show ?thesis using assms(1) own by (auto simp: serve_inv_def stopCh_def)
next
  case pick
  then have own: "owned n' s = owned n s" for s by (auto simp: pickServer_def owned_def split: option.split)
  have "opened n' = opened n" "current n' = current n" "stopPc n' = stopPc n" "backoff n' = backoff n"
    "servePc n' = Waiting \<and> current n = None \<or> (\<exists>s. servePc n' = Serving s)"
    using pick by (auto simp: pickServer_def split: option.split)
  moreover have "stopPc n \<noteq> StopReturned e' True" for e' using assms(1) pick by (auto simp: serve_inv_def)
  ultimately show ?thesis using assms(1) own by (auto simp: serve_inv_def stopCh_def)
qed (use assms(1) in \<open>auto simp: serve_inv_def serve_ops owned_def stopCh_def\<close>)

lemma serve_inv_stop:
  assumes "serve_inv n" "stop_step n n'"
  shows "serve_inv n'"
  using assms(2)
proof cases
  case (close_ s e)
  with assms(1) show ?thesis
    by (cases s) (auto simp: serve_inv_def serve_ops owned_def stopCh_def nth_list_update split: if_splits)
qed (use assms(1) in \<open>auto simp: serve_inv_def serve_ops owned_def stopCh_def\<close>)

interpretation serving: stable node_step serve_inv
  by unfold_locales (metis node_step.cases serve_inv_serve serve_inv_stop)

lemma serve_inv_start: "serve_inv serveStart"
  by (auto simp: serve_inv_def serveStart_def owned_def retryDelay_def maxBackoff_def less_Suc_eq)

section \<open>Stopping ends and closes everything\<close>

fun serveRank :: "servePc \<Rightarrow> nat" where
  "serveRank ServeDone = 0"
| "serveRank (Discarding _) = 1"
| "serveRank LoopHead = 1"
| "serveRank (Created _) = 2"
| "serveRank Creating = 3"
| "serveRank Waiting = 4"
| "serveRank (Closing _) = 5"
| "serveRank (Served _) = 6"
| "serveRank (Serving _) = 7"
| "serveRank Picking = 8"

fun stopRank :: "stopPc \<Rightarrow> nat" where
  "stopRank NotStopped = 4"
| "stopRank StopSignalled = 3"
| "stopRank (StopTook _) = 2"
| "stopRank (StopClosed _) = 1"
| "stopRank (StopReturned _ _) = 0"

definition stopWork :: "serveState \<Rightarrow> nat" where
  "stopWork n = serveRank (servePc n) + stopRank (stopPc n)"

interpretation stopping: terminating node_step "\<lambda>n. serve_inv n \<and> stopCh n" stopWork
proof
  fix n n'
  assume n: "serve_inv n \<and> stopCh n" and st: "node_step n n'"
  have c: "stopCh n'"
    using n st by (auto elim!: node_step.cases serve_step.cases stop_step.cases simp: stopCh_def serve_ops split: option.splits)
  with serving.step_keeps n st show "serve_inv n' \<and> stopCh n'" by blast
  show "stopWork n' < stopWork n"
    using st n
    by (auto elim!: node_step.cases serve_step.cases stop_step.cases simp: stopWork_def stopCh_def serve_ops split: option.splits)
qed

text \<open>Once \<open>stopCh\<close> is closed and \<open>closeServer\<close> is done, only the serving goroutine has steps left.\<close>

lemma stuck_stopped:
  assumes "stopCh n" "\<forall>n'. \<not> node_step n n'"
  shows "servePc n = ServeDone \<and> (\<exists>e joined. stopPc n = StopReturned e joined)"
proof -
  have "servePc n = ServeDone" using assms(2) node_step.serve serve_step.intros by (metis servePc.exhaust)
  moreover have "\<exists>e joined. stopPc n = StopReturned e joined"
    using assms node_step.stop stop_step.intros by (metis stopPc.exhaust stopCh_def)
  ultimately show ?thesis by simp
qed

text \<open>C33: Stopping a node closes every server that it created. After \<open>stop\<close> has closed \<open>stopCh\<close>, the two
  goroutines make at most \<open>stopWork\<close> steps, whatever the servers return; when neither can go on,
  the serving goroutine has ended and no server is left open, also one that was just being
  created or replaced when the node was stopped. If \<open>stop\<close> returns because the goroutine has ended,
  and not because five seconds have passed, no server is open when it returns.\<close>

theorem stop_closes_servers:
  assumes "node_step\<^sup>*\<^sup>* serveStart n" "stopCh n" "(node_step ^^ k) n n'"
  shows "k \<le> stopWork n \<and> stopWork n \<le> 11 \<and> ((\<exists>n''. node_step n' n'') \<or> servePc n' = ServeDone \<and> True \<notin> set (opened n')) \<and>
    (\<forall>e. stopPc n' = StopReturned e True \<longrightarrow> True \<notin> set (opened n'))"
proof -
  have n: "serve_inv n \<and> stopCh n" using serving.run_keeps [OF assms(1) serve_inv_start] assms(2) by blast
  have n': "serve_inv n' \<and> stopCh n'" using stopping.run_keeps [OF relpowp_imp_rtranclp [OF assms(3)] n] .
  have finished: "True \<notin> set (opened n')" if "servePc n' = ServeDone" "stopPc n' = StopReturned e j" for e j
    using n' that by (auto simp: serve_inv_def owned_def in_set_conv_nth)
  have "servePc n' = ServeDone \<and> True \<notin> set (opened n')" if "\<forall>n''. \<not> node_step n' n''"
    using stuck_stopped [of n'] n' that finished by auto
  moreover have "\<forall>e. stopPc n' = StopReturned e True \<longrightarrow> True \<notin> set (opened n')" using n' finished by (auto simp: serve_inv_def)
  moreover have "stopWork n \<le> 11"
    using assms(2) by (cases "servePc n"; cases "stopPc n") (auto simp: stopWork_def stopCh_def)
  ultimately show ?thesis using stopping.run_bounded [OF assms(3) n] by auto
qed

lemma backoff_iterates: "(nextRestartBackoff ^^ k) retryDelay = min (2 ^ k * retryDelay) maxBackoff"
proof (induction k)
  case (Suc k)
  let ?b = "(nextRestartBackoff ^^ k) retryDelay"
  have "retryDelay \<le> 2 ^ k * retryDelay" by (simp add: retryDelay_def)
  then have "retryDelay \<le> ?b" "?b \<le> maxBackoff" unfolding Suc by (auto simp: retryDelay_def maxBackoff_def)
  from backoff_bounds(3) [OF this] Suc show ?case by (auto simp: maxBackoff_def min_def mult.commute)
qed (simp add: retryDelay_def maxBackoff_def)

text \<open>Restarts back off within bounds. In every state of a node the pause before the next attempt is
  between one and thirty seconds, and after \<open>k\<close> failed attempts in a row it is \<open>2 ^ k\<close> seconds,
  capped at thirty.\<close>

theorem restart_backoff_bounded:
  assumes "node_step\<^sup>*\<^sup>* serveStart n"
  shows "10 ^ 9 \<le> backoff n \<and> backoff n \<le> 30 * 10 ^ 9 \<and> (nextRestartBackoff ^^ k) (10 ^ 9) = min (2 ^ k * 10 ^ 9) (30 * 10 ^ 9)"
  using serving.run_keeps [OF assms serve_inv_start] backoff_iterates [of k]
  by (simp add: serve_inv_def retryDelay_def maxBackoff_def)

section \<open>A concrete node\<close>

text \<open>The node is stopped while a replacement for its failed server is being created.\<close>

definition failedNode :: serveState where
  "failedNode = waitBeforeRestart True ((closeAt 0 (takeServer (serveReturned (Some ''boom'')
     (pickServer (loopHead serveStart)))))\<lparr>servePc := Waiting\<rparr>)"

definition racingNode :: serveState where
  "racingNode = stopSignal (createServer failedNode)"

lemma failed_value: "failedNode = serveStart\<lparr>current := None, opened := [False], servePc := Creating\<rparr>"
  by (simp add: failedNode_def serve_ops serveStart_def stopCh_def)

lemma failed_reached: "node_step\<^sup>*\<^sup>* serveStart failedNode"
proof -
  let ?a = "loopHead serveStart"
  let ?b = "pickServer ?a"
  let ?c = "serveReturned (Some ''boom'') ?b"
  let ?d = "takeServer ?c"
  let ?e = "(closeAt 0 ?d)\<lparr>servePc := Waiting\<rparr>"
  note ops = serve_ops serveStart_def stopCh_def
  have "serve_step serveStart ?a" by (rule serve_step.head) (simp add: serveStart_def)
  moreover have "serve_step ?a ?b" by (rule serve_step.pick) (simp add: ops)
  moreover have "serve_step ?b ?c" by (rule serve_step.served [of _ 0]) (simp add: ops)
  moreover have "serve_step ?c ?d" by (rule serve_step.taken [of _ "Some ''boom''"]) (simp add: ops)
  moreover have "serve_step ?d ?e" by (rule serve_step.closed) (simp add: ops)
  moreover have "serve_step ?e failedNode" unfolding failedNode_def by (rule serve_step.elapsed) simp
  ultimately show ?thesis by (meson node_step.serve rtranclp.intros)
qed

lemma racing_reached: "node_step\<^sup>*\<^sup>* serveStart racingNode"
proof -
  have "node_step failedNode (createServer failedNode)"
    by (intro node_step.serve serve_step.created) (simp add: failed_value)
  moreover have "node_step (createServer failedNode) racingNode"
    unfolding racingNode_def by (intro node_step.stop stop_step.signal) (simp add: failed_value createServer_def serveStart_def)
  ultimately show ?thesis using failed_reached by (meson rtranclp.intros)
qed

definition stoppedNode :: serveState where
  "stoppedNode = stopReturn True (stopClose None (stopTake ((closeAt 1 (installServer 1 racingNode))\<lparr>servePc := ServeDone\<rparr>)))"

lemma racing_value: "racingNode = serveStart\<lparr>current := None, opened := [False, True], servePc := Created 1, stopPc := StopSignalled\<rparr>"
  by (simp add: racingNode_def failed_value createServer_def stopSignal_def serveStart_def)

lemma stopped_value: "stoppedNode = serveStart\<lparr>current := None, opened := [False, False], servePc := ServeDone, stopPc := StopReturned None True\<rparr>"
  by (simp add: stoppedNode_def racing_value serve_ops stopCh_def serveStart_def)

lemma stopped_reached: "(node_step ^^ 5) racingNode stoppedNode"
proof -
  let ?a = "installServer 1 racingNode"
  let ?b = "(closeAt 1 ?a)\<lparr>servePc := ServeDone\<rparr>"
  note ops = racing_value installServer_def closeAt_def stopTake_def stopClose_def stopCh_def
  have "node_step racingNode ?a" by (intro node_step.serve serve_step.install) (simp add: racing_value)
  moreover have "node_step ?a ?b" by (intro node_step.serve serve_step.discard) (simp add: ops)
  moreover have "node_step ?b (stopTake ?b)" by (intro node_step.stop stop_step.take_) (simp add: ops)
  moreover have "node_step (stopTake ?b) (stopClose None (stopTake ?b))"
    by (intro node_step.stop stop_step.close_ [of _ None]) (simp add: ops)
  moreover have "node_step (stopClose None (stopTake ?b)) stoppedNode"
    unfolding stoppedNode_def by (intro node_step.stop stop_step.join [of _ None]) (simp_all add: ops)
  ultimately have "(node_step ^^ Suc (Suc (Suc (Suc (Suc 0))))) racingNode stoppedNode"
    by (blast intro: relpowp_Suc_I relpowp_0_I)
  then show ?thesis by (simp add: numeral_eq_Suc)
qed

lemma stopped_stuck: "\<not> node_step stoppedNode n"
  by (auto elim!: node_step.cases serve_step.cases stop_step.cases simp: stopped_value)

theorem stop_closes_servers_witness:
  "opened racingNode = [False, True] \<and> (node_step ^^ 5) racingNode stoppedNode \<and> True \<notin> set (opened stoppedNode)"
  using stop_closes_servers [OF racing_reached _ stopped_reached] stopped_stuck stopped_reached
  by (simp add: racing_value stopCh_def)

theorem restart_backoff_bounded_witness:
  "10 ^ 9 \<le> backoff racingNode \<and> backoff racingNode \<le> 30 * 10 ^ 9 \<and> (nextRestartBackoff ^^ 3) (10 ^ 9) = 8 * 10 ^ 9"
  using restart_backoff_bounded [OF racing_reached, of 3] by simp

end
