(* ===== verification/Outbound.thy ===== *)
theory Outbound
  imports Panel_Client
begin

text \<open>
  Destination addresses (\<open>core/officialhy2/outbound_adapter.go\<close>, \<open>fast_direct_outbound.go\<close>, and the
  address functions of \<open>config.go\<close>). Parsing of IP literals, host lookup, the text of an
  address of the outbound library and the sockets are arguments; an IP address is its text with
  its family.
\<close>

section \<open>Text of an address\<close>

definition trimBracketedIP :: "string \<Rightarrow> string" where
  "trimBracketedIP ip = (if prefix ''['' ip \<and> suffix '']'' ip then trimSuffix (trimPrefix ip ''['') '']'' else ip)"

definition formatAddress :: "string \<Rightarrow> int \<Rightarrow> string" where
  "formatAddress ip port =
     (let ip = trimBracketedIP (trimSpace ip) in
      if ip = [] then '':'' @ itoa port
      else if contains ip '':'' then ''['' @ ip @ '']:'' @ itoa port
      else ip @ '':'' @ itoa port)"

definition normalizeListenIP :: "string \<Rightarrow> string" where
  "normalizeListenIP ip =
     (let ip = trimBracketedIP (trimSpace ip) in
      if toLower ip \<in> {'''', ''*'', ''0.0.0.0'', ''::''} then [] else ip)"

text \<open>The index of the last occurrence of a byte, and \<open>net.SplitHostPort\<close>.\<close>

definition lastIndex :: "char \<Rightarrow> string \<Rightarrow> nat option" where
  "lastIndex c s = (if c \<in> set s then Some (length s - 1 - length (takeWhile (\<lambda>x. x \<noteq> c) (rev s))) else None)"

definition firstIndex :: "char \<Rightarrow> string \<Rightarrow> nat option" where
  "firstIndex c s = (if c \<in> set s then Some (length (takeWhile (\<lambda>x. x \<noteq> c) s)) else None)"

definition noBrackets :: "string \<Rightarrow> string \<Rightarrow> string \<times> string \<Rightarrow> goerr + (string \<times> string)" where
  "noBrackets opening closing r =
     (if CHR ''['' \<in> set opening then Inl (Err ''unexpected [ in address'')
      else if CHR '']'' \<in> set closing then Inl (Err ''unexpected ] in address'')
      else Inr r)"

definition SplitHostPort :: "string \<Rightarrow> goerr + (string \<times> string)" where
  "SplitHostPort s =
     (case lastIndex (CHR '':'') s of
        None \<Rightarrow> Inl (Err ''missing port in address'')
      | Some i \<Rightarrow>
          (if prefix ''['' s
           then (case firstIndex (CHR '']'') s of
               None \<Rightarrow> Inl (Err ''missing ] in address'')
             | Some e \<Rightarrow>
                 (if e + 1 = length s then Inl (Err ''missing port in address'')
                  else if e + 1 = i
                  then noBrackets (drop 1 s) (drop (e + 1) s) (take (e - 1) (drop 1 s), drop (i + 1) s)
                  else if s ! (e + 1) = CHR '':'' then Inl (Err ''too many colons in address'')
                  else Inl (Err ''missing port in address'')))
           else if CHR '':'' \<in> set (take i s) then Inl (Err ''too many colons in address'')
           else noBrackets s s (take i s, drop (i + 1) s)))"

record AddrEx =
  addr_Host :: string
  addr_Port :: nat

definition parseAddrEx :: "string \<Rightarrow> goerr + AddrEx" where
  "parseAddrEx s =
     (case SplitHostPort s of
        Inl e \<Rightarrow> Inl e
      | Inr (host, port) \<Rightarrow>
          (case parseUint 16 port of
             None \<Rightarrow> Inl (Wrap ''invalid port'' (Err port))
           | Some p \<Rightarrow> Inr \<lparr>addr_Host = host, addr_Port = p\<rparr>))"

section \<open>The outbound adapter\<close>

text \<open>The calls of the wrapped outbound and of its connections are arguments.\<close>

definition adapterCall :: "(AddrEx \<Rightarrow> goerr + 'c) \<Rightarrow> string \<Rightarrow> goerr + 'c" where
  "adapterCall call reqAddr = (case parseAddrEx reqAddr of Inl e \<Rightarrow> Inl e | Inr a \<Rightarrow> call a)"

record 'c pluggable =
  po_TCP :: "AddrEx \<Rightarrow> goerr + 'c"
  po_UDP :: "AddrEx \<Rightarrow> goerr + 'c"
  po_CheckUDP :: "AddrEx \<Rightarrow> goerr option"

definition adapterTCP :: "'c pluggable \<Rightarrow> string \<Rightarrow> goerr + 'c" where
  "adapterTCP po reqAddr = adapterCall (po_TCP po) reqAddr"

definition adapterCheckUDP :: "'c pluggable \<Rightarrow> string \<Rightarrow> goerr option" where
  "adapterCheckUDP po reqAddr = (case parseAddrEx reqAddr of Inl e \<Rightarrow> Some e | Inr a \<Rightarrow> po_CheckUDP po a)"

definition adapterReadFrom :: "int \<times> (AddrEx option) \<times> goerr option \<Rightarrow> (AddrEx \<Rightarrow> string) \<Rightarrow> int \<times> string \<times> goerr option" where
  "adapterReadFrom r show = (case r of (n, None, e) \<Rightarrow> (n, [], e) | (n, Some a, e) \<Rightarrow> (n, show a, e))"

text \<open>
  \<open>WriteTo\<close> with its cache of the last address. The state is the cache and the datagrams handed to
  the connection, with their destinations.
\<close>

record udpAdapter =
  lastWriteAddr :: "(string \<times> AddrEx) option"
  datagrams :: "(AddrEx \<times> string) list"

definition adapterUDP :: "'c pluggable \<Rightarrow> string \<Rightarrow> goerr + ('c \<times> udpAdapter)" where
  "adapterUDP po reqAddr =
     (case adapterCall (po_UDP po) reqAddr of
        Inl e \<Rightarrow> Inl e | Inr conn \<Rightarrow> Inr (conn, \<lparr>lastWriteAddr = None, datagrams = []\<rparr>))"

definition sendDatagram :: "(AddrEx \<Rightarrow> string \<Rightarrow> goerr + int) \<Rightarrow> AddrEx \<Rightarrow> string \<Rightarrow> udpAdapter \<Rightarrow> (goerr + int) \<times> udpAdapter" where
  "sendDatagram conn a b u = (conn a b, u\<lparr>datagrams := datagrams u @ [(a, b)]\<rparr>)"

definition adapterWriteTo ::
  "(AddrEx \<Rightarrow> string \<Rightarrow> goerr + int) \<Rightarrow> string \<Rightarrow> string \<Rightarrow> udpAdapter \<Rightarrow> (goerr + int) \<times> udpAdapter" where
  "adapterWriteTo conn b dest u =
     (let miss = (case parseAddrEx dest of
            Inl e \<Rightarrow> (Inl e, u)
          | Inr a \<Rightarrow> sendDatagram conn a b (u\<lparr>lastWriteAddr := Some (dest, a)\<rparr>)) in
      case lastWriteAddr u of
        Some (raw, a) \<Rightarrow> (if raw = dest then sendDatagram conn a b u else miss)
      | None \<Rightarrow> miss)"

section \<open>The direct outbound\<close>

datatype ip = IPv4 string | IPv6 string

fun isV4 :: "ip \<Rightarrow> bool" where
  "isV4 (IPv4 _) = True"
| "isV4 (IPv6 _) = False"

fun ipText :: "ip \<Rightarrow> string" where
  "ipText (IPv4 s) = s"
| "ipText (IPv6 s) = s"

record ResolveInfo =
  ri_IPv4 :: "ip option"
  ri_IPv6 :: "ip option"
  ri_Err :: "goerr option"

record resolver =
  parseIP :: "string \<Rightarrow> ip option"
  lookupIP :: "string \<Rightarrow> goerr + ip list"
  addrText :: "AddrEx \<Rightarrow> string"

definition JoinHostPort :: "string \<Rightarrow> nat \<Rightarrow> string" where
  "JoinHostPort host port =
     (if contains host '':'' then ''['' @ host @ '']:'' @ itoa (int port) else host @ '':'' @ itoa (int port))"

definition preferredUDPIP :: "ResolveInfo \<Rightarrow> ip option" where
  "preferredUDPIP ri = (case ri_IPv4 ri of Some i \<Rightarrow> Some i | None \<Rightarrow> ri_IPv6 ri)"

definition noAddress :: "string \<Rightarrow> AddrEx \<Rightarrow> goerr" where
  "noAddress what a = Err (what @ '' available for '' @ JoinHostPort (addr_Host a) (addr_Port a))"

definition resolveAddrExUDP :: "resolver \<Rightarrow> ResolveInfo option \<Rightarrow> AddrEx \<Rightarrow> goerr + (ip \<times> nat)" where
  "resolveAddrExUDP rs ri a =
     (case ri of
        Some ri \<Rightarrow>
          (case preferredUDPIP ri of
             Some i \<Rightarrow> Inr (i, addr_Port a)
           | None \<Rightarrow> (case ri_Err ri of Some e \<Rightarrow> Inl (Wrap ''resolve error'' e) | None \<Rightarrow> Inl (noAddress ''no address'' a)))
      | None \<Rightarrow>
          (case parseIP rs (addr_Host a) of
             Some i \<Rightarrow> Inr (i, addr_Port a)
           | None \<Rightarrow>
               (case lookupIP rs (addr_Host a) of
                  Inl e \<Rightarrow> Inl e
                | Inr ips \<Rightarrow>
                    (case List.find isV4 ips of
                       Some i \<Rightarrow> Inr (i, addr_Port a)
                     | None \<Rightarrow> (case ips of i # _ \<Rightarrow> Inr (i, addr_Port a) | [] \<Rightarrow> Inl (noAddress ''no address'' a))))))"

definition resolveAddrExTCP :: "resolver \<Rightarrow> ResolveInfo option \<Rightarrow> AddrEx \<Rightarrow> goerr + string" where
  "resolveAddrExTCP rs ri a =
     (case ri of
        Some ri \<Rightarrow>
          (case ri_IPv4 ri of
             Some i \<Rightarrow> Inr (JoinHostPort (ipText i) (addr_Port a))
           | None \<Rightarrow> (case ri_Err ri of Some e \<Rightarrow> Inl (Wrap ''resolve error'' e) | None \<Rightarrow> Inl (noAddress ''no IPv4 address'' a)))
      | None \<Rightarrow>
          (case parseIP rs (addr_Host a) of
             Some i \<Rightarrow>
               (if isV4 i then Inr (JoinHostPort (ipText i) (addr_Port a))
                else Inl (Err (''IPv6 literal is not allowed for forced IPv4 outbound: '' @ addr_Host a)))
           | None \<Rightarrow>
               (case lookupIP rs (addr_Host a) of
                  Inl e \<Rightarrow> Inl e
                | Inr ips \<Rightarrow>
                    (case List.find isV4 ips of
                       Some i \<Rightarrow> Inr (JoinHostPort (ipText i) (addr_Port a))
                     | None \<Rightarrow> Inl (noAddress ''no IPv4 address'' a)))))"

text \<open>\<open>TCP\<close>: the address that is dialled, over IPv4 in any case.\<close>

definition directTCP :: "resolver \<Rightarrow> ResolveInfo option \<Rightarrow> AddrEx \<Rightarrow> string" where
  "directTCP rs ri a =
     (case resolveAddrExTCP rs ri a of Inl _ \<Rightarrow> addrText rs a | Inr s \<Rightarrow> s)"

text \<open>
  The direct outbound as an outbound of the adapter. Dialling (over \<open>tcp4\<close>) and listening are
  arguments; an address that the adapter parsed carries no resolution of its own.
\<close>

definition newFastDirectOutbound :: "resolver \<Rightarrow> (string \<Rightarrow> goerr + 'c) \<Rightarrow> goerr + 'c \<Rightarrow> 'c pluggable" where
  "newFastDirectOutbound rs dial listen =
     \<lparr>po_TCP = (\<lambda>a. dial (directTCP rs None a)), po_UDP = (\<lambda>a. listen), po_CheckUDP = (\<lambda>a. None)\<rparr>"

definition directReadFrom :: "int \<times> (ip \<times> int) option \<times> goerr option \<Rightarrow> int \<times> AddrEx option \<times> goerr option" where
  "directReadFrom r =
     (case r of (n, None, e) \<Rightarrow> (n, None, e)
      | (n, Some (i, port), e) \<Rightarrow> (n, Some \<lparr>addr_Host = ipText i, addr_Port = nat (port mod 2 ^ 16)\<rparr>, e))"

text \<open>\<open>WriteTo\<close> of a direct UDP connection, which caches the resolution of the last address.\<close>

record directConn =
  lastResolved :: "(string \<times> (ip \<times> nat)) option"
  sentTo :: "((ip \<times> nat) \<times> string) list"

definition directWriteTo :: "resolver \<Rightarrow> ResolveInfo option \<Rightarrow> string \<Rightarrow> AddrEx \<Rightarrow> directConn \<Rightarrow> goerr option \<times> directConn" where
  "directWriteTo rs ri b a c =
     (let raw = addrText rs a;
          miss = (case resolveAddrExUDP rs ri a of
             Inl e \<Rightarrow> (Some e, c)
           | Inr u \<Rightarrow> (None, c\<lparr>lastResolved := Some (raw, u), sentTo := sentTo c @ [(u, b)]\<rparr>)) in
      case lastResolved c of
        Some (key, u) \<Rightarrow> (if key = raw then (None, c\<lparr>sentTo := sentTo c @ [(u, b)]\<rparr>) else miss)
      | None \<Rightarrow> miss)"

section \<open>Round trip\<close>

lemma natDigits_chars: "c \<in> set (natDigits n) \<Longrightarrow> c \<notin> {CHR '':'', CHR ''['', CHR '']''}"
  using natDigits_digits [of c n] by (auto simp: digitVal_def Let_def)

lemma digits_plain [simp]:
  "CHR '':'' \<notin> set (natDigits n)" "CHR ''['' \<notin> set (natDigits n)" "CHR '']'' \<notin> set (natDigits n)"
  using natDigits_chars by blast+

lemma itoa_port: "itoa (int p) = natDigits p"
  by (simp add: itoa_def)

lemma takeWhile_all: "c \<notin> set s \<Longrightarrow> takeWhile (\<lambda>x. x \<noteq> c) s = s"
  by (induction s) auto

lemma lastIndex_append:
  "c \<notin> set t \<Longrightarrow> lastIndex c (s @ c # t) = Some (length s)"
  by (simp add: lastIndex_def takeWhile_append takeWhile_all)

lemma firstIndex_append:
  "c \<notin> set s \<Longrightarrow> firstIndex c (s @ c # t) = Some (length s)"
  by (simp add: firstIndex_def takeWhile_append takeWhile_all)

definition plainHost :: "string \<Rightarrow> bool" where
  "plainHost h \<longleftrightarrow> trimSpace h = h \<and> CHR ''['' \<notin> set h \<and> CHR '']'' \<notin> set h"

lemma plain_untouched: "plainHost h \<Longrightarrow> trimBracketedIP (trimSpace h) = h"
  by (auto simp: plainHost_def trimBracketedIP_def prefix_def)

lemma split_plain:
  assumes "CHR '':'' \<notin> set h" "CHR ''['' \<notin> set h" "CHR '']'' \<notin> set h"
  shows "SplitHostPort (h @ '':'' @ natDigits p) = Inr (h, natDigits p)"
proof -
  have "\<not> prefix ''['' (h @ '':'' @ natDigits p)" using assms(2) by (cases h) auto
  with assms lastIndex_append [of "CHR '':''" "natDigits p" h] show ?thesis
    by (simp add: SplitHostPort_def noBrackets_def)
qed

lemma split_bracketed:
  assumes "CHR ''['' \<notin> set h" "CHR '']'' \<notin> set h"
  shows "SplitHostPort (''['' @ h @ '']:'' @ natDigits p) = Inr (h, natDigits p)"
proof -
  have l: "lastIndex (CHR '':'') (''['' @ h @ '']:'' @ natDigits p) = Some (length h + 2)"
    using lastIndex_append [of "CHR '':''" "natDigits p" "''['' @ h @ '']''"] by simp
  have f: "firstIndex (CHR '']'') (''['' @ h @ '']:'' @ natDigits p) = Some (length h + 1)"
    using firstIndex_append [of "CHR '']''" "''['' @ h" "'':'' @ natDigits p"] assms(2) by simp
  show ?thesis
    using l f assms by (simp add: SplitHostPort_def noBrackets_def)
qed

text \<open>C37: Addresses survive formatting. For every host without brackets or surrounding space (a name, an
  IPv4 or IPv6 literal, or empty for all interfaces) and every port, parsing the formatted address
  gives back the host and the port.\<close>

theorem format_parse_address:
  assumes "plainHost h" "p < 2 ^ 16"
  shows "parseAddrEx (formatAddress h (int p)) = Inr \<lparr>addr_Host = h, addr_Port = p\<rparr>"
proof -
  have b: "CHR ''['' \<notin> set h" "CHR '']'' \<notin> set h" using assms(1) by (simp_all add: plainHost_def)
  have "SplitHostPort (formatAddress h (int p)) = Inr (h, natDigits p)"
    using split_plain [of h p] split_bracketed [of h p] b plain_untouched [OF assms(1)]
    by (auto simp: formatAddress_def Let_def itoa_port)
  then show ?thesis using assms(2) by (simp add: parseAddrEx_def)
qed

theorem format_parse_address_witness:
  "parseAddrEx (formatAddress ''2001:db8::1'' 443) = Inr \<lparr>addr_Host = ''2001:db8::1'', addr_Port = 443\<rparr>"
  using format_parse_address [of "''2001:db8::1''" 443] by (simp add: plainHost_def trimSpace_def spaceChar_def)

section \<open>The write cache\<close>

definition cache_ok :: "udpAdapter \<Rightarrow> bool" where
  "cache_ok u \<longleftrightarrow> (\<forall>raw a. lastWriteAddr u = Some (raw, a) \<longrightarrow> parseAddrEx raw = Inr a)"

text \<open>What a connection without the cache does.\<close>

definition plainWriteTo ::
  "string \<times> string \<Rightarrow> (AddrEx \<times> string) list \<Rightarrow> (AddrEx \<times> string) list" where
  "plainWriteTo w sent = (case parseAddrEx (fst w) of Inl _ \<Rightarrow> sent | Inr a \<Rightarrow> sent @ [(a, snd w)])"

lemma write_cached:
  assumes "cache_ok u"
  shows "cache_ok (snd (adapterWriteTo conn b dest u))"
    "datagrams (snd (adapterWriteTo conn b dest u)) = plainWriteTo (dest, b) (datagrams u)"
    "fst (adapterWriteTo conn b dest u) = (case parseAddrEx dest of Inl e \<Rightarrow> Inl e | Inr a \<Rightarrow> conn a b)"
  using assms
  by (auto simp: adapterWriteTo_def cache_ok_def plainWriteTo_def sendDatagram_def Let_def split: option.splits sum.splits)

text \<open>C38: The cache of the last destination is invisible. Any sequence of writes through a fresh adapter
  hands the same datagrams to the same destinations as parsing every address anew, and each write
  returns the same result.\<close>

theorem write_cache_transparent:
  "datagrams (fold (\<lambda>(dest, b) u. snd (adapterWriteTo conn b dest u)) ws \<lparr>lastWriteAddr = None, datagrams = []\<rparr>) =
     fold (plainWriteTo) ws [] \<and>
   fst (adapterWriteTo conn b' dest' (fold (\<lambda>(dest, b) u. snd (adapterWriteTo conn b dest u)) ws \<lparr>lastWriteAddr = None, datagrams = []\<rparr>)) =
     (case parseAddrEx dest' of Inl e \<Rightarrow> Inl e | Inr a \<Rightarrow> conn a b')"
proof -
  have "cache_ok (fold (\<lambda>(dest, b) u. snd (adapterWriteTo conn b dest u)) ws u) \<and>
      datagrams (fold (\<lambda>(dest, b) u. snd (adapterWriteTo conn b dest u)) ws u) = fold (plainWriteTo) ws (datagrams u)"
    if "cache_ok u" for u
    using that
  proof (induction ws arbitrary: u)
    case (Cons w ws)
    obtain dest b where w: "w = (dest, b)" by fastforce
    from Cons.IH [OF write_cached(1) [OF Cons.prems]] write_cached(2) [OF Cons.prems] w show ?case by simp
  qed simp
  from this [of "\<lparr>lastWriteAddr = None, datagrams = []\<rparr>"] write_cached(3) show ?thesis by (simp add: cache_ok_def)
qed

text \<open>
  The address that a datagram came from, as the client sees it, is the address a reply is sent to.
\<close>

lemma JoinHostPort_parses:
  assumes "CHR ''['' \<notin> set h" "CHR '']'' \<notin> set h" "p < 2 ^ 16"
  shows "parseAddrEx (JoinHostPort h p) = Inr \<lparr>addr_Host = h, addr_Port = p\<rparr>"
proof -
  have "SplitHostPort (JoinHostPort h p) = Inr (h, natDigits p)"
    using split_plain [of h p] split_bracketed [of h p] assms by (auto simp: JoinHostPort_def itoa_port)
  then show ?thesis using assms(3) by (simp add: parseAddrEx_def)
qed

theorem reply_address:
  assumes "CHR ''['' \<notin> set (ipText i)" "CHR '']'' \<notin> set (ipText i)" "0 \<le> port" "port < 2 ^ 16"
    and "\<forall>a. addrText rs a = JoinHostPort (addr_Host a) (addr_Port a)"
    and "adapterReadFrom (directReadFrom (n, Some (i, port), e)) (addrText rs) = (n', from, e')"
  shows "n' = n \<and> e' = e \<and> parseAddrEx from = Inr \<lparr>addr_Host = ipText i, addr_Port = nat port\<rparr>"
proof -
  have "nat port < 2 ^ 16" "nat (port mod 2 ^ 16) = nat port" using assms(3,4) by simp_all
  with JoinHostPort_parses [OF assms(1,2), of "nat port"] assms(5,6) show ?thesis
    by (auto simp: adapterReadFrom_def directReadFrom_def)
qed

lemma resolved_v4:
  assumes "resolveAddrExTCP rs None a = Inr s"
  shows "\<exists>i. isV4 i \<and> s = JoinHostPort (ipText i) (addr_Port a)"
  using assms by (auto simp: resolveAddrExTCP_def find_Some_iff split: option.splits sum.splits if_splits)

text \<open>
  A TCP request through adapter and direct outbound dials an IPv4 literal whenever the host has an
  IPv4 address, and the requested name otherwise; a request that cannot be parsed dials nothing.
\<close>

theorem tcp_dials_v4:
  assumes "parseAddrEx reqAddr = Inr a" "parseIP rs (addr_Host a) = None" "lookupIP rs (addr_Host a) = Inr ips"
  shows "adapterTCP (newFastDirectOutbound rs dial listen) reqAddr =
    dial (case List.find isV4 ips of Some i \<Rightarrow> JoinHostPort (ipText i) (addr_Port a) | None \<Rightarrow> addrText rs a)"
  using assms
  by (simp add: adapterTCP_def adapterCall_def newFastDirectOutbound_def directTCP_def resolveAddrExTCP_def split: option.split)

text \<open>The cache of a direct connection, for addresses that their texts tell apart.\<close>

definition resolved_ok :: "resolver \<Rightarrow> ResolveInfo option \<Rightarrow> directConn \<Rightarrow> bool" where
  "resolved_ok rs ri c \<longleftrightarrow> (\<forall>raw u a. lastResolved c = Some (raw, u) \<and> addrText rs a = raw \<longrightarrow> resolveAddrExUDP rs ri a = Inr u)"

theorem direct_cache_transparent:
  assumes "inj (addrText rs)" "resolved_ok rs ri c"
  shows "resolved_ok rs ri (snd (directWriteTo rs ri b a c)) \<and>
    (case resolveAddrExUDP rs ri a of
       Inl e \<Rightarrow> directWriteTo rs ri b a c = (Some e, c)
     | Inr u \<Rightarrow> fst (directWriteTo rs ri b a c) = None \<and> sentTo (snd (directWriteTo rs ri b a c)) = sentTo c @ [(u, b)])"
  using assms
  by (auto simp: directWriteTo_def resolved_ok_def Let_def inj_eq split: option.splits sum.splits)

end
