(* ===== verification/Hy2_Config.thy ===== *)
theory Hy2_Config
  imports Outbound Node_Info Limiter
begin

text \<open>
  The server configuration of a node (\<open>core/officialhy2/config.go\<close>): TLS certificates with their cache,
  the listening socket, bandwidth, unlock rules and the masquerade site. The file system, the
  socket calls, the TLS and ACL libraries are arguments; times are in nanoseconds.
\<close>

section \<open>The certificate cache\<close>

text \<open>What a file system shows of the two files, and what loading the pair gives.\<close>

record fileStat =
  st_ModTime :: int
  st_Size :: int

record 'c certFiles =
  loadPair :: "goerr + 'c"
  statCert :: "goerr + fileStat"
  statKey :: "goerr + fileStat"

record 'c certificateCache =
  cc_checkInterval :: int
  cc_cert :: 'c
  cc_certModTime :: int
  cc_keyModTime :: int
  cc_certSize :: int
  cc_keySize :: int
  cc_lastCheck :: int

definition defaultCertCheckInterval :: int where
  "defaultCertCheckInterval = 5 * second"

text \<open>
  \<open>reloadLocked\<close>. The pair is loaded first and the files are looked at afterwards: \<open>before\<close> is the
  file system at the load, \<open>after\<close> at the two calls of \<open>Stat\<close>. A failure leaves the cache as it was.
\<close>

definition reloadLocked ::
  "'c certFiles \<Rightarrow> 'c certFiles \<Rightarrow> int \<Rightarrow> 'c certificateCache \<Rightarrow> goerr option \<times> 'c certificateCache" where
  "reloadLocked before after now c =
     (case loadPair before of
        Inl e \<Rightarrow> (Some e, c)
      | Inr cert \<Rightarrow>
          (case statCert after of
             Inl e \<Rightarrow> (Some e, c)
           | Inr cs \<Rightarrow>
               (case statKey after of
                  Inl e \<Rightarrow> (Some e, c)
                | Inr ks \<Rightarrow>
                    (None, c\<lparr>cc_cert := cert, cc_certModTime := st_ModTime cs, cc_keyModTime := st_ModTime ks,
                             cc_certSize := st_Size cs, cc_keySize := st_Size ks, cc_lastCheck := now\<rparr>))))"

definition changedLocked :: "'c certFiles \<Rightarrow> 'c certificateCache \<Rightarrow> goerr + bool" where
  "changedLocked fs c =
     (case statCert fs of
        Inl e \<Rightarrow> Inl e
      | Inr cs \<Rightarrow>
          (case statKey fs of
             Inl e \<Rightarrow> Inl e
           | Inr ks \<Rightarrow>
               Inr (st_ModTime cs \<noteq> cc_certModTime c \<or> st_ModTime ks \<noteq> cc_keyModTime c \<or>
                    st_Size cs \<noteq> cc_certSize c \<or> st_Size ks \<noteq> cc_keySize c)))"

definition newCertificateCache :: "'c \<Rightarrow> 'c certFiles \<Rightarrow> 'c certFiles \<Rightarrow> int \<Rightarrow> int \<Rightarrow> goerr + 'c certificateCache" where
  "newCertificateCache zero before after interval now =
     (case reloadLocked before after now
        \<lparr>cc_checkInterval = interval, cc_cert = zero, cc_certModTime = 0, cc_keyModTime = 0, cc_certSize = 0,
         cc_keySize = 0, cc_lastCheck = 0\<rparr> of
        (Some e, _) \<Rightarrow> Inl e
      | (None, c) \<Rightarrow> Inr c)"

text \<open>
  \<open>GetCertificate\<close>, with the times of its two clock readings (at its start, and inside a reload)
  and the file system at each of its three looks.
\<close>

definition GetCertificate ::
  "'c certFiles \<Rightarrow> 'c certFiles \<Rightarrow> 'c certFiles \<Rightarrow> int \<Rightarrow> int \<Rightarrow> 'c certificateCache \<Rightarrow> 'c \<times> 'c certificateCache" where
  "GetCertificate look before after now later c =
     (let c = (if now - cc_lastCheck c < cc_checkInterval c then c
               else (case changedLocked look c of
                   Inl _ \<Rightarrow> c\<lparr>cc_lastCheck := now\<rparr>
                 | Inr True \<Rightarrow> (case reloadLocked before after later c of
                       (Some _, c) \<Rightarrow> c\<lparr>cc_lastCheck := now\<rparr> | (None, c) \<Rightarrow> c)
                 | Inr False \<Rightarrow> c\<lparr>cc_lastCheck := now\<rparr>))
      in (cc_cert c, c))"

section \<open>Listening\<close>

datatype obfsKind = Plain | Salamander | UnknownObfs

definition obfsOf :: "string \<Rightarrow> obfsKind" where
  "obfsOf s =
     (let s = toLower s in
      if s = [] \<or> s = ''plain'' then Plain else if s = ''salamander'' then Salamander else UnknownObfs)"

text \<open>
  The listening socket as a value: whether it was opened and is still open. \<open>resolveErr\<close>, \<open>listenErr\<close>
  and \<open>wrapErr\<close> are the results of the socket and obfuscation libraries.
\<close>

datatype socket = NoSocket | OpenSocket string | ClosedSocket

record connEnv =
  resolveErr :: "string \<Rightarrow> goerr option"
  listenErr :: "string \<Rightarrow> goerr option"
  wrapErr :: "string \<Rightarrow> goerr option"

definition listenAddress :: "NodeInfo \<Rightarrow> string" where
  "listenAddress i =
     (case info_Common i of
        None \<Rightarrow> formatAddress [] 0
      | Some cm \<Rightarrow> formatAddress (normalizeListenIP (cm_ListenIP cm)) (cm_ServerPort cm))"

definition getConn :: "connEnv \<Rightarrow> NodeInfo \<Rightarrow> (goerr + unit) \<times> socket" where
  "getConn env i =
     (let addr = listenAddress i;
          obfs = (case info_Common i of None \<Rightarrow> [] | Some cm \<Rightarrow> cm_Obfs cm);
          password = (case info_Common i of None \<Rightarrow> [] | Some cm \<Rightarrow> cm_ObfsPassword cm) in
      case resolveErr env addr of
        Some e \<Rightarrow> (Inl e, NoSocket)
      | None \<Rightarrow>
          (case listenErr env addr of
             Some e \<Rightarrow> (Inl e, NoSocket)
           | None \<Rightarrow>
               (case obfsOf obfs of
                  Plain \<Rightarrow> (Inr (), OpenSocket addr)
                | Salamander \<Rightarrow>
                    (case wrapErr env password of Some e \<Rightarrow> (Inl e, ClosedSocket) | None \<Rightarrow> (Inr (), OpenSocket addr))
                | UnknownObfs \<Rightarrow> (Inl (Err (''unsupported hysteria2 obfs type: '' @ obfs)), ClosedSocket))))"

section \<open>Bandwidth\<close>

definition megabyteSize :: int where
  "megabyteSize = 1000 * 1000"

record BandwidthConfig =
  bw_MaxTx :: u64
  bw_MaxRx :: u64
  bw_Force :: bool

definition mbpsToBytes :: "int \<Rightarrow> u64" where
  "mbpsToBytes mbps = word_of_int (godiv (wrap64 (mbps * megabyteSize)) 8)"

definition getBandwidthConfig :: "NodeInfo \<Rightarrow> BandwidthConfig" where
  "getBandwidthConfig i =
     (case info_Common i of
        None \<Rightarrow> \<lparr>bw_MaxTx = 0, bw_MaxRx = 0, bw_Force = True\<rparr>
      | Some cm \<Rightarrow>
          \<lparr>bw_MaxTx = (if cm_UpMbps cm \<noteq> 0 then mbpsToBytes (cm_UpMbps cm) else 0),
           bw_MaxRx = (if cm_DownMbps cm \<noteq> 0 then mbpsToBytes (cm_DownMbps cm) else 0), bw_Force = True\<rparr>)"

section \<open>Unlock rules\<close>

record SOCKSConfig =
  socks_Tag :: string
  socks_Address :: string
  socks_Port :: int
  socks_Username :: string
  socks_Password :: string

record UnlockConfig =
  unlock_Enable :: bool
  unlock_DefaultOutbound :: string
  unlock_SOCKS :: "SOCKSConfig list"
  unlock_Rules :: "string list"
  unlock_RuleSets :: "(string, string list) gomap"

datatype outboundKind = Direct | Socks5 string string string

type_synonym outboundEntry = "string \<times> outboundKind"

definition socksTag :: "SOCKSConfig \<Rightarrow> string" where
  "socksTag s = toLower (trimSpace (socks_Tag s))"

definition usableSocks :: "SOCKSConfig \<Rightarrow> bool" where
  "usableSocks s \<longleftrightarrow> \<not> (socksTag s = [] \<or> socks_Address s = [] \<or> socks_Port s \<le> 0)"

definition socksEntry :: "SOCKSConfig \<Rightarrow> outboundEntry" where
  "socksEntry s = (socksTag s, Socks5 (formatAddress (socks_Address s) (socks_Port s)) (socks_Username s) (socks_Password s))"

definition getUnlockOutbounds :: "UnlockConfig \<Rightarrow> string \<times> outboundEntry list" where
  "getUnlockOutbounds u =
     (let socks = filter usableSocks (unlock_SOCKS u);
          entries = [(''direct'', Direct), (''default'', Direct)] @ map socksEntry socks;
          target = toLower (trimSpace (unlock_DefaultOutbound u)) in
      case socks of
        [] \<Rightarrow> ([], entries)
      | s # _ \<Rightarrow>
          (let target = (if target = [] then socksTag s else target) in
           if list_ex (\<lambda>e. toLower (fst e) = toLower target \<and> target \<noteq> ''direct'' \<and> target \<noteq> ''default'') entries
           then (target, entries) else (socksTag s, entries)))"

text \<open>\<open>net.ParseIP\<close> of a text without colons: four decimal numbers below 256 without leading zeros.\<close>

definition octetOk :: "string \<Rightarrow> bool" where
  "octetOk s \<longleftrightarrow> length s \<le> 3 \<and> (case parseNat s of None \<Rightarrow> False | Some n \<Rightarrow> n < 256 \<and> (length s > 1 \<longrightarrow> hd s \<noteq> CHR ''0''))"

definition isIPv4 :: "string \<Rightarrow> bool" where
  "isIPv4 s \<longleftrightarrow> length (splitOn (CHR ''.'') s) = 4 \<and> list_all octetOk (splitOn (CHR ''.'') s)"

definition aclRuleLine :: "string \<Rightarrow> string \<Rightarrow> string" where
  "aclRuleLine outbound v =
     (let outbound = toLower (trimSpace outbound); v = trimSpace v in
      if outbound = [] \<or> v = [] then []
      else if contains v ''('' \<and> suffix '')'' v then v
      else outbound @ ''('' @
        (if \<not> contains v '':'' \<and> \<not> contains v ''/'' \<and> \<not> isIPv4 v then ''suffix:'' @ trimPrefix v ''.'' else v) @ '')'')"

definition defaultUnlockDomains :: "string list" where
  "defaultUnlockDomains =
     [''netflix.com'', ''netflix.net'', ''nflxext.com'', ''nflximg.net'', ''nflxso.net'', ''nflxvideo.net'', ''disneyplus.com'',
      ''disney-plus.net'', ''dssott.com'', ''bamgrid.com'', ''max.com'', ''hbomax.com'', ''hbomaxcdn.com'', ''hulu.com'',
      ''huluim.com'', ''primevideo.com'', ''amazonvideo.com'', ''media-amazon.com'', ''tv.apple.com'', ''itunes.apple.com'']"

text \<open>The lines in the order in which the map of rule sets is traversed.\<close>

definition ruleLines :: "string \<Rightarrow> string list \<Rightarrow> string list" where
  "ruleLines outbound rules = filter (\<lambda>l. l \<noteq> []) (map (aclRuleLine outbound) rules)"

definition getUnlockRules :: "UnlockConfig \<Rightarrow> string \<Rightarrow> string" where
  "getUnlockRules u defaultOutbound =
     (let sets = concat (map (\<lambda>(tag, rules).
            let outbound = toLower (trimSpace tag) in
            ruleLines (if outbound = [] then defaultOutbound else outbound) rules) (unlock_RuleSets u));
          ls = sets @ ruleLines defaultOutbound (unlock_Rules u);
          ls = (if ls = [] then ruleLines defaultOutbound defaultUnlockDomains else ls)
      in joinWith [CHR 0x0A] ls)"

datatype outbound = DefaultOutbound | DirectOutbound | AclOutbound string "outboundEntry list"

definition getOutboundConfig :: "(string \<Rightarrow> outboundEntry list \<Rightarrow> goerr option) \<Rightarrow> UnlockConfig option \<Rightarrow> goerr + outbound" where
  "getOutboundConfig aclErr unlock =
     (case unlock of
        None \<Rightarrow> Inr DefaultOutbound
      | Some u \<Rightarrow>
          (if \<not> unlock_Enable u \<or> unlock_SOCKS u = [] then Inr DefaultOutbound
           else (case getUnlockOutbounds u of
               (tag, entries) \<Rightarrow>
                 (if tag = [] then Inr DirectOutbound
                  else (let rules = getUnlockRules u tag in
                        if rules = [] then Inr DirectOutbound
                        else (case aclErr rules entries of
                            Some e \<Rightarrow> Inl (Wrap ''build unlock acl'' e)
                          | None \<Rightarrow> Inr (AclOutbound rules entries)))))))"

section \<open>The masquerade site\<close>

definition masqSiteByPort :: "int \<Rightarrow> string" where
  "masqSiteByPort port =
     (if port = 51801 then ''gm'' else if port = 51802 then ''nnm'' else if port = 51803 then ''ovo''
      else if port = 51804 then ''yiyuan'' else if port = 51805 then ''clash'' else if port = 51806 then ''pianyi'' else [])"

definition masqSiteByName :: "string \<Rightarrow> string" where
  "masqSiteByName name =
     (let name = trimSuffix (trimSpace (toLower name)) ''.'' in
      if name = [] then []
      else (let label = hd (splitOn (CHR ''.'') name) in
        if label \<in> {''gm'', ''nnm'', ''ovo'', ''yiyuan'', ''clash'', ''pianyi''} then label
        else (case parseInt64 label of Some port \<Rightarrow> masqSiteByPort port | None \<Rightarrow> [])))"

definition masqSite :: "NodeInfo option \<Rightarrow> string" where
  "masqSite info =
     (case Option.bind info info_Common of
        None \<Rightarrow> []
      | Some cm \<Rightarrow>
          (let name = (case cm_CertInfo cm of None \<Rightarrow> [] | Some ci \<Rightarrow> toLower (cert_CertDomain ci));
               name = (if name = [] then toLower (PrimaryServerName (cm_TlsSettings cm)) else name);
               site = masqSiteByName name in
           if site \<noteq> [] then site else masqSiteByPort (cm_ServerPort cm)))"

text \<open>\<open>html.EscapeString\<close>.\<close>

definition escapeChar :: "char \<Rightarrow> string" where
  "escapeChar c =
     (if c = CHR ''&'' then ''&amp;'' else if c = CHR 0x27 then ''&#39;'' else if c = CHR ''<'' then ''&lt;''
      else if c = CHR ''>'' then ''&gt;'' else if c = CHR 0x22 then ''&#34;'' else [c])"

record staticMasqHandler =
  masq_site :: string
  masq_content :: string
  masq_contentType :: string

definition quoteChar :: string where
  "quoteChar = [CHR 0x22]"

definition defaultMasqHandler :: "string \<Rightarrow> staticMasqHandler" where
  "defaultMasqHandler site =
     \<lparr>masq_site = site,
      masq_content = ''<!doctype html><html><head><meta charset='' @ quoteChar @ ''utf-8'' @ quoteChar @ ''><meta name='' @
        quoteChar @ ''viewport'' @ quoteChar @ '' content='' @ quoteChar @ ''width=device-width,initial-scale=1'' @ quoteChar @
        ''><title>'' @ concat (map escapeChar site) @ ''</title></head><body></body></html>'',
      masq_contentType = ''text/html; charset=utf-8''\<rparr>"

text \<open>The page of the site is read from \<open>/etc/v2node/masq\<close>; \<open>readFile\<close> is the file system.\<close>

definition getStaticMasqHandler :: "(string \<Rightarrow> string option) \<Rightarrow> NodeInfo option \<Rightarrow> staticMasqHandler" where
  "getStaticMasqHandler readFile info =
     (let site = masqSite info in
      if site = [] then defaultMasqHandler ''v2node''
      else (case readFile (''/etc/v2node/masq/'' @ site @ ''/index.html'') of
          None \<Rightarrow> defaultMasqHandler site
        | Some content \<Rightarrow>
            (if content = [] then defaultMasqHandler site
             else \<lparr>masq_site = site, masq_content = content, masq_contentType = ''text/html; charset=utf-8''\<rparr>)))"

text \<open>Status, headers and body; \<open>http.NotFound\<close> answers the other paths.\<close>

definition serveMasq :: "staticMasqHandler \<Rightarrow> string \<Rightarrow> int \<times> (string \<times> string) list \<times> string" where
  "serveMasq h path =
     (if path \<noteq> ''/'' \<and> path \<noteq> ''/index.html''
      then (404, [(''Content-Type'', ''text/plain; charset=utf-8''), (''X-Content-Type-Options'', ''nosniff'')],
            ''404 page not found'' @ [CHR 0x0A])
      else (200, [(''Content-Type'', masq_contentType h), (''Cache-Control'', ''public, max-age=300''), (''X-Robots-Tag'', ''noindex'')],
            masq_content h))"

section \<open>Building a server\<close>

record QUICConfig =
  q_streamWindow :: int
  q_connWindow :: int
  q_maxIdle :: int
  q_maxStreams :: int

definition getQUICConfig :: QUICConfig where
  "getQUICConfig =
     \<lparr>q_streamWindow = 8388608, q_connWindow = 8388608 * 5 div 2, q_maxIdle = 30 * second, q_maxStreams = 1024\<rparr>"

record 'c serverConfig =
  sc_Cert :: "'c certificateCache"
  sc_QUIC :: QUICConfig
  sc_Outbound :: outbound
  sc_Bandwidth :: BandwidthConfig
  sc_IgnoreClient :: bool
  sc_UDPIdle :: int
  sc_Masq :: staticMasqHandler

record 'c buildEnv =
  be_zero :: 'c
  be_files :: "string \<Rightarrow> string \<Rightarrow> 'c certFiles"
  be_now :: int
  be_conn :: connEnv
  be_acl :: "string \<Rightarrow> outboundEntry list \<Rightarrow> goerr option"
  be_read :: "string \<Rightarrow> string option"
  be_server :: "'c serverConfig \<Rightarrow> goerr option"

definition getTLSConfig :: "'c buildEnv \<Rightarrow> NodeInfo \<Rightarrow> goerr + 'c certificateCache" where
  "getTLSConfig be i =
     (case Option.bind (info_Common i) cm_CertInfo of
        None \<Rightarrow> Inl (Err ''hysteria2 cert info is empty'')
      | Some ci \<Rightarrow>
          (if cert_CertMode ci = ''none'' \<or> cert_CertMode ci = [] then Inl (Err ''hysteria2 cert mode cannot be none'')
           else (let fs = be_files be (cert_CertFile ci) (cert_KeyFile ci) in
                 newCertificateCache (be_zero be) fs fs defaultCertCheckInterval (be_now be))))"

text \<open>\<open>buildConfig\<close>: the socket is opened last, after every other step that can fail.\<close>

definition buildConfig :: "'c buildEnv \<Rightarrow> UnlockConfig option \<Rightarrow> NodeInfo \<Rightarrow> (goerr + 'c serverConfig) \<times> socket" where
  "buildConfig be unlock i =
     (case getTLSConfig be i of
        Inl e \<Rightarrow> (Inl e, NoSocket)
      | Inr cert \<Rightarrow>
          (case getOutboundConfig (be_acl be) unlock of
             Inl e \<Rightarrow> (Inl e, NoSocket)
           | Inr out \<Rightarrow>
               (case getConn (be_conn be) i of
                  (Inl e, s) \<Rightarrow> (Inl e, s)
                | (Inr _, s) \<Rightarrow>
                    (Inr \<lparr>sc_Cert = cert, sc_QUIC = getQUICConfig, sc_Outbound = out, sc_Bandwidth = getBandwidthConfig i,
                          sc_IgnoreClient = (case info_Common i of None \<Rightarrow> False | Some cm \<Rightarrow> cm_Ignore_Client_Bandwidth cm),
                          sc_UDPIdle = 60 * second, sc_Masq = getStaticMasqHandler (be_read be) (Some i)\<rparr>, s))))"

definition newServer :: "'c buildEnv \<Rightarrow> UnlockConfig option \<Rightarrow> NodeInfo \<Rightarrow> (goerr + 'c serverConfig) \<times> socket" where
  "newServer be unlock i =
     (case buildConfig be unlock i of
        (Inl e, s) \<Rightarrow> (Inl e, s)
      | (Inr cfg, s) \<Rightarrow> (case be_server be cfg of Some e \<Rightarrow> (Inl e, ClosedSocket) | None \<Rightarrow> (Inr cfg, s)))"

section \<open>Properties\<close>

lemma getConn_socket:
  assumes "getConn env i = (r, s)"
  shows "(r = Inr () \<and> s = OpenSocket (listenAddress i)) \<or> ((\<exists>e. r = Inl e) \<and> s \<in> {NoSocket, ClosedSocket})"
  using assms by (auto simp: getConn_def Let_def split: option.splits obfsKind.splits)

text \<open>C34: Building a server leaks no socket and never opens a port without a certificate. If any step of
  the construction fails, no socket is left open; if it succeeds, the socket listens on the
  configured address, and the certificate it presents was loaded from the node's files.\<close>

theorem newServer_no_leak:
  assumes "newServer be unlock i = (r, s)"
  shows "case r of
      Inl e \<Rightarrow> s = NoSocket \<or> s = ClosedSocket
    | Inr cfg \<Rightarrow> s = OpenSocket (listenAddress i) \<and>
        (\<exists>cm ci. info_Common i = Some cm \<and> cm_CertInfo cm = Some ci \<and> cert_CertMode ci \<notin> {[], ''none''} \<and>
           loadPair (be_files be (cert_CertFile ci) (cert_KeyFile ci)) = Inr (cc_cert (sc_Cert cfg)))"
proof -
  have "case r of Inl e \<Rightarrow> s = NoSocket \<or> s = ClosedSocket
      | Inr cfg \<Rightarrow> s = OpenSocket (listenAddress i) \<and> getTLSConfig be i = Inr (sc_Cert cfg)"
    using assms getConn_socket [of "be_conn be" i]
    by (auto simp: newServer_def buildConfig_def split: sum.splits prod.splits option.splits)
  moreover have "\<exists>cm ci. info_Common i = Some cm \<and> cm_CertInfo cm = Some ci \<and> cert_CertMode ci \<notin> {[], ''none''} \<and>
      loadPair (be_files be (cert_CertFile ci) (cert_KeyFile ci)) = Inr (cc_cert c)"
    if "getTLSConfig be i = Inr c" for c
    using that
    by (auto simp: getTLSConfig_def newCertificateCache_def reloadLocked_def Let_def bind_eq_Some_conv
        split: option.splits if_splits sum.splits prod.splits)
  ultimately show ?thesis by (cases r) auto
qed

text \<open>What a look at the files sees of a loaded pair.\<close>

definition stamped :: "'c certFiles \<Rightarrow> 'c certificateCache \<Rightarrow> bool" where
  "stamped fs c \<longleftrightarrow>
     (case (statCert fs, statKey fs) of
        (Inr cs, Inr ks) \<Rightarrow> st_ModTime cs = cc_certModTime c \<and> st_ModTime ks = cc_keyModTime c \<and>
          st_Size cs = cc_certSize c \<and> st_Size ks = cc_keySize c
      | _ \<Rightarrow> False)"

definition readable :: "'c certFiles \<Rightarrow> bool" where
  "readable fs \<longleftrightarrow> \<not> isl (loadPair fs) \<and> \<not> isl (statCert fs) \<and> \<not> isl (statKey fs)"

lemma readableE:
  assumes "readable fs"
  obtains x cs ks where "loadPair fs = Inr x" "statCert fs = Inr cs" "statKey fs = Inr ks"
  using assms unfolding readable_def by (metis sum.collapse(2))


definition laterChecks :: "'c certFiles \<Rightarrow> (int \<times> int) list \<Rightarrow> 'c certificateCache \<Rightarrow> 'c certificateCache" where
  "laterChecks fs = fold (\<lambda>(now, later) c. snd (GetCertificate fs fs fs now later c))"

lemma check_unchanged:
  assumes "stamped fs c"
  shows "cc_cert (snd (GetCertificate fs b a now later c)) = cc_cert c \<and> stamped fs (snd (GetCertificate fs b a now later c)) \<and>
    fst (GetCertificate fs b a now later c) = cc_cert c"
proof -
  have "changedLocked fs c = Inr False" using assms by (auto simp: changedLocked_def stamped_def split: sum.splits)
  then have "GetCertificate fs b a now later c =
      (cc_cert c, if now - cc_lastCheck c < cc_checkInterval c then c else c\<lparr>cc_lastCheck := now\<rparr>)"
    by (simp add: GetCertificate_def)
  moreover have "stamped fs (c\<lparr>cc_lastCheck := now\<rparr>)" using assms by (auto simp: stamped_def split: sum.splits)
  ultimately show ?thesis using assms by simp
qed

text \<open>A certificate that is replaced during a reload is missed. If the files change between the load of
  the pair and the two looks at their stamps, the cache holds the old certificate with the stamps
  of the new one: as long as the files stay, every later call returns the old certificate.\<close>

theorem certificate_race_keeps_old:
  assumes "cc_checkInterval c \<le> now - cc_lastCheck c" "changedLocked look c = Inr True"
    and "loadPair before = Inr old" "readable after" "GetCertificate look before after now later c = (x, c')"
  shows "x = old \<and> fst (GetCertificate after after after t t' (laterChecks after ts c')) = old"
proof -
  obtain y cs ks where y: "loadPair after = Inr y" "statCert after = Inr cs" "statKey after = Inr ks" using assms(4) by (rule readableE)
  have c': "stamped after c'" "cc_cert c' = old" "x = old"
    using assms y by (auto simp: GetCertificate_def reloadLocked_def stamped_def)
  have "stamped after (laterChecks after ts c) \<and> cc_cert (laterChecks after ts c) = cc_cert c" if "stamped after c" for c
    using that
  proof (induction ts arbitrary: c)
    case (Cons w ts)
    obtain n l where w: "w = (n, l)" by fastforce
    from check_unchanged [OF Cons.prems, of after after n l] Cons.IH w show ?case by (simp add: laterChecks_def)
  qed (simp add: laterChecks_def)
  with c' check_unchanged show ?thesis by metis
qed

text \<open>Two generations of certificate files.\<close>

definition oldFiles :: "nat certFiles" where
  "oldFiles = \<lparr>loadPair = Inr 1, statCert = Inr \<lparr>st_ModTime = 100, st_Size = 10\<rparr>, statKey = Inr \<lparr>st_ModTime = 100, st_Size = 5\<rparr>\<rparr>"

definition newFiles :: "nat certFiles" where
  "newFiles = \<lparr>loadPair = Inr 2, statCert = Inr \<lparr>st_ModTime = 200, st_Size = 10\<rparr>, statKey = Inr \<lparr>st_ModTime = 200, st_Size = 5\<rparr>\<rparr>"

definition demoCache :: "nat certificateCache" where
  "demoCache = \<lparr>cc_checkInterval = 5 * second, cc_cert = 1, cc_certModTime = 50, cc_keyModTime = 50, cc_certSize = 10,
     cc_keySize = 5, cc_lastCheck = 0\<rparr>"

lemmas demo_files = oldFiles_def newFiles_def demoCache_def


theorem certificate_race_keeps_old_witness:
  "loadPair newFiles = Inr 2 \<and> fst (GetCertificate newFiles newFiles newFiles (4 * 10 ^ 10) (4 * 10 ^ 10)
     (laterChecks newFiles [(2 * 10 ^ 10, 2 * 10 ^ 10), (3 * 10 ^ 10, 3 * 10 ^ 10)]
       (snd (GetCertificate oldFiles oldFiles newFiles (10 ^ 10) (10 ^ 10) demoCache)))) = 1"
  using certificate_race_keeps_old [of demoCache "10 ^ 10" oldFiles oldFiles 1 newFiles "10 ^ 10"
      "fst (GetCertificate oldFiles oldFiles newFiles (10 ^ 10) (10 ^ 10) demoCache)"
      "snd (GetCertificate oldFiles oldFiles newFiles (10 ^ 10) (10 ^ 10) demoCache)"]
  by (simp add: demo_files changedLocked_def readable_def)

definition demoBuild :: "nat buildEnv" where
  "demoBuild = \<lparr>be_zero = 0, be_files = (\<lambda>_ _. oldFiles), be_now = 0,
     be_conn = \<lparr>resolveErr = (\<lambda>_. None), listenErr = (\<lambda>_. None), wrapErr = (\<lambda>_. None)\<rparr>,
     be_acl = (\<lambda>_ _. None), be_read = (\<lambda>_. None), be_server = (\<lambda>_. None)\<rparr>"

definition demoNode :: NodeInfo where
  "demoNode = \<lparr>info_etag = [], info_bodyHash = [], info_Id = 1, info_Type = ''hysteria2'', info_Security = 1,
     info_PushInterval = 60 * second, info_PullInterval = 60 * second, info_Tag = ''t'',
     info_Common = Some (demoCommon\<lparr>cm_CertInfo := Some (certInfo demoCommon 1)\<rparr>)\<rparr>"

lemma demo_builds: "\<exists>cfg s. newServer demoBuild None demoNode = (Inr cfg, s)"
  by (simp add: newServer_def buildConfig_def getTLSConfig_def demoBuild_def demoNode_def certInfo_def Let_def demoCommon_def demoTls_def
      zeroTls_def newCertificateCache_def reloadLocked_def oldFiles_def getOutboundConfig_def getConn_def obfsOf_def toLower_def)

theorem newServer_no_leak_witness:
  "\<exists>cfg. newServer demoBuild None demoNode = (Inr cfg, OpenSocket (listenAddress demoNode)) \<and>
     Inr (cc_cert (sc_Cert cfg)) = loadPair oldFiles"
proof -
  obtain cfg s where cfg: "newServer demoBuild None demoNode = (Inr cfg, s)" using demo_builds by blast
  from newServer_no_leak [OF cfg] have "loadPair oldFiles = Inr (cc_cert (sc_Cert cfg)) \<and> s = OpenSocket (listenAddress demoNode)"
    by (auto simp: demoBuild_def)
  with cfg show ?thesis by auto
qed

section \<open>Bandwidth and unlock rules\<close>

text \<open>The configured rate in bytes per second, exact for every rate that the arithmetic can hold.\<close>

lemma bandwidth_exact:
  assumes "0 \<le> mbps" "mbps * 1000000 < 2 ^ 63"
  shows "uint (mbpsToBytes mbps) = mbps * 125000"
proof -
  have "wrap64 (mbps * megabyteSize) = mbps * 1000000" using assms by (simp add: megabyteSize_def in_int64_def)
  then have "mbpsToBytes mbps = word_of_int (mbps * 125000)" using assms(1) by (simp add: mbpsToBytes_def godiv_def)
  moreover have "take_bit 64 (mbps * 125000) = mbps * 125000" using assms by (intro take_bit_int_eq_self) simp_all
  ultimately show ?thesis by (simp only: uint_word_of_int_eq) simp
qed

text \<open>The chosen outbound is one of the usable SOCKS servers, so traffic of the rules has a proxy to go to.\<close>

lemma socksTag_lower [simp]: "toLower (socksTag s) = socksTag s"
  by (simp add: socksTag_def)

lemma unlock_outbound_exists:
  assumes "getUnlockOutbounds u = (tag, entries)" "tag \<noteq> []"
  shows "\<exists>s\<in>set (unlock_SOCKS u). usableSocks s \<and> socksTag s = tag \<and> socksEntry s \<in> set entries"
proof (cases "filter usableSocks (unlock_SOCKS u)")
  case Nil
  with assms show ?thesis by (simp add: getUnlockOutbounds_def)
next
  case (Cons s ss)
  have e: "entries = [(''direct'', Direct), (''default'', Direct)] @ map socksEntry (s # ss)"
    using assms(1) Cons by (simp add: getUnlockOutbounds_def Let_def split: if_splits)
  have in_list: "s' \<in> set (unlock_SOCKS u) \<and> usableSocks s' \<and> socksEntry s' \<in> set entries" if "s' \<in> set (s # ss)" for s'
    using that e unfolding Cons [symmetric] by auto
  define target where "target = (if toLower (trimSpace (unlock_DefaultOutbound u)) = [] then socksTag s
    else toLower (trimSpace (unlock_DefaultOutbound u)))"
  have low: "toLower target = target" by (simp add: target_def)
  have "tag = socksTag s \<or> tag = target \<and> (\<exists>e\<in>set entries. toLower (fst e) = target \<and> target \<noteq> ''direct'' \<and> target \<noteq> ''default'')"
    using assms(1) Cons e low by (auto simp: getUnlockOutbounds_def Let_def target_def list_ex_iff split: if_splits)
  then show ?thesis
  proof
    assume "tag = socksTag s"
    with in_list [of s] show ?thesis by auto
  next
    assume "tag = target \<and> (\<exists>e\<in>set entries. toLower (fst e) = target \<and> target \<noteq> ''direct'' \<and> target \<noteq> ''default'')"
    then obtain s' where "s' \<in> set (s # ss)" "socksTag s' = tag"
      unfolding e by (auto simp: toLower_def lowerChar_def socksEntry_def) (metis socksTag_lower toLower_def)+
    with in_list show ?thesis by blast
  qed
qed

end
