(* ===== verification/Process.thy ===== *)
theory Process
  imports Node_Info State_Machine
begin

text \<open>
  The process around the nodes: configuration (\<open>conf/conf.go\<close>, \<open>conf/watch.go\<close>), the checks of
  \<open>panel.New\<close>, the node manager (\<open>node/node.go\<close>), the core's life (\<open>core/core.go\<close>) and the main loop
  with reload and rollback (\<open>cmd/server.go\<close>). A controller is seen from outside here: whether it
  was launched and whether its \<open>Close\<close> has returned without an error. Pointers to configurations,
  managers and cores are indices. Files, URLs, the panel's answers, the clock and the outcome of
  closing a controller or a core are arguments.
\<close>

section \<open>Configuration\<close>

record NodeConfig =
  nc_StateDirectory :: string
  nc_APIHost :: string
  nc_NodeID :: int
  nc_Key :: string
  nc_Timeout :: int
  nc_RetryCount :: "int option"

record Conf =
  cf_LogLevel :: string
  cf_LogOutput :: string
  cf_NodeConfigs :: "NodeConfig list"
  cf_PprofPort :: int

definition newConf :: Conf where
  "newConf = \<lparr>cf_LogLevel = ''info'', cf_LogOutput = [], cf_NodeConfigs = [], cf_PprofPort = 0\<rparr>"

definition DefaultNodeRetryCount :: int where
  "DefaultNodeRetryCount = 1"

text \<open>
  \<open>LoadFromPath\<close> on a configuration: opening and reading the file fail without an effect; decoding
  overwrites the fields it finds, also when it ends with an error. \<open>decoded\<close> is the configuration
  after decoding.
\<close>

datatype confFile = OpenError goerr | ReadError goerr | Decoded Conf "goerr option"

definition defaultRetry :: "NodeConfig \<Rightarrow> NodeConfig" where
  "defaultRetry n = (case nc_RetryCount n of None \<Rightarrow> n\<lparr>nc_RetryCount := Some DefaultNodeRetryCount\<rparr> | Some _ \<Rightarrow> n)"

definition LoadFromPath :: "confFile \<Rightarrow> Conf \<Rightarrow> (goerr + unit) \<times> Conf" where
  "LoadFromPath f c =
     (case f of
        OpenError e \<Rightarrow> (Inl (Wrap ''open config file error'' e), c)
      | ReadError e \<Rightarrow> (Inl (Wrap ''read config file error'' e), c)
      | Decoded d (Some e) \<Rightarrow> (Inl (Wrap ''unmarshal config error'' e), d)
      | Decoded d None \<Rightarrow> (Inr (), d\<lparr>cf_NodeConfigs := map defaultRetry (cf_NodeConfigs d)\<rparr>))"

subsection \<open>Watching the file\<close>

text \<open>
  The watcher as a function of the events it receives (their times in nanoseconds, and whether they
  are a change of mode): the times at which it reads the file. \<open>pre\<close> is the time of the last event
  that was not ignored, long ago at first.
\<close>

definition watchDebounce :: int where
  "watchDebounce = 10 * second"

definition watchDelay :: int where
  "watchDelay = 5 * second"

fun watchReads :: "int option \<Rightarrow> (int \<times> bool) list \<Rightarrow> int list" where
  "watchReads pre [] = []"
| "watchReads pre ((t, chmod) # es) =
     (if chmod then watchReads pre es
      else (case pre of
          Some p \<Rightarrow> (if p + watchDebounce > t then watchReads pre es else (t + watchDelay) # watchReads (Some t) es)
        | None \<Rightarrow> (t + watchDelay) # watchReads (Some t) es))"

text \<open>A read replaces the watched configuration in place, and asks for a reload when it succeeds.\<close>

definition watchRead :: "confFile \<Rightarrow> Conf \<Rightarrow> bool \<times> Conf" where
  "watchRead f c = (case LoadFromPath f newConf of (Inl _, d) \<Rightarrow> (False, d) | (Inr _, d) \<Rightarrow> (True, d))"

section \<open>The panel client's checks\<close>

record url =
  u_Scheme :: string
  u_Host :: string
  u_Loopback :: bool
  u_User :: bool
  u_RawQuery :: string
  u_Fragment :: string
  u_Path :: string

definition panelNew :: "(string \<Rightarrow> url option) \<Rightarrow> NodeConfig \<Rightarrow> goerr + (string \<times> int)" where
  "panelNew parse c =
     (case parse (nc_APIHost c) of
        None \<Rightarrow> Inl (Err ''invalid panel ApiHost'')
      | Some u \<Rightarrow>
          (let loopbackHTTP = (u_Scheme u = ''http'' \<and> u_Loopback u) in
           if (\<not> loopbackHTTP \<and> u_Scheme u \<noteq> ''https'') \<or> u_Host u = [] \<or> u_User u \<or> u_RawQuery u \<noteq> [] \<or> u_Fragment u \<noteq> [] \<or>
              (u_Path u \<noteq> [] \<and> u_Path u \<noteq> ''/'')
           then Inl (Err ''panel ApiHost must be an HTTPS origin without credentials or query'')
           else if nc_NodeID c < 1 \<or> nc_Key c = [] then Inl (Err ''panel NodeID and ApiKey are required'')
           else Inr (trimRightChar (nc_APIHost c) (CHR ''/'') @ '':'' @ itoa (nc_NodeID c),
                     if nc_Timeout c \<le> 0 then 15 * second else wrap64 (nc_Timeout c * second))))"

section \<open>The node manager\<close>

record nodeCtl =
  nl_conf :: NodeConfig
  nl_info :: "NodeInfo option"
  nl_launched :: bool
  nl_settled :: bool

record nodeMgr =
  nm_controllers :: "nodeCtl list"
  nm_configs :: "NodeConfig list"
  nm_closed :: bool
  nm_started :: bool

record newEnv =
  ne_parse :: "string \<Rightarrow> url option"
  ne_info :: "NodeConfig \<Rightarrow> goerr + NodeInfo option"

definition nodeNew :: "newEnv \<Rightarrow> NodeConfig list \<Rightarrow> goerr + nodeMgr" where
  "nodeNew ne cfgs =
     (let good = filter (\<lambda>c. \<not> isl (panelNew (ne_parse ne) c)) cfgs;
          ctl = map (\<lambda>c. \<lparr>nl_conf = c, nl_info = (case ne_info ne c of Inl _ \<Rightarrow> None | Inr i \<Rightarrow> i),
                          nl_launched = False, nl_settled = False\<rparr>) good in
      if good = [] then Inl (Err ''no valid node controller'')
      else Inr \<lparr>nm_controllers = ctl, nm_configs = good, nm_closed = False, nm_started = False\<rparr>)"

definition nodeStart :: "NodeConfig list \<Rightarrow> nodeMgr \<Rightarrow> (goerr + unit) \<times> nodeMgr" where
  "nodeStart cfgs m =
     (if nm_closed m then (Inl (Err ''node manager closed''), m)
      else if nm_started m then (Inr (), m)
      else (Inr (), m\<lparr>nm_started := True, nm_configs := (if nm_configs m = [] then cfgs else nm_configs m),
                      nm_controllers := map (\<lambda>c. c\<lparr>nl_launched := True\<rparr>) (nm_controllers m)\<rparr>))"

text \<open>\<open>Close\<close>: whether the start goroutines end in time, and the result of each controller's \<open>Close\<close>.\<close>

record closeRun =
  cr_joined :: bool
  cr_err :: "NodeConfig \<Rightarrow> goerr option"

fun closeControllers :: "closeRun \<Rightarrow> nodeCtl list \<Rightarrow> goerr option \<times> nodeCtl list" where
  "closeControllers cr [] = (None, [])"
| "closeControllers cr (c # cs) =
     (case (if nl_settled c then None else cr_err cr (nl_conf c)) of
        Some e \<Rightarrow> (Some e, c # cs)
      | None \<Rightarrow> (case closeControllers cr cs of (r, cs') \<Rightarrow> (r, c\<lparr>nl_settled := True\<rparr> # cs')))"

definition nodeClose :: "closeRun \<Rightarrow> nodeMgr \<Rightarrow> (goerr + unit) \<times> nodeMgr" where
  "nodeClose cr m =
     (let m = m\<lparr>nm_closed := True\<rparr> in
      if \<not> cr_joined cr then (Inl (Err ''node startup did not stop; core retained''), m)
      else (case closeControllers cr (nm_controllers m) of
          (Some e, cs) \<Rightarrow> (Inl e, m\<lparr>nm_controllers := cs\<rparr>)
        | (None, cs) \<Rightarrow> (Inr (), m\<lparr>nm_controllers := []\<rparr>)))"

section \<open>The core's life\<close>

record coreLife =
  co_Config :: "nat option"
  co_open :: bool

definition coreNew :: "nat \<Rightarrow> coreLife" where
  "coreNew conf = \<lparr>co_Config = Some conf, co_open = True\<rparr>"

definition coreStart :: "coreLife \<Rightarrow> (goerr + unit) \<times> coreLife" where
  "coreStart c = (Inr (), c)"

definition coreClose :: "goerr option \<Rightarrow> coreLife \<Rightarrow> (goerr + unit) \<times> coreLife" where
  "coreClose err c =
     (let c = c\<lparr>co_Config := None\<rparr> in
      if co_open c then (case err of Some e \<Rightarrow> (Inl e, c) | None \<Rightarrow> (Inr (), c\<lparr>co_open := False\<rparr>))
      else (Inr (), c))"

section \<open>The process\<close>

record process =
  confs :: "Conf list"
  mgrs :: "nodeMgr list"
  cores :: "coreLife list"
  curNodes :: nat
  curCore :: nat
  ended :: bool

record reloadEnv =
  re_file :: confFile
  re_new :: newEnv
  re_close :: closeRun
  re_coreErr :: "goerr option"
  re_rollback :: newEnv

abbreviation setMgr :: "nat \<Rightarrow> nodeMgr \<Rightarrow> process \<Rightarrow> process" where
  "setMgr i m p \<equiv> p\<lparr>mgrs := (mgrs p)[i := m]\<rparr>"

abbreviation setCore :: "nat \<Rightarrow> coreLife \<Rightarrow> process \<Rightarrow> process" where
  "setCore i c p \<equiv> p\<lparr>cores := (cores p)[i := c]\<rparr>"

text \<open>Make a manager and a core for a configuration and start them; used by the rollback.\<close>

definition rollbackRuntime :: "newEnv \<Rightarrow> nat option \<Rightarrow> process \<Rightarrow> (goerr + unit) \<times> process" where
  "rollbackRuntime ne oldConf p =
     (case oldConf of
        None \<Rightarrow> (Inl (Err ''old config is empty''), p)
      | Some k \<Rightarrow>
          (case nodeNew ne (cf_NodeConfigs (confs p ! k)) of
             Inl e \<Rightarrow> (Inl e, p)
           | Inr m \<Rightarrow>
               (case coreStart (coreNew k) of
                  (Inl e, _) \<Rightarrow> (Inl e, p)
                | (Inr _, c) \<Rightarrow>
                    (case nodeStart (cf_NodeConfigs (confs p ! k)) m of
                       (Inl e, _) \<Rightarrow> (Inl e, p)
                     | (Inr _, m) \<Rightarrow>
                         (Inr (), p\<lparr>mgrs := mgrs p @ [m], cores := cores p @ [c], curNodes := length (mgrs p),
                                    curCore := length (cores p)\<rparr>)))))"

text \<open>The part of \<open>reload\<close> after the new runtime has been prepared.\<close>

definition switchRuntime :: "reloadEnv \<Rightarrow> nat \<Rightarrow> nodeMgr \<Rightarrow> coreLife \<Rightarrow> process \<Rightarrow> (goerr + unit) \<times> process" where
  "switchRuntime re k newNodes newCore p =
     (let oldConf = co_Config (cores p ! curCore p) in
      case nodeClose (re_close re) (mgrs p ! curNodes p) of
        (Inl e, m) \<Rightarrow> (Inl (Wrap ''close old nodes'' e), setMgr (curNodes p) m p)
      | (Inr _, m) \<Rightarrow>
          (let p = setMgr (curNodes p) m p in
           case coreClose (re_coreErr re) (cores p ! curCore p) of
             (Inl e, c) \<Rightarrow> (Inl (Wrap ''close old core'' e), setCore (curCore p) c p)
           | (Inr _, c) \<Rightarrow>
               (let p = setCore (curCore p) c p in
                case nodeStart (cf_NodeConfigs (confs p ! k)) newNodes of
                  (Inl e, _) \<Rightarrow>
                    (case rollbackRuntime (re_rollback re) oldConf p of
                       (Inl e', p) \<Rightarrow> (Inl (Wrap ''start new nodes: rollback failed'' e'), p)
                     | (Inr _, p) \<Rightarrow> (Inr (), p))
                | (Inr _, m) \<Rightarrow>
                    (Inr (), p\<lparr>mgrs := mgrs p @ [m], cores := cores p @ [newCore], curNodes := length (mgrs p),
                               curCore := length (cores p)\<rparr>))))"

definition reload :: "reloadEnv \<Rightarrow> process \<Rightarrow> (goerr + unit) \<times> process" where
  "reload re p =
     (case LoadFromPath (re_file re) newConf of
        (Inl e, _) \<Rightarrow> (Inl e, p)
      | (Inr _, conf) \<Rightarrow>
          (case nodeNew (re_new re) (cf_NodeConfigs conf) of
             Inl e \<Rightarrow> (Inl e, p)
           | Inr m \<Rightarrow>
               (let k = length (confs p); p' = p\<lparr>confs := confs p @ [conf]\<rparr> in
                case coreStart (coreNew k) of
                  (Inl e, _) \<Rightarrow> (Inl e, p')
                | (Inr _, c) \<Rightarrow> switchRuntime re k m c p')))"

text \<open>\<open>serverHandle\<close> up to its loop, and the handling of a signal.\<close>

definition startProcess :: "confFile \<Rightarrow> newEnv \<Rightarrow> goerr + process" where
  "startProcess f ne =
     (case LoadFromPath f newConf of
        (Inl e, _) \<Rightarrow> Inl e
      | (Inr _, conf) \<Rightarrow>
          (case nodeNew ne (cf_NodeConfigs conf) of
             Inl e \<Rightarrow> Inl e
           | Inr m \<Rightarrow>
               (case nodeStart (cf_NodeConfigs conf) m of
                  (Inl e, _) \<Rightarrow> Inl e
                | (Inr _, m) \<Rightarrow>
                    Inr \<lparr>confs = [conf], mgrs = [m], cores = [snd (coreStart (coreNew 0))], curNodes = 0, curCore = 0,
                         ended = False\<rparr>)))"

definition exitSignal :: "closeRun \<Rightarrow> process \<Rightarrow> process" where
  "exitSignal cr p =
     (case nodeClose cr (mgrs p ! curNodes p) of
        (Inl e, m) \<Rightarrow> setMgr (curNodes p) m p
      | (Inr _, m) \<Rightarrow> (setMgr (curNodes p) m p)\<lparr>ended := True\<rparr>)"

definition watchEvent :: "confFile \<Rightarrow> process \<Rightarrow> process" where
  "watchEvent f p = p\<lparr>confs := (confs p)[0 := snd (watchRead f (confs p ! 0))]\<rparr>"

inductive main_step :: "process \<Rightarrow> process \<Rightarrow> bool" where
  sigterm: "\<not> ended p \<Longrightarrow> main_step p (exitSignal cr p)"
| reloading: "\<not> ended p \<Longrightarrow> main_step p (snd (reload re p))"
| watching: "\<not> ended p \<Longrightarrow> main_step p (watchEvent f p)"

section \<open>Properties\<close>

lemma close_all:
  "closeControllers cr cs = (None, cs') \<Longrightarrow> c \<in> set cs \<Longrightarrow> nl_settled c \<or> cr_err cr (nl_conf c) = None"
  by (induction cs arbitrary: cs') (auto split: option.splits prod.splits if_splits)

lemma nodeClose_ok:
  assumes "nodeClose cr m = (Inr u, m')"
  shows "nm_controllers m' = []" "nm_closed m'" "cr_joined cr"
    "\<And>c. c \<in> set (nm_controllers m) \<Longrightarrow> nl_settled c \<or> cr_err cr (nl_conf c) = None"
  using assms close_all by (auto simp: nodeClose_def Let_def split: if_splits prod.splits option.splits)

lemma nodeNew_fresh:
  assumes "nodeNew ne cfgs = Inr m"
  shows "\<not> nm_closed m" "\<not> nm_started m" "map nl_conf (nm_controllers m) = filter (\<lambda>c. \<not> isl (panelNew (ne_parse ne) c)) cfgs"
    "nm_controllers m \<noteq> []"
  using assms by (auto simp: nodeNew_def Let_def comp_def split: if_splits)

lemma nodeStart_fresh:
  assumes "nodeNew ne cfgs = Inr m"
  obtains m' where "nodeStart cfgs' m = (Inr (), m')" "nm_started m'" "\<not> nm_closed m'"
    "\<forall>c\<in>set (nm_controllers m'). nl_launched c" "map nl_conf (nm_controllers m') = map nl_conf (nm_controllers m)"
  using nodeNew_fresh(1,2) [OF assms] by (auto simp: nodeStart_def comp_def)

text \<open>Since a fresh manager always starts, a reload never needs its rollback.\<close>

lemma switch_cases:
  assumes "nodeNew ne cfgs = Inr m" "switchRuntime re k m c p = (r, p')"
  obtains (failed) e where "r = Inl e" "curNodes p' = curNodes p" "curCore p' = curCore p" "length (mgrs p') = length (mgrs p)"
      "length (cores p') = length (cores p)" "\<And>i. i \<noteq> curNodes p \<Longrightarrow> mgrs p' ! i = mgrs p ! i" "ended p' = ended p" "confs p' = confs p"
    | (switched) m' old c' where "r = Inr ()" "nodeClose (re_close re) (mgrs p ! curNodes p) = (Inr (), old)"
      "nodeStart (cf_NodeConfigs (confs p ! k)) m = (Inr (), m')"
      "p' = p\<lparr>mgrs := (mgrs p)[curNodes p := old] @ [m'], cores := (cores p)[curCore p := c'] @ [c],
              curNodes := length (mgrs p), curCore := length (cores p)\<rparr>"
proof -
  obtain m' where m': "nodeStart (cf_NodeConfigs (confs p ! k)) m = (Inr (), m')" using nodeStart_fresh [OF assms(1)] by metis
  obtain r1 old where cl: "nodeClose (re_close re) (mgrs p ! curNodes p) = (r1, old)" by fastforce
  obtain r2 c' where cc: "coreClose (re_coreErr re) (cores p ! curCore p) = (r2, c')" by fastforce
  show ?thesis
  proof (cases r1)
    case (Inl e)
    with assms(2) cl failed show ?thesis by (auto simp: switchRuntime_def Let_def)
  next
    case r1: (Inr u)
    show ?thesis
    proof (cases r2)
      case (Inl e)
      with assms(2) cl r1 cc failed show ?thesis by (auto simp: switchRuntime_def Let_def)
    next
      case (Inr u')
      with assms(2) cl r1 cc m' switched show ?thesis by (auto simp: switchRuntime_def Let_def)
    qed
  qed
qed

lemma reload_cases:
  assumes "reload re p = (r, p')"
  obtains (early) e where "r = Inl e" "p' = p"
    | (prepared) conf m where "LoadFromPath (re_file re) newConf = (Inr (), conf)" "nodeNew (re_new re) (cf_NodeConfigs conf) = Inr m"
      "switchRuntime re (length (confs p)) m (coreNew (length (confs p))) (p\<lparr>confs := confs p @ [conf]\<rparr>) = (r, p')"
  using assms by (auto simp: reload_def coreStart_def Let_def split: prod.splits sum.splits)


definition process_inv :: "process \<Rightarrow> bool" where
  "process_inv p \<longleftrightarrow> curNodes p < length (mgrs p) \<and>
     (\<forall>i < length (mgrs p). i \<noteq> curNodes p \<or> ended p \<longrightarrow> nm_controllers (mgrs p ! i) = [])"

interpretation main: stable main_step process_inv
proof
  fix p p'
  assume inv: "process_inv p" and st: "main_step p p'"
  from st show "process_inv p'"
  proof cases
    case (sigterm cr)
    obtain r m where c: "nodeClose cr (mgrs p ! curNodes p) = (r, m)" by fastforce
    with sigterm inv nodeClose_ok(1) [of cr "mgrs p ! curNodes p" _ m] show ?thesis
      by (cases r) (auto simp: process_inv_def exitSignal_def nth_list_update)
  next
    case (reloading re)
    obtain r where r: "reload re p = (r, p')" using reloading(1) by (metis prod.collapse)
    then show ?thesis
    proof (cases rule: reload_cases)
      case (prepared conf m)
      from prepared(2,3) show ?thesis
      proof (cases rule: switch_cases)
        case (failed e)
        with inv reloading(2) show ?thesis by (auto simp: process_inv_def)
      next
        case (switched m' old c')
        with inv reloading(2) nodeClose_ok(1) [of "re_close re" "mgrs p ! curNodes p" "()" old] show ?thesis
          by (auto simp: process_inv_def nth_append nth_list_update)
      qed
    qed (use inv in simp)
  next
    case (watching f)
    with inv show ?thesis by (simp add: process_inv_def watchEvent_def)
  qed
qed

lemma process_inv_start: "startProcess f ne = Inr p \<Longrightarrow> process_inv p \<and> \<not> ended p"
  by (auto simp: startProcess_def process_inv_def split: prod.splits sum.splits)


text \<open>A quick second edit of the configuration is lost. When the file changes again more than five but
  less than ten seconds after a change, the watcher has already read it and ignores the second
  event: every read happens before the second change.\<close>

theorem watch_misses_late_change:
  assumes "t1 + 5 * second < t2" "t2 < t1 + 10 * second"
  shows "watchReads None [(t1, False), (t2, False)] = [t1 + 5 * second] \<and>
    (\<forall>r\<in>set (watchReads None [(t1, False), (t2, False)]). r < t2)"
  using assms by (simp add: watchDebounce_def watchDelay_def)

theorem watch_misses_late_change_witness:
  "watchReads None [(0, False), (7 * second, False)] = [5 * second]"
  using watch_misses_late_change [of 0 "7 * second"] by simp

text \<open>The watched configuration is the one the first core points to: after a change, what a rollback
  would restore is the new content, and after an unreadable file there is nothing to restore.\<close>

lemma rollback_config_overwritten:
  assumes "startProcess f ne = Inr p" "rollbackRuntime ne' (co_Config (cores p ! curCore p)) (watchEvent (ReadError e) p) = (r, p')"
  shows "r = Inl (Err ''no valid node controller'')"
  using assms
  by (auto simp: startProcess_def coreStart_def coreNew_def watchEvent_def watchRead_def LoadFromPath_def rollbackRuntime_def
      newConf_def nodeNew_def split: prod.splits sum.splits)

section \<open>A concrete process\<close>

definition demoConfig :: "int \<Rightarrow> NodeConfig" where
  "demoConfig i = \<lparr>nc_StateDirectory = [], nc_APIHost = ''https://panel'', nc_NodeID = i, nc_Key = ''k'', nc_Timeout = 0, nc_RetryCount = Some 1\<rparr>"

definition demoNew :: newEnv where
  "demoNew = \<lparr>ne_parse = (\<lambda>_. Some \<lparr>u_Scheme = ''https'', u_Host = ''panel'', u_Loopback = False, u_User = False, u_RawQuery = [],
       u_Fragment = [], u_Path = []\<rparr>), ne_info = (\<lambda>_. Inr None)\<rparr>"

definition demoConf :: "int list \<Rightarrow> Conf" where
  "demoConf ids = newConf\<lparr>cf_NodeConfigs := map demoConfig ids\<rparr>"

text \<open>The second node of the file has no valid identifier and is skipped.\<close>

definition demoProcess :: process where
  "demoProcess = projr (startProcess (Decoded (demoConf [1, 0]) None) demoNew)"

definition demoReload :: reloadEnv where
  "demoReload = \<lparr>re_file = Decoded (demoConf [2, 3]) None, re_new = demoNew,
     re_close = \<lparr>cr_joined = True, cr_err = (\<lambda>_. None)\<rparr>, re_coreErr = None, re_rollback = demoNew\<rparr>"

definition reloadedProcess :: process where
  "reloadedProcess = snd (reload demoReload demoProcess)"

lemmas demo_process = demoProcess_def startProcess_def LoadFromPath_def demoConf_def demoConfig_def newConf_def nodeNew_def panelNew_def
  demoNew_def nodeStart_def coreStart_def coreNew_def defaultRetry_def Let_def

lemma demo_process_started: "startProcess (Decoded (demoConf [1, 0]) None) demoNew = Inr demoProcess" "curNodes demoProcess = 0" "length (mgrs demoProcess) = 1"
  by (simp_all add: demo_process)

lemma demo_reloads: "reload demoReload demoProcess = (Inr (), reloadedProcess)"
proof -
  have "fst (reload demoReload demoProcess) = Inr ()"
    by (simp add: reload_def switchRuntime_def demoReload_def nodeClose_def coreClose_def demo_process)
  then show ?thesis by (metis reloadedProcess_def prod.collapse)
qed



end
