(* ===== verification/Main_Loop.thy ===== *)
theory Main_Loop
  imports Process
begin

text \<open>
  The main loop of the process (\<open>serverHandle\<close> of \<open>cmd/server.go\<close>) with what drives it: the channel of
  signals, the channel of reload requests (both of capacity one, written without blocking), the
  timers that repeat a signal after a shutdown that failed, the watcher of the configuration and
  the deferred clean-up. The handling of a signal and of a reload is that of Process; this layer
  adds when they happen. The requests of the controllers are steps of their own.
\<close>

section \<open>State and steps\<close>

record mainLoop =
  ml_proc :: process
  ml_reload :: bool
  ml_signal :: bool
  ml_timers :: nat
  ml_asked :: bool
  ml_returned :: bool

text \<open>\<open>ml_asked\<close> records whether a signal has ever been received; the code has no such variable.\<close>

text \<open>
  The deferred function: it closes the nodes that are current by then and, only if that succeeds,
  the core.
\<close>

definition deferredClose :: "closeRun \<Rightarrow> goerr option \<Rightarrow> process \<Rightarrow> process" where
  "deferredClose cr coreErr p =
     (case nodeClose cr (mgrs p ! curNodes p) of
        (Inl e, m) \<Rightarrow> setMgr (curNodes p) m p
      | (Inr _, m) \<Rightarrow>
          (let p = setMgr (curNodes p) m p in setCore (curCore p) (snd (coreClose coreErr (cores p ! curCore p))) p))"

definition returns :: "closeRun \<Rightarrow> goerr option \<Rightarrow> mainLoop \<Rightarrow> mainLoop" where
  "returns cr coreErr s = s\<lparr>ml_proc := deferredClose cr coreErr (ml_proc s), ml_returned := True\<rparr>"

text \<open>\<open>serverHandle\<close> up to the loop: the start, and the watcher, whose failure ends the process.\<close>

definition serverHandle ::
  "confFile \<Rightarrow> newEnv \<Rightarrow> goerr option option \<Rightarrow> closeRun \<Rightarrow> goerr option \<Rightarrow> goerr + mainLoop" where
  "serverHandle f ne watch cr coreErr =
     (case startProcess f ne of
        Inl e \<Rightarrow> Inl e
      | Inr p \<Rightarrow>
          (let s = \<lparr>ml_proc = p, ml_reload = False, ml_signal = False, ml_timers = 0, ml_asked = False, ml_returned = False\<rparr> in
           case watch of
             Some (Some e) \<Rightarrow> Inr (returns cr coreErr s)
           | _ \<Rightarrow> Inr s))"

text \<open>The two branches of the loop's \<open>select\<close>.\<close>

definition takeSignal :: "closeRun \<Rightarrow> closeRun \<Rightarrow> goerr option \<Rightarrow> mainLoop \<Rightarrow> mainLoop" where
  "takeSignal cr cr' coreErr s =
     (let p = exitSignal cr (ml_proc s); s = s\<lparr>ml_signal := False, ml_asked := True, ml_proc := p\<rparr> in
      if ended p then returns cr' coreErr s else s\<lparr>ml_timers := Suc (ml_timers s)\<rparr>)"

definition takeReload :: "reloadEnv \<Rightarrow> mainLoop \<Rightarrow> mainLoop" where
  "takeReload re s = s\<lparr>ml_reload := False, ml_proc := snd (reload re (ml_proc s))\<rparr>"

definition signalArrives :: "mainLoop \<Rightarrow> mainLoop" where
  "signalArrives s = s\<lparr>ml_signal := True\<rparr>"

definition timerFires :: "mainLoop \<Rightarrow> mainLoop" where
  "timerFires s = s\<lparr>ml_timers := ml_timers s - 1, ml_signal := True\<rparr>"

text \<open>The watcher reads the file in place and asks for a reload when that succeeds.\<close>

definition watcherReads :: "confFile \<Rightarrow> mainLoop \<Rightarrow> mainLoop" where
  "watcherReads f s =
     s\<lparr>ml_proc := watchEvent f (ml_proc s),
       ml_reload := (ml_reload s \<or> fst (watchRead f (confs (ml_proc s) ! 0)))\<rparr>"

inductive loop_step :: "mainLoop \<Rightarrow> mainLoop \<Rightarrow> bool" where
  os_signal: "\<not> ml_returned s \<Longrightarrow> loop_step s (signalArrives s)"
| timer: "\<not> ml_returned s \<Longrightarrow> 0 < ml_timers s \<Longrightarrow> loop_step s (timerFires s)"
| watcher: "\<not> ml_returned s \<Longrightarrow> loop_step s (watcherReads f s)"
| controller: "\<not> ml_returned s \<Longrightarrow> loop_step s (s\<lparr>ml_reload := True\<rparr>)"
| signal: "\<not> ml_returned s \<Longrightarrow> ml_signal s \<Longrightarrow> loop_step s (takeSignal cr cr' coreErr s)"
| reloads: "\<not> ml_returned s \<Longrightarrow> ml_reload s \<Longrightarrow> loop_step s (takeReload re s)"

section \<open>The loop runs the process\<close>

text \<open>
  Until the loop returns, its process moves by the steps of Process only; when it returns, the
  deferred function has run on an ended process.
\<close>

definition loop_inv :: "process \<Rightarrow> mainLoop \<Rightarrow> bool" where
  "loop_inv p0 s \<longleftrightarrow>
     (if ml_returned s then \<exists>p cr coreErr. main_step\<^sup>*\<^sup>* p0 p \<and> ended p \<and> ml_proc s = deferredClose cr coreErr p
      else main_step\<^sup>*\<^sup>* p0 (ml_proc s) \<and> \<not> ended (ml_proc s)) \<and>
     (ml_asked s \<and> \<not> ml_returned s \<longrightarrow> ml_signal s \<or> 0 < ml_timers s)"

lemma ended_frame: "ended (snd (reload re p)) = ended p" "ended (watchEvent f p) = ended p"
proof -
  obtain r p' where r: "reload re p = (r, p')" by fastforce
  then show "ended (snd (reload re p)) = ended p"
  proof (cases rule: reload_cases)
    case (prepared conf m)
    from prepared(2,3) show ?thesis by (cases rule: switch_cases) (use r in auto)
  qed (use r in simp)
qed (simp add: watchEvent_def)

interpretation loop: stable loop_step "loop_inv p0" for p0
proof
  fix s t
  assume inv: "loop_inv p0 s" and st: "loop_step s t"
  from st have "\<not> ml_returned s" by cases auto
  with inv have run: "main_step\<^sup>*\<^sup>* p0 (ml_proc s)" "\<not> ended (ml_proc s)" "ml_asked s \<Longrightarrow> ml_signal s \<or> 0 < ml_timers s"
    by (auto simp: loop_inv_def)
  note next' = rtranclp.rtrancl_into_rtrancl [OF run(1)]
  from st show "loop_inv p0 t"
  proof (cases rule: loop_step.cases)
    case (watcher f)
    with run next' [OF main_step.watching [OF run(2), of f]] show ?thesis
      by (auto simp: loop_inv_def watcherReads_def ended_frame)
  next
    case (signal cr cr' coreErr)
    with run next' [OF main_step.sigterm [OF run(2), of cr]] show ?thesis
      by (auto simp: loop_inv_def takeSignal_def returns_def Let_def)
  next
    case (reloads re)
    with run next' [OF main_step.reloading [OF run(2), of re]] show ?thesis
      by (auto simp: loop_inv_def takeReload_def ended_frame)
  qed (use run in \<open>auto simp: loop_inv_def signalArrives_def timerFires_def\<close>)
qed

lemma loop_inv_start:
  assumes "serverHandle f ne watch cr coreErr = Inr s" "\<not> ml_returned s"
  obtains p0 where "startProcess f ne = Inr p0" "loop_inv p0 s" "\<not> ml_asked s"
proof (cases "startProcess f ne")
  case (Inr p)
  with assms have s: "s = \<lparr>ml_proc = p, ml_reload = False, ml_signal = False, ml_timers = 0, ml_asked = False, ml_returned = False\<rparr>"
    by (auto simp: serverHandle_def returns_def Let_def split: option.splits)
  have "loop_inv p s" using process_inv_start [OF Inr] by (simp add: s loop_inv_def)
  with Inr that s show ?thesis by simp
qed (use assms in \<open>simp add: serverHandle_def\<close>)

text \<open>Closing again what is closed changes no controller.\<close>

lemma deferred_managers:
  assumes "process_inv p" "ended p" "i < length (mgrs p)"
  shows "nm_controllers (mgrs (deferredClose cr coreErr p) ! i) = []"
proof -
  have none: "nm_controllers (mgrs p ! j) = []" if "j < length (mgrs p)" for j using assms(1,2) that by (simp add: process_inv_def)
  obtain r m where c: "nodeClose cr (mgrs p ! curNodes p) = (r, m)" by fastforce
  have "nm_controllers m = []"
    using c none [of "curNodes p"] assms(1) by (auto simp: nodeClose_def Let_def process_inv_def split: if_splits)
  moreover have "mgrs (deferredClose cr coreErr p) = (mgrs p)[curNodes p := m]"
    by (cases r) (simp_all add: deferredClose_def c Let_def)
  ultimately show ?thesis using none assms(3) by (cases "i = curNodes p") auto
qed

lemma deferred_length: "length (mgrs (deferredClose cr coreErr p)) = length (mgrs p)"
  by (simp add: deferredClose_def Let_def split: prod.split sum.split)

section \<open>Properties\<close>

text \<open>When closing works, a signal ends the process.\<close>

lemma closeControllers_ok: "\<forall>c. cr_err cr c = None \<Longrightarrow> fst (closeControllers cr cs) = None"
  by (induction cs) (auto split: prod.splits)

lemma exitSignal_ends:
  assumes "cr_joined cr" "\<forall>c. cr_err cr c = None"
  shows "ended (exitSignal cr p)"
  using closeControllers_ok [OF assms(2), of "nm_controllers (mgrs p ! curNodes p)"] assms(1)
  by (auto simp: exitSignal_def nodeClose_def Let_def split: prod.splits sum.splits option.splits)

text \<open>A pending signal ends the process when closing works.\<close>

lemma signal_returns:
  assumes "cr_joined cr" "\<forall>c. cr_err cr c = None"
  shows "ml_returned (takeSignal cr cr' coreErr s)"
  using exitSignal_ends [OF assms] by (simp add: takeSignal_def returns_def)

text \<open>The state from which the pending request is taken: a timer sends a signal first.\<close>

definition delivered :: "mainLoop \<Rightarrow> mainLoop" where
  "delivered s = (if ml_signal s then s else timerFires s)"

lemma delivered_step:
  assumes "\<not> ml_returned s" "ml_signal s \<or> 0 < ml_timers s"
  shows "loop_step\<^sup>=\<^sup>= s (delivered s)" "ml_signal (delivered s)" "\<not> ml_returned (delivered s)"
  using assms loop_step.timer [of s] by (auto simp: delivered_def timerFires_def)

definition allCloses :: closeRun where
  "allCloses = \<lparr>cr_joined = True, cr_err = (\<lambda>_. None)\<rparr>"

text \<open>C26: A shutdown is never forgotten and never incomplete. In every state that the loop reaches after a
  signal was received, whatever failed shutdowns, reloads and changes of the file came in between,
  either the process has returned with every controller closed, or a signal or a timer that sends
  one is pending. The loop can then take the signal at once or after the timer, and in that step it
  returns whenever the goroutines of the nodes stop in time and every controller closes; if closing
  fails again, another timer is running.\<close>

theorem shutdown_persists:
  assumes "serverHandle f ne watch cr0 ce0 = Inr s0" "\<not> ml_returned s0" "loop_step\<^sup>*\<^sup>* s0 s" "ml_asked s"
  shows "if ml_returned s then \<forall>i < length (mgrs (ml_proc s)). nm_controllers (mgrs (ml_proc s) ! i) = []
    else (ml_signal s \<or> 0 < ml_timers s) \<and> loop_step\<^sup>=\<^sup>= s (delivered s) \<and>
      (\<forall>cr cr' ce. loop_step (delivered s) (takeSignal cr cr' ce (delivered s)) \<and>
        (if cr_joined cr \<and> (\<forall>c. cr_err cr c = None) then ml_returned (takeSignal cr cr' ce (delivered s))
         else ml_returned (takeSignal cr cr' ce (delivered s)) \<or> 0 < ml_timers (takeSignal cr cr' ce (delivered s))))"
proof -
  obtain p0 where p0: "startProcess f ne = Inr p0" "loop_inv p0 s0" using loop_inv_start [OF assms(1,2)] .
  have inv: "loop_inv p0 s" by (rule loop.run_keeps [OF assms(3) p0(2)])
  show ?thesis
  proof (cases "ml_returned s")
    case True
    with inv obtain p cr ce where p: "main_step\<^sup>*\<^sup>* p0 p" "ended p" "ml_proc s = deferredClose cr ce p" by (auto simp: loop_inv_def)
    have "process_inv p" using main.run_keeps [OF p(1)] process_inv_start [OF p0(1)] by blast
    from deferred_managers [OF this p(2)] have "nm_controllers (mgrs (deferredClose cr ce p) ! i) = []"
      if "i < length (mgrs (deferredClose cr ce p))" for i
      using that deferred_length by metis
    with True p(3) show ?thesis by simp
  next
    case False
    with inv assms(4) have pending: "ml_signal s \<or> 0 < ml_timers s" by (simp add: loop_inv_def)
    note d = delivered_step [OF False pending]
    have "loop_step (delivered s) (takeSignal cr cr' ce (delivered s))" for cr cr' ce
      by (rule loop_step.signal [OF d(3,2)])
    moreover have "ml_returned (takeSignal cr cr' ce (delivered s)) \<or> 0 < ml_timers (takeSignal cr cr' ce (delivered s))" for cr cr' ce
      by (simp add: takeSignal_def returns_def Let_def)
    ultimately show ?thesis using False pending d(1) signal_returns by simp
  qed
qed

section \<open>A concrete run\<close>

text \<open>A signal arrives, and the shutdown fails because a node does not stop in time.\<close>

definition demoLoop :: mainLoop where
  "demoLoop = projr (serverHandle (Decoded (demoConf [1]) None) demoNew None allCloses None)"

definition stuckClose :: closeRun where
  "stuckClose = \<lparr>cr_joined = False, cr_err = (\<lambda>_. None)\<rparr>"

definition refusedLoop :: mainLoop where
  "refusedLoop = takeSignal stuckClose allCloses None (signalArrives demoLoop)"

lemma demo_loop_started:
  "serverHandle (Decoded (demoConf [1]) None) demoNew None allCloses None = Inr demoLoop"
  "\<not> ml_returned demoLoop" "\<not> ended (ml_proc demoLoop)"
  by (simp_all add: demoLoop_def serverHandle_def demo_process)

lemma demo_loop_refused: "ml_asked refusedLoop" "\<not> ml_returned refusedLoop" "ml_timers refusedLoop = 1" "\<not> ml_signal refusedLoop"
  by (simp_all add: refusedLoop_def takeSignal_def signalArrives_def exitSignal_def nodeClose_def stuckClose_def
      demoLoop_def serverHandle_def demo_process)

lemma demo_loop_run: "loop_step\<^sup>*\<^sup>* demoLoop refusedLoop"
proof -
  have "loop_step demoLoop (signalArrives demoLoop)" by (rule loop_step.os_signal [OF demo_loop_started(2)])
  moreover have "loop_step (signalArrives demoLoop) refusedLoop"
    unfolding refusedLoop_def using demo_loop_started(2) by (intro loop_step.signal) (simp_all add: signalArrives_def)
  ultimately show ?thesis by (meson converse_rtranclp_into_rtranclp rtranclp.rtrancl_refl)
qed

theorem shutdown_persists_witness:
  "\<not> ml_returned refusedLoop \<and> 0 < ml_timers refusedLoop \<and>
    ml_returned (takeSignal allCloses allCloses None (delivered refusedLoop))"
  using shutdown_persists [OF demo_loop_started(1,2) demo_loop_run demo_loop_refused(1)] demo_loop_refused
  by (simp add: allCloses_def)

end
