(* ===== verification/Certificates.thy ===== *)
theory Certificates
  imports Controller
begin

text \<open>
  Certificates (\<open>node/cert.go\<close>, \<open>node/lego.go\<close>): what happens when a node is started in each mode, the
  self-signed pair, the ACME account file, obtaining, renewing and storing a certificate. The ACME
  client, key generation, PEM, JSON and the file system's failures are arguments; files are a map from
  paths to contents of type \<open>'f\<close>.
\<close>

section \<open>Files\<close>

record 'f files =
  content :: "string \<rightharpoonup> 'f"
  dirs :: "string set"

text \<open>\<open>path.Dir\<close> and \<open>path.Join\<close> for paths without empty, dot or parent elements.\<close>

definition dirOf :: "string \<Rightarrow> string" where
  "dirOf p =
     (if CHR ''/'' \<notin> set p then ''.''
      else (let d = rev (drop 1 (dropWhile (\<lambda>c. c \<noteq> CHR ''/'') (rev p))) in if d = [] then ''/'' else d))"

definition joinDir :: "string \<Rightarrow> string \<Rightarrow> string" where
  "joinDir d s = (if d = ''.'' then s else if d = ''/'' then ''/'' @ s else d @ ''/'' @ s)"

definition isExist :: "string \<Rightarrow> 'f files \<Rightarrow> bool" where
  "isExist p fs \<longleftrightarrow> content fs p \<noteq> None \<or> p \<in> dirs fs"

definition checkPath :: "goerr option \<Rightarrow> string \<Rightarrow> 'f files \<Rightarrow> goerr option \<times> 'f files" where
  "checkPath mkErr p fs =
     (if isExist (dirOf p) fs then (None, fs)
      else (case mkErr of Some e \<Rightarrow> (Some (Wrap ''create dir error'' e), fs) | None \<Rightarrow> (None, fs\<lparr>dirs := insert (dirOf p) (dirs fs)\<rparr>)))"

section \<open>The account\<close>

record ('k, 'g) legoUser =
  lu_Email :: string
  lu_Registration :: "'g option"
  lu_key :: "'k option"

text \<open>
  The ACME side and the codecs: key generation, registration, the ASN.1 and PEM encodings of a key
  and the JSON document of an account. \<open>ac_encodeErr\<close> is a failure while the document is written,
  which leaves \<open>ac_partial\<close> in the truncated file.
\<close>

record ('k, 'g, 'f) acme =
  ac_genKey :: "goerr + 'k"
  ac_newClient :: "goerr option"
  ac_register :: "goerr + 'g"
  ac_marshalKey :: "'k \<Rightarrow> goerr + string"
  ac_parseKey :: "string \<Rightarrow> goerr + 'k"
  ac_pem :: "string \<Rightarrow> string"
  ac_unpem :: "string \<Rightarrow> string option"
  ac_encode :: "string \<times> 'g option \<times> string \<Rightarrow> 'f"
  ac_decode :: "'f \<Rightarrow> goerr + (string \<times> 'g option \<times> string)"
  ac_encodeErr :: "goerr option"
  ac_partial :: 'f
  ac_mkdir :: "goerr option"
  ac_write :: "string \<Rightarrow> goerr option"
  ac_read :: "string \<Rightarrow> goerr option"

definition EncodePrivate :: "('k, 'g, 'f) acme \<Rightarrow> 'k \<Rightarrow> goerr + string" where
  "EncodePrivate ac k = (case ac_marshalKey ac k of Inl e \<Rightarrow> Inl e | Inr b \<Rightarrow> Inr (ac_pem ac b))"

definition DecodePrivate :: "('k, 'g, 'f) acme \<Rightarrow> string \<Rightarrow> goerr + 'k" where
  "DecodePrivate ac t = (case ac_unpem ac t of None \<Rightarrow> Inl (Panic ''nil PEM block'') | Some b \<Rightarrow> ac_parseKey ac b)"

text \<open>\<open>Save\<close> ignores an error of \<open>EncodePrivate\<close>: the account is then stored with an empty key.\<close>

definition keyText :: "('k, 'g, 'f) acme \<Rightarrow> 'k \<Rightarrow> string" where
  "keyText ac k = (case EncodePrivate ac k of Inl _ \<Rightarrow> [] | Inr t \<Rightarrow> t)"

definition userSave :: "('k, 'g, 'f) acme \<Rightarrow> string \<Rightarrow> ('k, 'g) legoUser \<Rightarrow> 'f files \<Rightarrow> goerr option \<times> 'f files" where
  "userSave ac p u fs =
     (case checkPath (ac_mkdir ac) p fs of
        (Some e, fs) \<Rightarrow> (Some (Wrap ''check path error'' e), fs)
      | (None, fs) \<Rightarrow>
          (case lu_key u of
             None \<Rightarrow> (Some (Panic ''key is not an ECDSA key''), fs)
           | Some k \<Rightarrow>
               (case ac_write ac p of
                  Some e \<Rightarrow> (Some e, fs)
                | None \<Rightarrow>
                    (case ac_encodeErr ac of
                       Some e \<Rightarrow> (Some (Wrap ''marshal json error'' e), fs\<lparr>content := (content fs)(p \<mapsto> ac_partial ac)\<rparr>)
                     | None \<Rightarrow>
                         (None, fs\<lparr>content := (content fs)(p \<mapsto> ac_encode ac (lu_Email u, lu_Registration u, keyText ac k))\<rparr>)))))"

definition userLoad :: "('k, 'g, 'f) acme \<Rightarrow> string \<Rightarrow> 'f files \<Rightarrow> goerr + ('k, 'g) legoUser" where
  "userLoad ac p fs =
     (case ac_read ac p of
        Some e \<Rightarrow> Inl (Wrap ''open file error'' e)
      | None \<Rightarrow>
          (case content fs p of
             None \<Rightarrow> Inl (Wrap ''open file error'' NotExist)
           | Some f \<Rightarrow>
               (case ac_decode ac f of
                  Inl e \<Rightarrow> Inl (Wrap ''unmarshal json error'' e)
                | Inr (email, reg, t) \<Rightarrow>
                    (case DecodePrivate ac t of
                       Inl (Panic m) \<Rightarrow> Inl (Panic m)
                     | Inl e \<Rightarrow> Inl (Wrap ''decode private key error'' e)
                     | Inr k \<Rightarrow> Inr \<lparr>lu_Email = email, lu_Registration = reg, lu_key = Some k\<rparr>))))"

definition registerUser ::
  "('k, 'g, 'f) acme \<Rightarrow> string \<Rightarrow> ('k, 'g) legoUser \<Rightarrow> 'f files \<Rightarrow> (goerr + ('k, 'g) legoUser) \<times> 'f files" where
  "registerUser ac p u fs =
     (case ac_genKey ac of
        Inl e \<Rightarrow> (Inl (Wrap ''generate key error'' e), fs)
      | Inr k \<Rightarrow>
          (case ac_newClient ac of
             Some e \<Rightarrow> (Inl (Wrap ''create lego client error'' e), fs)
           | None \<Rightarrow>
               (case ac_register ac of
                  Inl e \<Rightarrow> (Inl e, fs)
                | Inr g \<Rightarrow>
                    (let u = u\<lparr>lu_key := Some k, lu_Registration := Some g\<rparr> in
                     case userSave ac p u fs of
                       (Some e, fs) \<Rightarrow> (Inl (Wrap ''save user error'' e), fs)
                     | (None, fs) \<Rightarrow> (Inr u, fs)))))"

definition NewLegoUser :: "('k, 'g, 'f) acme \<Rightarrow> string \<Rightarrow> string \<Rightarrow> 'f files \<Rightarrow> (goerr + ('k, 'g) legoUser) \<times> 'f files" where
  "NewLegoUser ac p email fs =
     (if isExist p fs
      then (case userLoad ac p fs of
          Inl e \<Rightarrow> (Inl e, fs)
        | Inr u \<Rightarrow>
            (if lu_Email u \<noteq> email
             then registerUser ac p (u\<lparr>lu_Registration := None, lu_Email := email\<rparr>) fs
             else (Inr u, fs)))
      else registerUser ac p \<lparr>lu_Email = email, lu_Registration = None, lu_key = None\<rparr> fs)"

section \<open>Obtaining and renewing\<close>

text \<open>The certificate library: providers (their environment variables are left out), obtaining, parsing (the time left, in nanoseconds) and renewing.\<close>

record 'f certAuthority =
  ca_client :: "goerr option"
  ca_dnsProvider :: "string \<Rightarrow> goerr option"
  ca_challenge :: "string \<Rightarrow> goerr option"
  ca_obtain :: "string \<Rightarrow> goerr + ('f \<times> 'f)"
  ca_parse :: "'f \<Rightarrow> goerr + int"
  ca_renew :: "string \<Rightarrow> 'f \<Rightarrow> goerr + ('f \<times> 'f)"

definition userPath :: "CertInfo \<Rightarrow> string" where
  "userPath ci = joinDir (dirOf (cert_CertFile ci)) (''user/user-'' @ cert_Email ci @ ''.json'')"

definition SetProvider :: "'f certAuthority \<Rightarrow> CertInfo \<Rightarrow> goerr option" where
  "SetProvider ca ci =
     (if cert_CertMode ci = ''http'' then ca_challenge ca ''http-01''
      else if cert_CertMode ci = ''dns''
      then (case ca_dnsProvider ca (cert_Provider ci) of
          Some e \<Rightarrow> Some (Wrap ''create dns challenge provider error'' e)
        | None \<Rightarrow> map_option (Wrap ''set dns provider error'') (ca_challenge ca ''dns-01''))
      else None)"

definition NewLego ::
  "('k, 'g, 'f) acme \<Rightarrow> 'f certAuthority \<Rightarrow> CertInfo \<Rightarrow> 'f files \<Rightarrow> goerr option \<times> 'f files" where
  "NewLego ac ca ci fs =
     (case NewLegoUser ac (userPath ci) (cert_Email ci) fs of
        (Inl e, fs) \<Rightarrow> (Some (Wrap ''create user error'' e), fs)
      | (Inr _, fs) \<Rightarrow>
          (case ca_client ca of
             Some e \<Rightarrow> (Some e, fs)
           | None \<Rightarrow> (map_option (Wrap ''set provider error'') (SetProvider ca ci), fs)))"

text \<open>\<open>strings.NewReplacer\<close> with the two placeholders.\<close>

function replaceParams :: "string \<Rightarrow> string \<Rightarrow> string \<Rightarrow> string" where
  "replaceParams domain email s =
     (if s = [] then []
      else if prefix ''{domain}'' s then domain @ replaceParams domain email (drop 8 s)
      else if prefix ''{email}'' s then email @ replaceParams domain email (drop 7 s)
      else hd s # replaceParams domain email (tl s))"
  by pat_completeness auto
termination by (relation "measure (\<lambda>(_, _, s). length s)") auto

declare replaceParams.simps [simp del]

definition parseParams :: "CertInfo \<Rightarrow> string \<Rightarrow> string" where
  "parseParams ci p = replaceParams (cert_CertDomain ci) (cert_Email ci) p"

definition putFile :: "('k, 'g, 'f) acme \<Rightarrow> string \<Rightarrow> string \<Rightarrow> 'f \<Rightarrow> 'f files \<Rightarrow> goerr option \<times> 'f files" where
  "putFile ac p target f fs =
     (case checkPath (ac_mkdir ac) p fs of
        (Some e, fs) \<Rightarrow> (Some (Wrap ''check path error'' e), fs)
      | (None, fs) \<Rightarrow>
          (case ac_write ac target of
             Some e \<Rightarrow> (Some e, fs) | None \<Rightarrow> (None, fs\<lparr>content := (content fs)(target \<mapsto> f)\<rparr>)))"

definition writeCert :: "('k, 'g, 'f) acme \<Rightarrow> CertInfo \<Rightarrow> 'f \<times> 'f \<Rightarrow> 'f files \<Rightarrow> goerr option \<times> 'f files" where
  "writeCert ac ci pair fs =
     (case putFile ac (cert_CertFile ci) (parseParams ci (cert_CertFile ci)) (fst pair) fs of
        (Some e, fs) \<Rightarrow> (Some e, fs)
      | (None, fs) \<Rightarrow> putFile ac (cert_KeyFile ci) (parseParams ci (cert_KeyFile ci)) (snd pair) fs)"

definition CreateCert :: "('k, 'g, 'f) acme \<Rightarrow> 'f certAuthority \<Rightarrow> CertInfo \<Rightarrow> 'f files \<Rightarrow> goerr option \<times> 'f files" where
  "CreateCert ac ca ci fs =
     (case ca_obtain ca (cert_CertDomain ci) of
        Inl e \<Rightarrow> (Some (Wrap ''obtain certificate error'' e), fs)
      | Inr pair \<Rightarrow>
          (case writeCert ac ci pair fs of
             (Some e, fs) \<Rightarrow> (Some (Wrap ''write certificate error'' e), fs) | (None, fs) \<Rightarrow> (None, fs)))"

text \<open>\<open>CheckCert\<close>: whether at most thirty whole days are left.\<close>

definition day :: int where
  "day = 24 * 3600 * second"

definition CheckCert :: "'f certAuthority \<Rightarrow> 'f \<Rightarrow> bool \<times> goerr option" where
  "CheckCert ca f = (case ca_parse ca f of Inl e \<Rightarrow> (False, Some e) | Inr left \<Rightarrow> (\<not> godiv left day > 30, None))"

definition RenewCert :: "('k, 'g, 'f) acme \<Rightarrow> 'f certAuthority \<Rightarrow> CertInfo \<Rightarrow> 'f files \<Rightarrow> goerr option \<times> 'f files" where
  "RenewCert ac ca ci fs =
     (case (case ac_read ac (cert_CertFile ci) of Some e \<Rightarrow> Inl e
             | None \<Rightarrow> (case content fs (cert_CertFile ci) of None \<Rightarrow> Inl NotExist | Some f \<Rightarrow> Inr f)) of
        Inl e \<Rightarrow> (Some (Wrap ''read cert file error'' e), fs)
      | Inr f \<Rightarrow>
          (case CheckCert ca f of
             (False, _) \<Rightarrow> (None, fs)
           | (True, Some e) \<Rightarrow> (Some (Wrap ''check cert error'' e), fs)
           | (True, None) \<Rightarrow>
               (case ca_renew ca (cert_CertDomain ci) f of
                  Inl e \<Rightarrow> (Some e, fs)
                | Inr pair \<Rightarrow>
                    (case writeCert ac ci pair fs of
                       (Some e, fs) \<Rightarrow> (Some (Wrap ''write certificate error'' e), fs) | (None, fs) \<Rightarrow> (None, fs)))))"

text \<open>The daily task: errors are only logged.\<close>

definition renewCertTask :: "('k, 'g, 'f) acme \<Rightarrow> 'f certAuthority \<Rightarrow> CertInfo \<Rightarrow> 'f files \<Rightarrow> 'f files" where
  "renewCertTask ac ca ci fs =
     (case NewLego ac ca ci fs of (Some _, fs) \<Rightarrow> fs | (None, fs) \<Rightarrow> snd (RenewCert ac ca ci fs))"

section \<open>Starting a node\<close>

text \<open>
  \<open>generateSelfSslCertificate\<close> on files of bytes. Key and certificate generation and the PEM text of a
  block are arguments; \<open>ss_write\<close> gives the error of a write with the number of bytes that were
  written before it. The files are opened without truncation, so that a write leaves the rest of a
  longer file as it was. A failed key generation is not checked and ends in a nil dereference.
\<close>

record selfSigner =
  ss_key :: "string option"
  ss_cert :: "string \<Rightarrow> string \<Rightarrow> goerr + string"
  ss_pem :: "string \<Rightarrow> string \<Rightarrow> string"
  ss_open :: "string \<Rightarrow> goerr option"
  ss_write :: "string \<Rightarrow> (goerr \<times> nat) option"

definition overlay :: "string \<Rightarrow> string option \<Rightarrow> string" where
  "overlay new old = new @ drop (length new) (case old of None \<Rightarrow> [] | Some s \<Rightarrow> s)"

definition overwrite :: "selfSigner \<Rightarrow> string \<Rightarrow> string \<Rightarrow> string files \<Rightarrow> goerr option \<times> string files" where
  "overwrite ss p text fs =
     (case ss_open ss p of
        Some e \<Rightarrow> (Some e, fs)
      | None \<Rightarrow>
          (case ss_write ss p of
             Some (e, k) \<Rightarrow> (Some e, fs\<lparr>content := (content fs)(p \<mapsto> overlay (take k text) (content fs p))\<rparr>)
           | None \<Rightarrow> (None, fs\<lparr>content := (content fs)(p \<mapsto> overlay text (content fs p))\<rparr>)))"

definition generateSelfSslCertificate ::
  "selfSigner \<Rightarrow> string \<Rightarrow> string \<Rightarrow> string \<Rightarrow> string files \<Rightarrow> goerr option \<times> string files" where
  "generateSelfSslCertificate ss domain certFile keyFile fs =
     (case ss_key ss of
        None \<Rightarrow> (Some (Panic ''nil key''), fs)
      | Some key \<Rightarrow>
          (case ss_cert ss domain key of
             Inl e \<Rightarrow> (Some e, fs)
           | Inr cert \<Rightarrow>
               (case overwrite ss certFile (ss_pem ss ''CERTIFICATE'' cert) fs of
                  (Some e, fs) \<Rightarrow> (Some e, fs)
                | (None, fs) \<Rightarrow> overwrite ss keyFile (ss_pem ss ''EC PRIVATE KEY'' key) fs)))"

definition selfCert :: "selfSigner \<Rightarrow> CertInfo \<Rightarrow> string files \<Rightarrow> goerr option \<times> string files" where
  "selfCert ss ci fs = generateSelfSslCertificate ss (cert_CertDomain ci) (cert_CertFile ci) (cert_KeyFile ci) fs"

text \<open>\<open>requestCert\<close>; what the mode \<open>self\<close> calls is an argument, since it needs files of bytes.\<close>

definition needFiles :: "CertInfo \<Rightarrow> goerr option" where
  "needFiles ci =
     (if cert_CertFile ci = [] \<or> cert_KeyFile ci = [] then Some (Err ''cert file path or key file path not exist'') else None)"

definition requestCert ::
  "('k, 'g, 'f) acme \<Rightarrow> 'f certAuthority \<Rightarrow> (CertInfo \<Rightarrow> 'f files \<Rightarrow> goerr option \<times> 'f files) \<Rightarrow> CertInfo \<Rightarrow> 'f files \<Rightarrow>
     goerr option \<times> 'f files" where
  "requestCert ac ca selfSign ci fs =
     (let mode = cert_CertMode ci; present = isExist (cert_CertFile ci) fs \<and> isExist (cert_KeyFile ci) fs in
      if mode = ''none'' \<or> mode = [] then (None, fs)
      else if mode = ''file'' then (needFiles ci, fs)
      else if mode = ''dns'' \<or> mode = ''http''
      then (case needFiles ci of
          Some e \<Rightarrow> (Some e, fs)
        | None \<Rightarrow>
            (if present then (None, fs)
             else (case NewLego ac ca ci fs of
                 (Some e, fs) \<Rightarrow> (Some (Wrap ''create lego object error'' e), fs)
               | (None, fs) \<Rightarrow>
                   (case CreateCert ac ca ci fs of
                      (Some e, fs) \<Rightarrow> (Some (Wrap ''create lego cert error'' e), fs) | (None, fs) \<Rightarrow> (None, fs)))))
      else if mode = ''self''
      then (case needFiles ci of
          Some e \<Rightarrow> (Some e, fs)
        | None \<Rightarrow>
            (if present then (None, fs)
             else (case selfSign ci fs of (Some e, fs) \<Rightarrow> (Some (Wrap ''generate self cert error'' e), fs) | (None, fs) \<Rightarrow> (None, fs))))
      else (Some (Err (''unsupported certmode: '' @ mode)), fs))"

text \<open>Whether \<open>startTasks\<close> starts the renewal task.\<close>

definition renewsCert :: "NodeInfo \<Rightarrow> bool" where
  "renewsCert n \<longleftrightarrow>
     info_Security n = Tls_security \<and>
     (case Option.bind (info_Common n) cm_CertInfo of
        None \<Rightarrow> False
      | Some ci \<Rightarrow> cert_CertMode ci \<notin> {''none'', [], ''file'', ''self'', ''remote''})"

section \<open>Properties\<close>

text \<open>When a certificate is renewed. The daily check asks for a new certificate exactly if the current
  one can be read and parsed and at most thirty whole days are left, stores the new pair under
  the configured paths when that succeeds, and leaves every file as it is otherwise. A certificate
  that cannot be parsed is neither renewed nor reported.\<close>

theorem renewal_decision:
  assumes "ac_read ac (cert_CertFile ci) = None" "content fs (cert_CertFile ci) = Some f"
  shows "case ca_parse ca f of
      Inl e \<Rightarrow> RenewCert ac ca ci fs = (None, fs)
    | Inr left \<Rightarrow>
        (if 31 * day \<le> left then RenewCert ac ca ci fs = (None, fs)
         else (case ca_renew ca (cert_CertDomain ci) f of
             Inl e \<Rightarrow> RenewCert ac ca ci fs = (Some e, fs)
           | Inr pair \<Rightarrow> snd (RenewCert ac ca ci fs) = snd (writeCert ac ci pair fs) \<and>
               (fst (RenewCert ac ca ci fs) = None \<longleftrightarrow> fst (writeCert ac ci pair fs) = None)))"
proof -
  have d: "godiv left day > 30 \<longleftrightarrow> 31 * day \<le> left" for left
  proof (cases "0 \<le> left")
    case True
    have "30 < left div day \<longleftrightarrow> 31 \<le> left div day" by linarith
    also have "\<dots> \<longleftrightarrow> 31 * day \<le> left" using zdiv_mono1 [of "31 * day" left day] div_times_less_eq_dividend
      by (auto simp: day_def)
    finally show ?thesis using True by (simp add: godiv_def)
  next
    case False
    then have "0 \<le> (- left) div day" by (simp add: day_def pos_imp_zdiv_nonneg_iff)
    with False show ?thesis by (simp add: godiv_def day_def)
  qed
  show ?thesis
    using assms d by (auto simp: RenewCert_def CheckCert_def split: sum.splits prod.splits option.splits)
qed

text \<open>The pair of a renewed certificate, four weeks before the old one ends.\<close>

definition demoAcme :: "(nat, nat, nat) acme" where
  "demoAcme = \<lparr>ac_genKey = Inr 1, ac_newClient = None, ac_register = Inr 2, ac_marshalKey = (\<lambda>_. Inr ''k''),
     ac_parseKey = (\<lambda>_. Inr 1), ac_pem = id, ac_unpem = Some, ac_encode = (\<lambda>_. 3), ac_decode = (\<lambda>_. Inr (''e'', Some 2, ''k'')),
     ac_encodeErr = None, ac_partial = 0, ac_mkdir = None,
     ac_write = (\<lambda>_. None), ac_read = (\<lambda>_. None)\<rparr>"

definition demoCA :: "nat certAuthority" where
  "demoCA = \<lparr>ca_client = None, ca_dnsProvider = (\<lambda>_. None), ca_challenge = (\<lambda>_. None), ca_obtain = (\<lambda>_. Inr (7, 8)),
     ca_parse = (\<lambda>f. if f = 5 then Inr (28 * day) else Inl (Err ''pem'')), ca_renew = (\<lambda>_ _. Inr (7, 8))\<rparr>"

definition demoCert :: CertInfo where
  "demoCert = (certInfo demoCommon 1)\<lparr>cert_CertFile := ''/c'', cert_KeyFile := ''/k''\<rparr>"

definition demoFiles :: "nat \<Rightarrow> nat files" where
  "demoFiles f = \<lparr>content = [''/c'' \<mapsto> f, ''/k'' \<mapsto> 6], dirs = {''/''}\<rparr>"

lemma replace_plain: "CHR ''{'' \<notin> set s \<Longrightarrow> replaceParams d e s = s"
proof (induction s)
  case (Cons c s)
  then show ?case by (subst replaceParams.simps) auto
qed (simp add: replaceParams.simps)

lemma demo_write: "writeCert demoAcme demoCert (7, 8) (demoFiles f) = (None, (demoFiles f)\<lparr>content := [''/c'' \<mapsto> 7, ''/k'' \<mapsto> 8]\<rparr>)"
  by (simp add: writeCert_def putFile_def checkPath_def isExist_def dirOf_def demoFiles_def demoAcme_def demoCert_def parseParams_def
      replace_plain fun_upd_twist)

theorem renewal_decision_witness:
  "content (snd (RenewCert demoAcme demoCA demoCert (demoFiles 5))) ''/c'' = Some 7 \<and>
   RenewCert demoAcme demoCA demoCert (demoFiles 4) = (None, demoFiles 4)"
proof -
  have r: "ac_read demoAcme (cert_CertFile demoCert) = None" "content (demoFiles f) (cert_CertFile demoCert) = Some f" for f
    by (simp_all add: demoAcme_def demoCert_def demoFiles_def)
  have "snd (RenewCert demoAcme demoCA demoCert (demoFiles 5)) = snd (writeCert demoAcme demoCert (7, 8) (demoFiles 5))"
    using renewal_decision [OF r(1) r(2) [of 5], of demoCA] by (simp add: demoCA_def day_def)
  moreover have "RenewCert demoAcme demoCA demoCert (demoFiles 4) = (None, demoFiles 4)"
    using renewal_decision [OF r(1) r(2) [of 4], of demoCA] by (simp add: demoCA_def)
  ultimately show ?thesis by (simp add: demo_write)
qed

text \<open>
  An account is registered once: when its key can be encoded and the encodings are inverse to each
  other, later calls reuse the account. An account whose key could not be encoded is stored too,
  and reading it back panics.
\<close>

definition codecs_ok :: "('k, 'g, 'f) acme \<Rightarrow> bool" where
  "codecs_ok ac \<longleftrightarrow>
     (\<forall>d. ac_decode ac (ac_encode ac d) = Inr d) \<and> (\<forall>b. ac_unpem ac (ac_pem ac b) = Some b) \<and>
     (\<forall>k b. ac_marshalKey ac k = Inr b \<longrightarrow> ac_parseKey ac b = Inr k)"

lemma DecodePrivate_EncodePrivate: "codecs_ok ac \<Longrightarrow> EncodePrivate ac k = Inr t \<Longrightarrow> DecodePrivate ac t = Inr k"
  by (auto simp: codecs_ok_def EncodePrivate_def DecodePrivate_def split: sum.splits)

lemma registered_stored:
  assumes "registerUser ac p v fs = (Inr u, fs')"
  obtains k where "lu_Email u = lu_Email v" "lu_key u = Some k"
    "content fs' p = Some (ac_encode ac (lu_Email u, lu_Registration u, keyText ac k))"
  using assms by (auto simp: registerUser_def userSave_def Let_def split: sum.splits option.splits prod.splits)

lemma NewLegoUser_cases:
  assumes "NewLegoUser ac p email fs = (Inr u, fs')"
  obtains (found) "fs' = fs" | (new) v where "registerUser ac p v fs = (Inr u, fs')" "lu_Email v = email"
  using assms by (auto simp: NewLegoUser_def split: if_splits sum.splits)

lemma account_reused:
  assumes "NewLegoUser ac p email fs = (Inr u, fs')" "codecs_ok ac"
    and "ac_read ac p = None" "\<forall>k e. EncodePrivate ac k \<noteq> Inl e"
  shows "NewLegoUser ac p email fs' = (Inr u, fs')"
  using assms(1)
proof (cases rule: NewLegoUser_cases)
  case found
  with assms(1) show ?thesis by simp
next
  case (new v)
  from new(1) obtain k where k: "lu_Email u = lu_Email v" "lu_key u = Some k"
      "content fs' p = Some (ac_encode ac (lu_Email u, lu_Registration u, keyText ac k))"
    by (rule registered_stored)
  obtain t where t: "EncodePrivate ac k = Inr t" using assms(4) by (cases "EncodePrivate ac k") auto
  have "u = \<lparr>lu_Email = lu_Email u, lu_Registration = lu_Registration u, lu_key = Some k\<rparr>" using k(2) by simp
  then show ?thesis
    using k new(2) t assms(2,3) DecodePrivate_EncodePrivate [OF assms(2) t]
    by (simp add: NewLegoUser_def userLoad_def isExist_def keyText_def codecs_ok_def)
qed

lemma account_key_lost:
  assumes "registerUser ac p v fs = (Inr u, fs')" "\<forall>k. \<exists>e. ac_marshalKey ac k = Inl e" "\<forall>d. ac_decode ac (ac_encode ac d) = Inr d"
    and "ac_unpem ac [] = None" "ac_read ac p = None"
  shows "\<exists>m. NewLegoUser ac p email fs' = (Inl (Panic m), fs')"
proof -
  from assms(1) obtain k where k: "content fs' p = Some (ac_encode ac (lu_Email u, lu_Registration u, keyText ac k))"
    by (rule registered_stored)
  obtain e where "ac_marshalKey ac k = Inl e" using assms(2) by blast
  then have "keyText ac k = []" by (simp add: keyText_def EncodePrivate_def)
  with k assms(3-5) show ?thesis by (simp add: NewLegoUser_def userLoad_def isExist_def DecodePrivate_def)
qed

text \<open>The mode \<open>remote\<close> is known to \<open>startTasks\<close> and to the node description, but no node with it can start.\<close>

lemma remote_mode_refused:
  assumes "cert_CertMode ci = ''remote''"
  shows "fst (requestCert ac ca selfSign ci fs) = Some (Err ''unsupported certmode: remote'')"
  using assms by (simp add: requestCert_def)

text \<open>
  What a successful request leaves behind: in the modes that make a certificate, both files exist,
  for paths without placeholders, and asking again changes nothing.
\<close>

lemma putFile_keeps: "putFile ac p t f fs = (r, fs') \<Longrightarrow> content fs q \<noteq> None \<Longrightarrow> content fs' q \<noteq> None"
  by (auto simp: putFile_def checkPath_def split: if_splits option.splits prod.splits)

lemma putFile_done: "putFile ac p t f fs = (None, fs') \<Longrightarrow> content fs' t = Some f"
  by (auto simp: putFile_def split: option.splits prod.splits)

lemma writeCert_done:
  assumes "writeCert ac ci pair fs = (None, fs')"
  shows "content fs' (parseParams ci (cert_CertFile ci)) \<noteq> None" "content fs' (parseParams ci (cert_KeyFile ci)) = Some (snd pair)"
proof -
  obtain fs1 where p: "putFile ac (cert_CertFile ci) (parseParams ci (cert_CertFile ci)) (fst pair) fs = (None, fs1)"
      "putFile ac (cert_KeyFile ci) (parseParams ci (cert_KeyFile ci)) (snd pair) fs1 = (None, fs')"
    using assms by (auto simp: writeCert_def split: prod.splits option.splits)
  show "content fs' (parseParams ci (cert_CertFile ci)) \<noteq> None"
    using putFile_keeps [OF p(2)] putFile_done [OF p(1)] by simp
  show "content fs' (parseParams ci (cert_KeyFile ci)) = Some (snd pair)" using putFile_done [OF p(2)] .
qed

lemma overwrite_done:
  "overwrite ss p t fs = (r, fs') \<Longrightarrow> content fs q \<noteq> None \<Longrightarrow> content fs' q \<noteq> None"
  "overwrite ss p t fs = (None, fs') \<Longrightarrow> content fs' p = Some (overlay t (content fs p))"
  by (auto simp: overwrite_def split: option.splits)

lemma selfCert_done:
  assumes "selfCert ss ci fs = (None, fs')"
  shows "content fs' (cert_CertFile ci) \<noteq> None \<and> content fs' (cert_KeyFile ci) \<noteq> None"
proof -
  obtain fs1 t u where p: "overwrite ss (cert_CertFile ci) t fs = (None, fs1)" "overwrite ss (cert_KeyFile ci) u fs1 = (None, fs')"
    using assms by (auto simp: selfCert_def generateSelfSslCertificate_def split: prod.splits option.splits sum.splits)
  show ?thesis using overwrite_done(1) [OF p(2)] overwrite_done(2) [OF p(1)] overwrite_done(2) [OF p(2)] by simp
qed


definition demoSigner :: selfSigner where
  "demoSigner = \<lparr>ss_key = Some ''key'', ss_cert = (\<lambda>_ _. Inr ''cert''), ss_pem = (\<lambda>t b. t @ b), ss_open = (\<lambda>_. None),
     ss_write = (\<lambda>_. None)\<rparr>"

definition selfDemo :: CertInfo where
  "selfDemo = demoCert\<lparr>cert_CertMode := ''self''\<rparr>"

definition noFiles :: "string files" where
  "noFiles = \<lparr>content = Map.empty, dirs = {''/''}\<rparr>"


text \<open>
  With a placeholder in a path the pair is stored under the replaced path, but looked for, now and at
  every renewal, under the path as written: the literal path stays without a file.
\<close>

lemma placeholder_not_found:
  assumes "requestCert ac ca selfSign ci fs = (None, fs')" "cert_CertMode ci \<in> {''dns'', ''http''}"
    and "userPath ci \<noteq> cert_CertFile ci" "parseParams ci (cert_CertFile ci) \<noteq> cert_CertFile ci" "parseParams ci (cert_KeyFile ci) \<noteq> cert_CertFile ci"
    and "content fs (cert_CertFile ci) = None"
  shows "content fs' (cert_CertFile ci) = None"
proof -
  let ?p = "cert_CertFile ci"
  have put: "t \<noteq> ?p \<Longrightarrow> content fs1 ?p = None \<Longrightarrow> putFile ac p t f fs1 = (r, fs2) \<Longrightarrow> content fs2 ?p = None" for t p f fs1 r fs2
    by (auto simp: putFile_def checkPath_def split: if_splits option.splits prod.splits)
  have stored: "content fs2 ?p = None" if "content fs1 ?p = None" "writeCert ac ci pair fs1 = (r, fs2)" for fs1 pair r fs2
  proof -
    obtain q fs3 where f: "putFile ac ?p (parseParams ci ?p) (fst pair) fs1 = (q, fs3)" by fastforce
    note c = put [OF assms(4) that(1) f]
    show ?thesis
    proof (cases q)
      case None
      with f that(2) have "putFile ac (cert_KeyFile ci) (parseParams ci (cert_KeyFile ci)) (snd pair) fs3 = (r, fs2)"
        by (simp add: writeCert_def)
      from put [OF assms(5) c this] show ?thesis .
    qed (use f that(2) c in \<open>simp add: writeCert_def\<close>)
  qed
  have user: "registerUser ac (userPath ci) u fs = (r, fs2) \<Longrightarrow> content fs2 ?p = None" for u r fs2
    using assms(3,6) by (auto simp: registerUser_def userSave_def checkPath_def Let_def split: sum.splits option.splits prod.splits if_splits)
  have lego: "content fs2 ?p = None" if "NewLego ac ca ci fs = (r, fs2)" for r fs2
  proof -
    obtain q fs3 where f: "NewLegoUser ac (userPath ci) (cert_Email ci) fs = (q, fs3)" by fastforce
    then have "fs3 = fs \<or> (\<exists>u. registerUser ac (userPath ci) u fs = (q, fs3))"
      by (auto simp: NewLegoUser_def split: sum.splits if_splits)
    with user assms(6) have "content fs3 ?p = None" by blast
    with f that show ?thesis by (auto simp: NewLego_def split: sum.splits option.splits)
  qed
  consider "fs' = fs" | fs1 where "NewLego ac ca ci fs = (None, fs1)" "CreateCert ac ca ci fs1 = (None, fs')"
    using assms(1,2) by (auto simp: requestCert_def Let_def split: if_splits prod.splits option.splits)
  then show ?thesis
  proof cases
    case (2 fs1)
    then obtain pair where "writeCert ac ci pair fs1 = (None, fs')"
      by (auto simp: CreateCert_def split: sum.splits prod.splits option.splits)
    from stored [OF lego [OF 2(1)] this] show ?thesis .
  qed (simp add: assms(6))
qed

text \<open>A self-signed pair that replaces longer files keeps their tails.\<close>

lemma self_signed_tail:
  assumes "selfCert ss ci fs = (None, fs')" "cert_CertFile ci \<noteq> cert_KeyFile ci" "content fs (cert_KeyFile ci) = Some old"
  shows "\<exists>new. content fs' (cert_KeyFile ci) = Some (new @ drop (length new) old)"
proof -
  obtain fs1 t u where p: "overwrite ss (cert_CertFile ci) t fs = (None, fs1)" "overwrite ss (cert_KeyFile ci) u fs1 = (None, fs')"
    using assms(1) by (auto simp: selfCert_def generateSelfSslCertificate_def split: prod.splits option.splits sum.splits)
  have "content fs1 (cert_KeyFile ci) = Some old" using p(1) assms(2,3) by (auto simp: overwrite_def split: option.splits)
  with overwrite_done(2) [OF p(2)] show ?thesis by (auto simp: overlay_def)
qed

end
