(* ===== verification/Crypt.thy ===== *)
theory Crypt
  imports Outbox
begin

unbundle bit_operations_syntax

text \<open>
  The cryptographic helpers (\<open>common/crypt/aes.go\<close>, \<open>x25519.go\<close>) on byte strings. The block cipher and
  the hash are arguments; base64 is modelled, since the results depend on its lengths.
\<close>

section \<open>Base64\<close>

definition alphabet :: string where
  "alphabet = ''ABCDEFGHIJKLMNOPQRSTUVWXYZabcdefghijklmnopqrstuvwxyz0123456789+/''"

definition digit64 :: "nat \<Rightarrow> char" where
  "digit64 n = alphabet ! (n mod 64)"

definition value64 :: "char \<Rightarrow> nat option" where
  "value64 c = map_of (zip alphabet [0..<64]) c"

text \<open>\<open>EncodeToString\<close>: three bytes are one number of four digits; the last group is padded.\<close>

fun base64Encode :: "string \<Rightarrow> string" where
  "base64Encode (a # b # c # s) =
     (let v = 65536 * of_char a + 256 * of_char b + of_char c in
      digit64 (v div 262144) # digit64 (v div 4096) # digit64 (v div 64) # digit64 v # base64Encode s)"
| "base64Encode [a, b] =
     (let v = 65536 * of_char a + 256 * of_char b in [digit64 (v div 262144), digit64 (v div 4096), digit64 (v div 64), CHR ''=''])"
| "base64Encode [a] =
     (let v = 65536 * of_char a in [digit64 (v div 262144), digit64 (v div 4096), CHR ''='', CHR ''=''])"
| "base64Encode [] = []"

definition group64 :: "char \<Rightarrow> char \<Rightarrow> nat option" where
  "group64 a b =
     (case (value64 a, value64 b) of (Some x, Some y) \<Rightarrow> Some (64 * x + y) | _ \<Rightarrow> None)"

definition byteOf :: "nat \<Rightarrow> char" where
  "byteOf n = char_of (n mod 256)"

text \<open>\<open>DecodeString\<close> after the line ends are dropped: padding ends the text, and spare bits are ignored.\<close>

fun decodeGroups :: "string \<Rightarrow> string option" where
  "decodeGroups [] = Some []"
| "decodeGroups (a # b # c # d # s) =
     (if c = CHR ''='' \<and> d = CHR ''='' \<and> s = []
      then map_option (\<lambda>u. [byteOf (u div 16)]) (group64 a b)
      else if d = CHR ''='' \<and> s = []
      then (case (group64 a b, value64 c) of (Some u, Some x) \<Rightarrow> Some [byteOf (u div 16), byteOf ((64 * u + x) div 4)] | _ \<Rightarrow> None)
      else (case (group64 a b, group64 c d, decodeGroups s) of
          (Some u, Some w, Some r) \<Rightarrow>
            (let v = 4096 * u + w in Some (byteOf (v div 65536) # byteOf (v div 256) # byteOf v # r))
        | _ \<Rightarrow> None))"
| "decodeGroups _ = None"

definition base64Decode :: "string \<Rightarrow> string option" where
  "base64Decode s = decodeGroups (filter (\<lambda>c. c \<noteq> CHR 0x0A \<and> c \<noteq> CHR 0x0D) s)"

section \<open>AES\<close>

text \<open>The block cipher: encryption and decryption of one block of sixteen bytes under a key.\<close>

record cipher =
  enc :: "string \<Rightarrow> string \<Rightarrow> string"
  dec :: "string \<Rightarrow> string \<Rightarrow> string"

definition keySizeErr :: "string \<Rightarrow> goerr option" where
  "keySizeErr key = (if length key \<in> {16, 24, 32} then None else Some (Err ''crypto/aes: invalid key size''))"

text \<open>
  One call of a block operation: it panics on less than a block, works on the first block only, and
  the rest of the destination keeps its zero bytes.
\<close>

definition cryptBlock :: "(string \<Rightarrow> string) \<Rightarrow> nat \<Rightarrow> string \<Rightarrow> goerr + string" where
  "cryptBlock f len src =
     (if length src < 16 then Inl (Panic ''crypto/aes: input not full block'')
      else if len < 16 then Inl (Panic ''crypto/aes: output not full block'')
      else Inr (f (take 16 src) @ replicate (len - 16) (CHR 0x00)))"

definition AesEncrypt :: "cipher \<Rightarrow> string \<Rightarrow> string \<Rightarrow> goerr + string" where
  "AesEncrypt ci data key =
     (case keySizeErr key of
        Some e \<Rightarrow> Inl e
      | None \<Rightarrow> (case cryptBlock (enc ci key) (length data) data of Inl e \<Rightarrow> Inl e | Inr en \<Rightarrow> Inr (base64Encode en)))"

definition AesDecrypt :: "cipher \<Rightarrow> string \<Rightarrow> string \<Rightarrow> goerr + string" where
  "AesDecrypt ci data key =
     (case base64Decode data of
        None \<Rightarrow> Inl (Err ''illegal base64 data'')
      | Some d \<Rightarrow> (case keySizeErr key of Some e \<Rightarrow> Inl e | None \<Rightarrow> cryptBlock (dec ci key) (length data) d))"

section \<open>X25519\<close>

definition onByte :: "(nat \<Rightarrow> nat) \<Rightarrow> nat \<Rightarrow> string \<Rightarrow> string" where
  "onByte f i s = s[i := char_of (f (of_char (s ! i)))]"

definition GenX25519Private :: "(string \<Rightarrow> string) \<Rightarrow> string \<Rightarrow> string" where
  "GenX25519Private sha256 data =
     (let key = sha256 data;
          key = onByte (\<lambda>b. b AND 248) 0 key;
          key = onByte (\<lambda>b. b AND 127) 31 key;
          key = onByte (\<lambda>b. b OR 64) 31 key
      in take 32 key)"

section \<open>Round trips\<close>

lemma value64_digit64 [simp]: "value64 (digit64 n) = Some (n mod 64)"
proof -
  have "\<forall>i \<in> set [0..<64]. value64 (alphabet ! i) = Some i" by code_simp
  then show ?thesis by (simp add: digit64_def)
qed

lemma digit64_plain [simp]: "digit64 n \<noteq> CHR ''=''" "digit64 n \<noteq> CHR 0x0A" "digit64 n \<noteq> CHR 0x0D"
proof -
  have "\<forall>i \<in> set [0..<64]. alphabet ! i \<noteq> CHR ''='' \<and> alphabet ! i \<noteq> CHR 0x0A \<and> alphabet ! i \<noteq> CHR 0x0D" by code_simp
  then show "digit64 n \<noteq> CHR ''=''" "digit64 n \<noteq> CHR 0x0A" "digit64 n \<noteq> CHR 0x0D" by (simp_all add: digit64_def)
qed

lemma of_char_bound: "of_char c < (256 :: nat)"
  using of_char_of [of "of_char c :: nat"] by (metis char_of_char of_char_mod_256 mod_less_divisor zero_less_numeral)

lemma byteOf_char: "n mod 256 = of_char c \<Longrightarrow> byteOf n = c"
  by (simp add: byteOf_def)

lemma digits_join:
  fixes v :: nat
  assumes "v < 16777216"
  shows "64 * (v div 262144 mod 64) + v div 4096 mod 64 = v div 4096"
    "64 * (v div 64 mod 64) + v mod 64 = v mod 4096"
    "4096 * (v div 4096) + v mod 4096 = v"
proof -
  have "v div 262144 < 64" using assms by (simp add: div_less_iff_less_mult)
  moreover have "v div 262144 = v div 4096 div 64" by (simp add: div_mult2_eq [symmetric])
  ultimately show "64 * (v div 262144 mod 64) + v div 4096 mod 64 = v div 4096"
    using mult_div_mod_eq [of 64 "v div 4096"] by simp
  show "64 * (v div 64 mod 64) + v mod 64 = v mod 4096" using mod_mult2_eq [of v 64 64] by simp
qed simp

lemma group_digits:
  "v < 16777216 \<Longrightarrow> group64 (digit64 (v div 262144)) (digit64 (v div 4096)) = Some (v div 4096)"
  "v < 16777216 \<Longrightarrow> group64 (digit64 (v div 64)) (digit64 v) = Some (v mod 4096)"
  by (simp_all only: group64_def value64_digit64 prod.case option.case digits_join)

text \<open>The number of a group and its three bytes.\<close>

lemma bytes_join:
  fixes a b c :: char
  defines "v \<equiv> 65536 * of_char a + 256 * of_char b + of_char c :: nat"
  shows "v < 16777216" "byteOf (v div 65536) = a" "byteOf (v div 256) = b" "byteOf v = c"
proof -
  let ?x = "of_char a :: nat" and ?y = "of_char b :: nat" and ?z = "of_char c :: nat"
  have b: "?x < 256" "?y < 256" "?z < 256" by (rule of_char_bound)+
  then show "v < 16777216" unfolding v_def by linarith
  define m where "m = ?y + 256 * ?x"
  have "v = ?z + 256 * m" by (simp add: v_def m_def)
  then have v: "v div 256 = m" "v mod 256 = ?z" using b by simp_all
  have m: "m div 256 = ?x" "m mod 256 = ?y" using b by (simp_all add: m_def)
  have "v div 65536 = v div 256 div 256" by (simp only: div_mult2_eq [symmetric]) simp
  with v m b show "byteOf (v div 65536) = a" "byteOf (v div 256) = b" "byteOf v = c"
    by (auto intro!: byteOf_char)
qed

lemma decode_encode: "decodeGroups (base64Encode s) = Some s"
proof (induction s rule: base64Encode.induct)
  case (1 a b c s)
  note j = bytes_join [of a b c] and g = group_digits [OF bytes_join(1) [of a b c]]
  show ?case using 1 g j(2-4) by (simp add: Let_def)
next
  case (2 a b)
  let ?v = "65536 * of_char a + 256 * of_char b :: nat"
  note j = bytes_join [of a b "CHR 0x00", simplified]
  have "64 * (?v div 4096) + ?v div 64 mod 64 = ?v div 64"
    using mult_div_mod_eq [of 64 "?v div 64"] by (simp only: div_mult2_eq [symmetric]) simp
  then have "(64 * (?v div 4096) + ?v div 64 mod 64) div 4 = ?v div 256" by (simp only: div_mult2_eq [symmetric]) simp
  moreover have "?v div 4096 div 16 = ?v div 65536" by (simp only: div_mult2_eq [symmetric]) simp
  ultimately show ?case using j group_digits(1) [OF j(1)] by (simp add: Let_def del: div_mult_self2)
next
  case (3 a)
  let ?v = "65536 * of_char a :: nat"
  note j = bytes_join [of a "CHR 0x00" "CHR 0x00", simplified]
  have "?v div 4096 div 16 = ?v div 65536" by (simp only: div_mult2_eq [symmetric]) simp
  then show ?case using j group_digits(1) [of ?v] of_char_bound [of a] by (simp add: Let_def)
qed simp

lemma encode_lines: "c \<in> set (base64Encode s) \<Longrightarrow> c \<noteq> CHR 0x0A \<and> c \<noteq> CHR 0x0D"
  by (induction s rule: base64Encode.induct) (auto simp: Let_def)

theorem base64_roundtrip: "base64Decode (base64Encode s) = Some s"
proof -
  have "filter (\<lambda>c. c \<noteq> CHR 0x0A \<and> c \<noteq> CHR 0x0D) (base64Encode s) = base64Encode s"
    using encode_lines by (simp add: filter_id_conv)
  then show ?thesis by (simp add: base64Decode_def decode_encode)
qed

lemma length_base64: "length (base64Encode s) = 4 * ((length s + 2) div 3)"
proof (induction s rule: base64Encode.induct)
  case (1 a b c s)
  have "(length (a # b # c # s) + 2) div 3 = (length s + 2) div 3 + 1" by simp
  with 1 show ?case by (simp add: Let_def)
qed (simp_all add: Let_def)

text \<open>
  Only the first block is encrypted, and what \<open>AesDecrypt\<close> returns is that block followed by zero
  bytes up to the length of the base64 text: also for a single block it is not the plain text.
\<close>

theorem aes_first_block:
  assumes "keySizeErr key = None" "16 \<le> length data"
    and "\<And>b. length b = 16 \<Longrightarrow> length (enc ci key b) = 16 \<and> dec ci key (enc ci key b) = b"
  shows "\<exists>t. AesEncrypt ci data key = Inr t \<and> length t = 4 * ((length data + 2) div 3) \<and>
    AesDecrypt ci t key = Inr (take 16 data @ replicate (length t - 16) (CHR 0x00))"
proof -
  let ?b = "take 16 data"
  let ?en = "enc ci key ?b @ replicate (length data - 16) (CHR 0x00)"
  have b: "length (enc ci key ?b) = 16" "dec ci key (enc ci key ?b) = ?b" using assms(3) [of ?b] assms(2) by simp_all
  have l: "length ?en = length data" using b(1) assms(2) by simp
  have "AesEncrypt ci data key = Inr (base64Encode ?en)" using assms(1,2) by (simp add: AesEncrypt_def cryptBlock_def)
  moreover have "length (base64Encode ?en) = 4 * ((length data + 2) div 3)" using length_base64 [of ?en] l by simp
  moreover from this have "\<not> length (base64Encode ?en) < 16" using assms(2) by linarith
  then have "AesDecrypt ci (base64Encode ?en) key = Inr (?b @ replicate (length (base64Encode ?en) - 16) (CHR 0x00))"
    using assms(1) b l assms(2) by (simp add: AesDecrypt_def base64_roundtrip cryptBlock_def)
  ultimately show ?thesis by blast
qed

section \<open>The scalar of a private key\<close>

text \<open>A byte string as a number, the first byte being the lowest.\<close>

fun littleEndian :: "string \<Rightarrow> nat" where
  "littleEndian [] = 0"
| "littleEndian (c # s) = of_char c + 256 * littleEndian s"

lemma littleEndian_append: "littleEndian (s @ t) = littleEndian s + 256 ^ length s * littleEndian t"
  by (induction s) (simp_all add: algebra_simps)

lemma littleEndian_bound: "littleEndian s < 256 ^ length s"
proof (induction s)
  case (Cons c s)
  define p :: nat where "p = 256 ^ length s"
  have "of_char c < (256 :: nat)" "littleEndian s + 1 \<le> p" using of_char_bound Cons by (simp_all add: p_def)
  then have "of_char c + 256 * littleEndian s < 256 * p" by linarith
  then show ?case by (simp add: p_def)
qed simp

lemma low_bits:
  fixes b :: nat
  assumes "b < 256"
  shows "b AND 248 = 8 * (b div 8)" "(b AND 127) OR 64 = 64 + b mod 64" "b AND 127 < 256"
proof -
  have all: "\<forall>b \<in> set [0..255]. b AND 248 = 8 * (b div 8) \<and> (b AND 127) OR 64 = 64 + b mod (64 :: int) \<and> b AND 127 < 256" by code_simp
  have "int b AND 248 = 8 * (int b div 8)" "(int b AND 127) OR 64 = 64 + int b mod 64" "int b AND 127 < 256"
    using bspec [OF all, of "int b"] assms by simp_all
  then have "int (b AND 248) = int (8 * (b div 8))" "int ((b AND 127) OR 64) = int (64 + b mod 64)" "int (b AND 127) < int 256"
    by (simp_all add: of_nat_and_eq of_nat_or_eq zdiv_int zmod_int)
  then show "b AND 248 = 8 * (b div 8)" "(b AND 127) OR 64 = 64 + b mod 64" "b AND 127 < 256"
    by (simp_all only: of_nat_eq_iff of_nat_less_iff)
qed

text \<open>
  The private key is clamped: as a number it is \<open>2 ^ 254\<close> plus a multiple of eight below \<open>2 ^ 254\<close>,
  for any hash of thirty-two bytes.
\<close>

theorem x25519_clamped:
  assumes "length (sha256 data) = 32"
  shows "length (GenX25519Private sha256 data) = 32 \<and>
    (\<exists>m < 2 ^ 251. littleEndian (GenX25519Private sha256 data) = 2 ^ 254 + 8 * m)"
proof -
  obtain x s y where k: "sha256 data = x # s @ [y]" "length s = 30"
  proof -
    obtain x t where t: "sha256 data = x # t" using assms by (cases "sha256 data") auto
    then have "t \<noteq> []" using assms by auto
    then obtain s y where "t = s @ [y]" by (metis rev_exhaust)
    with t assms that show thesis by simp
  qed
  let ?x = "8 * (of_char x div 8) :: nat" and ?y = "64 + of_char y mod 64 :: nat"
  have q: "of_char x div 8 < (32 :: nat)" using less_mult_imp_div_less [of "of_char x" 32 8] of_char_bound [of x] by linarith
  have xy: "?x < 256" "?y < 256" using q by simp_all
  have "GenX25519Private sha256 data = char_of (of_char x AND 248 :: nat) # s @ [char_of ((of_char y AND 127) OR 64 :: nat)]"
    using k by (simp add: GenX25519Private_def onByte_def Let_def nth_append list_update_append low_bits [OF of_char_bound] low_bits(3) [OF of_char_bound, THEN mod_less])
  then have g: "GenX25519Private sha256 data = char_of ?x # s @ [char_of ?y]" by (simp only: low_bits [OF of_char_bound])
  have "littleEndian (GenX25519Private sha256 data) = ?x + 256 * (littleEndian s + 256 ^ 30 * ?y)"
    unfolding g using k(2) xy by (simp add: littleEndian_append)
  also have "\<dots> = 2 ^ 254 + 8 * (of_char x div 8 + 32 * littleEndian s + 2 ^ 245 * (of_char y mod 64))" by simp
  finally have "littleEndian (GenX25519Private sha256 data) =
      2 ^ 254 + 8 * (of_char x div 8 + 32 * littleEndian s + 2 ^ 245 * (of_char y mod 64))" .
  moreover have "littleEndian s + 1 \<le> 2 ^ 240" using littleEndian_bound [of s] k(2) by simp
  then have "of_char x div 8 + 32 * littleEndian s + 2 ^ 245 * (of_char y mod 64) < (2 ^ 251 :: nat)"
    using q mod_less_divisor [of 64 "of_char y"] by simp
  moreover have "length (GenX25519Private sha256 data) = 32" using g k(2) by simp
  ultimately show ?thesis by blast
qed

end
