(* ===== verification/Rate_Conn.thy ===== *)
theory Rate_Conn
  imports Outbox
begin

text \<open>
  Connections behind a token bucket (\<open>common/rate/conn.go\<close>). The wrapped connection is an argument, and of
  the bucket only the tokens taken from it are kept: \<open>Wait\<close> returns after it has taken them.
\<close>

record rateConn =
  rc_taken :: nat

definition waitTokens :: "nat \<Rightarrow> rateConn \<Rightarrow> rateConn" where
  "waitTokens n c = c\<lparr>rc_taken := rc_taken c + n\<rparr>"

definition NewConnRateLimiter :: rateConn where
  "NewConnRateLimiter = \<lparr>rc_taken = 0\<rparr>"

text \<open>\<open>Read\<close> pays for the whole buffer before it knows how much there is to read.\<close>

definition connRead :: "(nat \<Rightarrow> (string \<times> goerr option)) \<Rightarrow> nat \<Rightarrow> rateConn \<Rightarrow> (string \<times> goerr option) \<times> rateConn" where
  "connRead read len c = (let c = waitTokens len c in (read len, c))"

definition connWrite :: "(string \<Rightarrow> (nat \<times> goerr option)) \<Rightarrow> string \<Rightarrow> rateConn \<Rightarrow> (nat \<times> goerr option) \<times> rateConn" where
  "connWrite send b c = (let c = waitTokens (length b) c in (send b, c))"

section \<open>Transfers\<close>

datatype transfer = ReadCall nat "string \<times> goerr option" | WriteCall string "nat \<times> goerr option"

text \<open>A call together with what the wrapped connection returned, which is at most what was asked for.\<close>

fun allowed :: "transfer \<Rightarrow> bool" where
  "allowed (ReadCall len r) \<longleftrightarrow> length (fst r) \<le> len"
| "allowed (WriteCall b r) \<longleftrightarrow> fst r \<le> length b"

fun runTransfer :: "transfer \<Rightarrow> nat \<times> rateConn \<Rightarrow> nat \<times> rateConn" where
  "runTransfer (ReadCall len r) (n, c) = (case connRead (\<lambda>_. r) len c of ((s, e), c) \<Rightarrow> (n + length s, c))"
| "runTransfer (WriteCall b r) (n, c) = (case connWrite (\<lambda>_. r) b c of ((k, e), c) \<Rightarrow> (n + k, c))"

text \<open>No sequence of calls transfers more bytes than it has taken tokens.\<close>

theorem transfer_paid:
  assumes "\<forall>t \<in> set ts. allowed t" "fold runTransfer ts (0, NewConnRateLimiter) = (n, c)"
  shows "n \<le> rc_taken c"
proof -
  have step: "n' \<le> rc_taken c'" if "runTransfer t (n, c) = (n', c')" "allowed t" "n \<le> rc_taken c" for t n c n' c'
    using that by (cases t) (auto simp: connRead_def connWrite_def waitTokens_def split: prod.splits)
  have "case fold runTransfer ts x of (n, c) \<Rightarrow> n \<le> rc_taken c" if "case x of (n, c) \<Rightarrow> n \<le> rc_taken c" for x
    using that assms(1)
  proof (induction ts arbitrary: x)
    case (Cons t ts)
    obtain n c n' c' where x: "x = (n, c)" "runTransfer t x = (n', c')" by (metis surj_pair)
    with step [of t n c n' c'] Cons.prems have "n' \<le> rc_taken c'" by simp
    with Cons.IH [of "(n', c')"] Cons.prems x show ?case by simp
  qed simp
  from this [of "(0, NewConnRateLimiter)"] assms(2) show ?thesis by simp
qed

end
