(* ===== verification/Logging.thy ===== *)
theory Logging
  imports Outbox Go_Strings
begin

text \<open>
  The set-up of the loggers: \<open>applyLogConfig\<close> of \<open>cmd/server.go\<close> for the log of the process, which runs at
  start and at every reload, and \<open>newLogger\<close> of \<open>core/officialhy2/logger.go\<close> for the server's log.
\<close>

datatype level = DebugLevel | InfoLevel | WarnLevel | ErrorLevel

datatype logOut = Stdout | Stderr | LogFile nat

record LogConfig =
  lc_Level :: string
  lc_Output :: string

text \<open>The standard logger, with the file handles of the process that were opened for it.\<close>

record logger =
  lg_level :: level
  lg_out :: logOut
  lg_open :: "nat list"
  lg_next :: nat

definition logStart :: logger where
  "logStart = \<lparr>lg_level = InfoLevel, lg_out = Stderr, lg_open = [], lg_next = 0\<rparr>"

definition logLevel :: "string \<Rightarrow> level \<Rightarrow> level" where
  "logLevel s old =
     (if s = ''debug'' then DebugLevel else if s = ''info'' then InfoLevel
      else if s = ''warn'' \<or> s = ''warning'' then WarnLevel else if s = ''error'' then ErrorLevel else old)"

definition closeOld :: "logger \<Rightarrow> logger" where
  "closeOld l = (case lg_out l of LogFile h \<Rightarrow> l\<lparr>lg_open := removeAll h (lg_open l)\<rparr> | _ \<Rightarrow> l)"

text \<open>\<open>openErr\<close> is the error of opening the file, if any.\<close>

definition applyLogConfig :: "goerr option \<Rightarrow> LogConfig \<Rightarrow> logger \<Rightarrow> logger" where
  "applyLogConfig openErr c l =
     (let l = l\<lparr>lg_level := logLevel (lc_Level c) (lg_level l)\<rparr> in
      if lc_Output c = [] then l
      else (case openErr of
          Some e \<Rightarrow> l
        | None \<Rightarrow>
            (let h = lg_next l; l = closeOld (l\<lparr>lg_open := h # lg_open l, lg_next := h + 1\<rparr>) in l\<lparr>lg_out := LogFile h\<rparr>)))"

definition newLogger :: "string \<Rightarrow> goerr + level" where
  "newLogger level =
     (case map_of [(''debug'', DebugLevel), (''info'', InfoLevel), (''warn'', WarnLevel), (''error'', ErrorLevel)] (toLower level) of
        None \<Rightarrow> Inl (Err (''unsupported log level: '' @ level))
      | Some v \<Rightarrow> Inr v)"

section \<open>Open files\<close>

text \<open>
  After any number of reloads, whatever fails to open, the log is written to a file that is open or
  to the standard error, and no other log file is left open.
\<close>

definition log_inv :: "logger \<Rightarrow> bool" where
  "log_inv l \<longleftrightarrow> lg_open l = (case lg_out l of LogFile h \<Rightarrow> [h] | _ \<Rightarrow> []) \<and> (\<forall>h \<in> set (lg_open l). h < lg_next l)"

lemma applyLogConfig_inv: "log_inv l \<Longrightarrow> log_inv (applyLogConfig openErr c l)"
  by (auto simp: log_inv_def applyLogConfig_def closeOld_def Let_def split: option.splits logOut.splits)

theorem log_files_open:
  "lg_open (fold (\<lambda>(openErr, c). applyLogConfig openErr c) cs logStart) =
     (case lg_out (fold (\<lambda>(openErr, c). applyLogConfig openErr c) cs logStart) of LogFile h \<Rightarrow> [h] | _ \<Rightarrow> [])"
proof -
  have "log_inv (fold (\<lambda>(openErr, c). applyLogConfig openErr c) cs l)" if "log_inv l" for l
    using that by (induction cs arbitrary: l) (auto intro: applyLogConfig_inv)
  from this [of logStart] show ?thesis by (simp add: log_inv_def logStart_def)
qed

text \<open>The level that the server's logger is created with is one of its levels.\<close>

lemma server_logger_created: "newLogger ''error'' = Inr ErrorLevel"
  by (simp add: newLogger_def toLower_def lowerChar_def)

end
