(* ===== verification/Spec2Isabelle.thy ===== *)
theory Spec2Isabelle
  imports Outbox_Witness Outbox_Drain Counter Limiter Hy2_Concurrent Hy2_Events Receive_Buffer Node_Info Controller
    Controller_Life Billing Periodic_Task Server_Loop Outbound Hy2_Config Process Main_Loop Certificates Crypt Rate_Conn Logging
begin

text \<open>
  Verification of a Hysteria 2 node backend: a process that asks a panel for its nodes and users,
  runs one Hysteria 2 server per node, counts the traffic of every user and reports it to the panel.

  \<^bold>\<open>The program.\<close> The process (\<open>cmd/server.go\<close>, \<open>conf/\<close>) loads a configuration, creates one
  controller per node (\<open>node/\<close>) and one core (\<open>core/\<close>), and replaces both on a reload. A controller
  fetches the node description and the user list through a panel client (\<open>api/v2board/\<close>), starts
  the node in the core, and runs periodic tasks (\<open>common/task/\<close>) that report traffic, refresh the
  users, send heartbeats and renew certificates. In the core a manager (\<open>core/officialhy2/\<close>) owns the
  servers; the callbacks of a server authenticate clients, count their traffic
  (\<open>common/counter/\<close>) and check their limits (\<open>limiter/\<close>). Reported traffic passes a durable outbox
  (\<open>traffic.go\<close> and its companions), which writes a batch to disk before it posts it, deducts it from
  the counters after the panel has acknowledged it, and survives crashes, lost answers, sequence
  conflicts and failures of the file system.

  \<^bold>\<open>Shared theories.\<close>
  \<^item> Go\_Prelude: machine integers as \<open>int\<close> with the wrap-around written out or as words, results of
    Go functions as \<open>goerr + 'a\<close> with the state threaded through \<open>bindE\<close>, maps as association
    lists (the order stands for an order of iteration), amounts of traffic as a group.
  \<^item> Go\_Strings: the used part of \<open>strings\<close> and \<open>strconv\<close>, with the round trip of integers.
  \<^item> State\_Machine: the locales \<open>stable\<close> (a property kept by every step of a relation holds along
    runs) and \<open>terminating\<close> (a rank bounds the length of runs).

  \<^bold>\<open>The outbox\<close> (\<open>api/v2board/traffic.go\<close>, \<open>traffic_conflict.go\<close>, \<open>traffic_isolation.go\<close>).
  \<^item> Outbox: rows, batches, acknowledgements, the state file, errors; batch selection, validation,
    conflict and isolation rules.
  \<^item> Panel\_Client (\<open>panel.go\<close>, \<open>user.go\<close>): the state \<open>client\<close>, the checked request, users, alive
    counts, online report. An environment \<open>env\<close> answers every call of the panel, the file system,
    the clock, the lock and the context; it may fail at every call and may depend on the whole
    history. The JSON encodings are fields of it.
  \<^item> Outbox\_Store, Outbox\_Flush: load, save, send, rebase, isolate, the reporting round
    \<open>FlushTrafficLimit\<close> and the final drain \<open>PersistTraffic\<close>. Loops are recursive functions with
    termination proofs: two attempts of a send, the length of the buffer, the length of the queue.
  \<^item> Outbox\_Safety, Outbox\_Run: a monitor over the history of requests, renames, commits and
    revocations, an invariant kept by every operation, and the properties of arbitrary runs:
    write-ahead, retention of the pending batch, commits justified, at most once and only of own
    rows, conservation of rows, loadable states, no nil dereference. A crash is a prefix of a run.
  \<^item> Outbox\_Live, Outbox\_Drain, Outbox\_Witness: success against a working panel, settlement of
    exactly the captured rows, the content of the state file after the final drain, and a concrete
    environment in which all of them are exercised.

  \<^bold>\<open>The runtime\<close> (\<open>core/\<close>, \<open>limiter/\<close>, \<open>common/counter/\<close>, \<open>common/rate/\<close>).
  \<^item> Counter: the counter map over a heap of storages; the locale \<open>ledger\<close> states what an account book
    promises, and the counter is an interpretation of it.
  \<^item> Limiter: permissions, device limit, online list and speed limit of a node; Rate\_Conn: connections
    behind a token bucket.
  \<^item> Hy2\_Runtime: the methods of the traffic logger, the event logger, the manager and the core as
    functions. Hy2\_Concurrent: the same methods as interleaved atomic steps of callbacks, deletion,
    capture, settlement and pruning; an invariant of twelve parts, from which conservation of
    traffic, the freeze of deleted users and the validity of all pointers follow. Hy2\_Events: the
    path from a rejected connection to the callback that cuts it off.
  \<^item> Server\_Loop: the serving goroutine against a concurrent stop. Hy2\_Config: certificate cache,
    listening address, bandwidth, unlock rules, masquerade, construction of a server.
    Receive\_Buffer: the socket buffer. Outbound: destination addresses, resolution, write caches.

  \<^bold>\<open>The node\<close> (\<open>node/\<close>, \<open>common/task/\<close>, \<open>api/v2board/node.go\<close>).
  \<^item> Node\_Info: from the decoded description to \<open>NodeInfo\<close>, and the decision to reload.
  \<^item> Controller: start, user synchronisation, revocation, reporting, heartbeat, monitor, close.
    Synchronisation is shown to refine replacing one list of users by another.
  \<^item> Runtime\_Guard, Controller\_Run, Controller\_Life: the locale \<open>runtime_guard\<close> says what the three
    callbacks of the outbox keep of the runtime; it is interpreted for the reporting and for the
    recovery callbacks of the controller. Every history of a controller is then a run of the
    outbox, and a running controller serves exactly its user list.
  \<^item> Settlement, Accounts, Billing: the locale \<open>billing\<close> says what the outbox relies on when it deducts
    a batch (a balance per user, captures that it covers, commits that take exactly their rows).
    Under it every reporting round keeps the sum of balance and committed rows; the counters of
    the controller's node satisfy it, and so do the empty accounts of the recovery before a start.
    From the traffic callback to the acknowledged batch every byte is accounted for.
  \<^item> Periodic\_Task: the loop, worker and exit goroutines of a task as a step relation. Certificates:
    the modes of a certificate, ACME account and renewal, the self-signed pair.

  \<^bold>\<open>The process\<close>: Process (\<open>cmd/server.go\<close>, \<open>node/node.go\<close>, \<open>conf/\<close>): loading, watching, reload with
  rollback, exit. Main\_Loop: the loop of \<open>serverHandle\<close> over those steps, with the channels of
  signals and reload requests, the timers that repeat a shutdown that failed, the watcher and the
  deferred clean-up; a shutdown once asked for is never forgotten. Logging: the process log over reloads. Crypt (\<open>common/crypt/\<close>): helpers that nothing
  in the repository calls.

  \<^bold>\<open>Assumptions.\<close> Libraries are arguments: the HTTP client, JSON, TLS, QUIC, ACME, name
  resolution, block cipher and hash, socket options. Where a result needs their documented
  behaviour, it is a named hypothesis: the state encoding is read back (\<open>codec_ok\<close>), the clock and
  the context of the outbox behave (\<open>clock_ok\<close>, \<open>ctx_ok\<close>), a panel acknowledges and a file system
  works where progress is claimed (\<open>cooperative\<close>), the Linux socket options (\<open>linux_buffer\<close>), inverse
  key encodings (\<open>codecs_ok\<close>). Counters are assumed
  not to pass \<open>2 ^ 63\<close> bytes in the step relation of Hy2\_Concurrent (the guard \<open>fits\<close>); the sequential
  operations wrap as the code does. Where the code reads the clock, time is an argument.

  \<^bold>\<open>Not modelled.\<close> The included Hysteria core (\<open>third_party/\<close>) is third-party code. Command
  definitions, the version text, running shell commands and setting the clock are single calls of
  the operating system. The profiling server and the format of log lines have no influence on the
  rest. Weak memory is not considered: atomic sections are those of the locks and atomics in use.
\<close>

end
